(* ===== verification/Prelude.thy ===== *)
theory Prelude
  imports Main "HOL-Library.Word" "HOL-Library.Monad_Syntax"
begin

text \<open>
  Shared vocabulary of the development: the machine types of the C sources, the byte order
  helpers the packet code and the message code use, bounds-checked access to byte buffers, and
  generic lemmas on options, lists and words.

  Conventions used everywhere:
  \<^item> an operation whose C original may run into undefined behaviour (an index outside an
    array, a dangling or freed pointer, a read past the end of a buffer) returns an option, and
    \<open>None\<close> is that fault;
  \<^item> the host is little-endian, as the constant \<open>ROUTER_ADDR\<close> of iftop.h presupposes (it is
    documented there as 172.16.64.31);
  \<^item> \<open>time_t\<close> values are \<open>int\<close>; counters that can wrap are words.
\<close>

unbundle bit_operations_syntax

subsection \<open>Machine types\<close>

type_synonym u8 = "8 word"
type_synonym u16 = "16 word"
type_synonym u32 = "32 word"
type_synonym u64 = "64 word"
type_synonym byte = "8 word"
type_synonym time_t = int

named_theorems opt_simps "rewriting of option-monad steps"
named_theorems codec_simps "facts on byte encodings"

subsection \<open>Options\<close>

lemma bind_Some_eq [opt_simps]: "Option.bind m f = Some y \<longleftrightarrow> (\<exists>x. m = Some x \<and> f x = Some y)"
  by (cases m) auto

lemma bind_None_eq [opt_simps]: "Option.bind m f = None \<longleftrightarrow> m = None \<or> (\<exists>x. m = Some x \<and> f x = None)"
  by (cases m) auto

subsection \<open>Lists\<close>

lemma concat_split_nth:
  "i < length xss \<Longrightarrow> concat xss = concat (take i xss) @ xss ! i @ concat (drop (Suc i) xss)"
  by (subst id_take_nth_drop [of i xss]) simp_all

lemma in_concat_nth: "i < length xss \<Longrightarrow> a \<in> set (xss ! i) \<Longrightarrow> a \<in> set (concat xss)"
  by (auto intro: nth_mem)

lemma concat_upd_split:
  "i < length xss \<Longrightarrow>
   concat (xss[i := ys]) = concat (take i xss) @ ys @ concat (drop (Suc i) xss)"
  by (simp add: upd_conv_take_nth_drop)

lemma distinct_concat_nth: "distinct (concat xss) \<Longrightarrow> i < length xss \<Longrightarrow> distinct (xss ! i)"
  by (metis concat_split_nth distinct_append)

lemma distinct_concat_disjoint:
  assumes "distinct (concat xss)" and "i < length xss" and "j < length xss" and "i \<noteq> j"
  shows "set (xss ! i) \<inter> set (xss ! j) = {}"
proof -
  have "set (xss ! i) \<inter> set (xss ! j) = {}" if "i < j" "j < length xss" for i j
  proof -
    have "xss ! i \<in> set (take j xss)"
      using that by (auto simp: in_set_conv_nth intro!: exI [of _ i])
    then have "set (xss ! i) \<subseteq> set (concat (take j xss))" by auto
    then show ?thesis using assms(1) unfolding concat_split_nth [OF that(2)] by auto
  qed
  from this [of i j] this [of j i] show ?thesis using assms(2-4) by (cases i j rule: linorder_cases) auto
qed

lemma distinct_append_cong_mid:
  assumes "distinct (us @ a # vs)" and "us @ a # vs = xs @ a # ys"
  shows "us = xs \<and> vs = ys"
proof -
  have "a \<notin> set us" and "a \<notin> set vs" using assms(1) by simp_all
  then show ?thesis using assms(2) append_Cons_eq_iff [of a us vs xs ys] by blast
qed

lemma concat_drop_nth:
  "i < length xss \<Longrightarrow> concat (drop i xss) = xss ! i @ concat (drop (Suc i) xss)"
  by (simp add: Cons_nth_drop_Suc [symmetric])

lemma map_of_append_Some:
  "map_of (xs @ ys) k = (case map_of xs k of None \<Rightarrow> map_of ys k | Some v \<Rightarrow> Some v)"
  by (simp add: map_add_def split: option.split)

lemma map_of_eq_None_notin: "k \<notin> fst ` set xs \<Longrightarrow> map_of xs k = None"
  by (simp add: map_of_eq_None_iff)

lemma map_of_remove_mid:
  assumes "k \<notin> fst ` set xs" and "k \<notin> fst ` set ys"
  shows "map_of (xs @ ys) = (map_of (xs @ (k, v) # ys))(k := None)"
  using assms by (auto simp: fun_eq_iff map_add_def map_of_eq_None_notin split: option.split)

lemma map_of_insert_mid:
  "map_of (xs @ ys) k = None \<Longrightarrow> map_of (xs @ (k, v) # ys) = (map_of (xs @ ys))(k \<mapsto> v)"
  by (auto simp: fun_eq_iff map_add_def split: option.splits)

subsection \<open>Little-endian byte strings\<close>

text \<open>\<open>le_bytes n x\<close>: the \<open>n\<close> low bytes of \<open>x\<close> as a little-endian machine stores them
  (two's complement for a negative \<open>x\<close>); \<open>le_value\<close> reads them back as an unsigned number.\<close>

primrec le_bytes :: "nat \<Rightarrow> int \<Rightarrow> byte list" where
  "le_bytes 0 x = []"
| "le_bytes (Suc n) x = word_of_int (x mod 256) # le_bytes n (x div 256)"

primrec le_value :: "byte list \<Rightarrow> int" where
  "le_value [] = 0"
| "le_value (b # bs) = uint b + 256 * le_value bs"

lemma length_le_bytes [simp]: "length (le_bytes n x) = n"
  by (induction n arbitrary: x) auto

lemma uint_byte_mod: "uint (word_of_int (x mod 256) :: byte) = x mod 256"
  by (simp add: uint_word_of_int)

lemma mod_256_power_Suc:
  fixes x :: int
  shows "x mod 256 + 256 * (x div 256 mod 256 ^ n) = x mod 256 ^ Suc n"
  by (simp add: zmod_zmult2_eq [of "256 ^ n" x 256] add.commute)

lemma le_value_le_bytes [codec_simps]: "le_value (le_bytes n x) = x mod 256 ^ n"
proof (induction n arbitrary: x)
  case 0
  show ?case by simp
next
  case (Suc n)
  then show ?case using mod_256_power_Suc [of x n] by (simp add: uint_byte_mod)
qed

lemma le_value_nonneg: "0 \<le> le_value bs"
  by (induction bs) auto

lemma le_value_bound: "le_value bs < 256 ^ length bs"
proof (induction bs)
  case Nil
  show ?case by simp
next
  case (Cons b bs)
  have "uint b < 256" using uint_lt2p [of b] by simp
  with Cons show ?case by simp
qed

lemma le_value_word:
  assumes "8 * n = LENGTH('a::len)"
  shows "le_value (le_bytes n (uint (w :: 'a word))) = uint w"
proof -
  have "(256 :: int) ^ n = 2 ^ LENGTH('a)"
    using assms by (simp add: power_mult [symmetric, of "2::int" 8 n, simplified])
  then show ?thesis
    using uint_lt2p [of w] by (simp add: le_value_le_bytes)
qed

subsection \<open>Network byte order\<close>

text \<open>\<open>ntohs\<close> and \<open>ntohl\<close> on a little-endian host swap the bytes.\<close>

definition ntohs :: "u16 \<Rightarrow> u16" where
  "ntohs w = (push_bit 8 w) OR (drop_bit 8 w)"

definition ntohl :: "u32 \<Rightarrow> u32" where
  "ntohl w = (push_bit 24 w) OR (push_bit 8 (w AND 0xFF00))
     OR (drop_bit 8 (w AND 0xFF0000)) OR (drop_bit 24 w)"

definition htonl :: "u32 \<Rightarrow> u32" where
  "htonl = ntohl"

subsection \<open>Bounds-checked reads of a byte buffer\<close>

definition get8 :: "byte list \<Rightarrow> nat \<Rightarrow> byte option" where
  "get8 bs i = (if i < length bs then Some (bs ! i) else None)"

definition get_bytes :: "byte list \<Rightarrow> nat \<Rightarrow> nat \<Rightarrow> byte list option" where
  "get_bytes bs i n = (if i + n \<le> length bs then Some (take n (drop i bs)) else None)"

text \<open>The load of a 16-bit or 32-bit field by a little-endian host.\<close>

definition get16 :: "byte list \<Rightarrow> nat \<Rightarrow> u16 option" where
  "get16 bs i = map_option (word_of_int \<circ> le_value) (get_bytes bs i 2)"

definition get32 :: "byte list \<Rightarrow> nat \<Rightarrow> u32 option" where
  "get32 bs i = map_option (word_of_int \<circ> le_value) (get_bytes bs i 4)"

lemma get_bytes_defined: "get_bytes bs i n \<noteq> None \<longleftrightarrow> i + n \<le> length bs"
  by (simp add: get_bytes_def)

lemma get8_defined: "get8 bs i \<noteq> None \<longleftrightarrow> i < length bs"
  by (simp add: get8_def)

lemma get16_defined: "get16 bs i \<noteq> None \<longleftrightarrow> i + 2 \<le> length bs"
  by (simp add: get16_def get_bytes_def)

lemma get32_defined: "get32 bs i \<noteq> None \<longleftrightarrow> i + 4 \<le> length bs"
  by (simp add: get32_def get_bytes_def)

lemma get_bytes_append: "length xs = k \<Longrightarrow> get_bytes (xs @ ys) (k + i) n = get_bytes ys i n"
  by (simp add: get_bytes_def add.assoc)

lemma get_bytes_append0: "length xs = k \<Longrightarrow> get_bytes (xs @ ys) k n = get_bytes ys 0 n"
  using get_bytes_append [of xs k ys 0 n] by simp

lemma get_bytes_here: "length xs = n \<Longrightarrow> get_bytes (xs @ ys) 0 n = Some xs"
  by (simp add: get_bytes_def)

lemma get16_here: "get16 (a # b # bs) 0 = Some (word_of_int (uint a + 256 * uint b))"
  by (simp add: get16_def get_bytes_def numeral_2_eq_2)

end
