(* ===== verification/CString.thy ===== *)
theory CString
  imports Prelude "HOL-Library.Char_ord" "HOL-Library.List_Lexorder"
begin

text \<open>
  The functions of string.h, stdlib.h and stdio.h that the text-handling parts of the program use,
  on strings without their terminating NUL. \<open>strcmp\<close> compares bytes as unsigned numbers, which is
  the lexicographic order of character lists. A pointer into a string is the number of characters
  before it. Also the generic facts on prefixes the parsers share.
\<close>

named_theorems cstr_simps "facts on spans and splits of strings"

definition blank :: string where "blank = '' '' @ [CHR 0x09]"

definition newline :: char where "newline = CHR 0x0A"

definition strcmp :: "string \<Rightarrow> string \<Rightarrow> int" where
  "strcmp s t = (if s = t then 0 else if s < t then -1 else 1)"

definition strncmp_eq :: "string \<Rightarrow> string \<Rightarrow> nat \<Rightarrow> bool" where
  "strncmp_eq s t n \<longleftrightarrow> take n s = take n t"

definition strspn :: "string \<Rightarrow> string \<Rightarrow> nat" where
  "strspn s accept = length (takeWhile (\<lambda>c. c \<in> set accept) s)"

definition strcspn :: "string \<Rightarrow> string \<Rightarrow> nat" where
  "strcspn s reject = length (takeWhile (\<lambda>c. c \<notin> set reject) s)"

definition strpbrk :: "string \<Rightarrow> string \<Rightarrow> nat option" where
  "strpbrk s accept = (if strcspn s accept < length s then Some (strcspn s accept) else None)"

definition strchr :: "string \<Rightarrow> char \<Rightarrow> nat option" where
  "strchr s c = strpbrk s [c]"

text \<open>The string a buffer holds: the characters before the first NUL.\<close>

definition cstr :: "string \<Rightarrow> string" where
  "cstr s = takeWhile (\<lambda>c. c \<noteq> CHR 0x00) s"

text \<open>\<open>fgets\<close> with a buffer of \<open>n\<close> bytes on the rest of a file: up to \<open>n - 1\<close> characters, ending
  with the first newline. \<open>None\<close> is end of file with nothing read; a buffer of one byte gets the
  empty string.\<close>

definition fgets_len :: "nat \<Rightarrow> string \<Rightarrow> nat" where
  "fgets_len n s = min (n - 1) (min (length s) (Suc (length (takeWhile (\<lambda>c. c \<noteq> newline) s))))"

definition fgets :: "nat \<Rightarrow> string \<Rightarrow> (string \<times> string) option" where
  "fgets n s = (if s = [] \<and> 1 < n then None else Some (take (fgets_len n s) s, drop (fgets_len n s) s))"

lemma length_dropWhile_less: "s \<noteq> [] \<Longrightarrow> P (hd s) \<Longrightarrow> length (dropWhile P s) < length s"
proof (cases s)
  case (Cons c cs)
  assume "P (hd s)"
  with Cons have "length (dropWhile P s) \<le> length cs" by (simp add: length_dropWhile_le)
  with Cons show ?thesis by simp
qed simp

lemma hd_dropWhile_not: "dropWhile P s \<noteq> [] \<Longrightarrow> \<not> P (hd (dropWhile P s))"
  by (rule hd_dropWhile)

text \<open>The tokens that \<open>strtok(s, d)\<close>, \<open>strtok(NULL, d)\<close>, ... return before NULL.\<close>

function tokens :: "char \<Rightarrow> string \<Rightarrow> string list" where
  "tokens d s = (let s' = dropWhile (\<lambda>c. c = d) s in
     if s' = [] then [] else takeWhile (\<lambda>c. c \<noteq> d) s' # tokens d (dropWhile (\<lambda>c. c \<noteq> d) s'))"
  by pat_completeness auto

termination
proof (relation "measure (\<lambda>(d, s). length s)")
  fix d :: char and s s' :: string
  assume s': "s' = dropWhile (\<lambda>c. c = d) s" and ne: "s' \<noteq> []"
  then have "hd s' \<noteq> d" using hd_dropWhile_not [of "\<lambda>c. c = d" s] by simp
  then have "length (dropWhile (\<lambda>c. c \<noteq> d) s') < length s'"
    using length_dropWhile_less [OF ne, of "\<lambda>c. c \<noteq> d"] by simp
  also have "\<dots> \<le> length s" unfolding s' by (rule length_dropWhile_le)
  finally show "((d, dropWhile (\<lambda>c. c \<noteq> d) s'), (d, s)) \<in> measure (\<lambda>(d, s). length s)" by simp
qed simp

declare tokens.simps [simp del]

text \<open>Numbers: \<open>strtol\<close> in base 10 gives the value, clamped to a \<open>long\<close> of \<open>lb\<close> bits, and the
  position where the digits end (0 when there is none).\<close>

definition digit_val :: "char \<Rightarrow> int" where
  "digit_val c = int (of_char c) - 48"

definition is_digit :: "char \<Rightarrow> bool" where
  "is_digit c \<longleftrightarrow> c \<in> set ''0123456789''"

definition is_space :: "char \<Rightarrow> bool" where
  "is_space c \<longleftrightarrow> c \<in> {CHR '' '', CHR 0x09, CHR 0x0A, CHR 0x0B, CHR 0x0C, CHR 0x0D}"

definition digits_val :: "string \<Rightarrow> int" where
  "digits_val ds = foldl (\<lambda>n c. 10 * n + digit_val c) 0 ds"

definition clamp_long :: "nat \<Rightarrow> int \<Rightarrow> int" where
  "clamp_long lb x = max (- (2 ^ (lb - 1))) (min (2 ^ (lb - 1) - 1) x)"

definition strtol :: "nat \<Rightarrow> string \<Rightarrow> int \<times> nat \<times> bool" where
  "strtol lb s =
     (let sp = length (takeWhile is_space s);
          s1 = drop sp s;
          neg = (s1 \<noteq> [] \<and> hd s1 = CHR ''-'');
          sg = (if s1 \<noteq> [] \<and> hd s1 \<in> {CHR ''-'', CHR ''+''} then 1 else 0);
          ds = takeWhile is_digit (drop sg s1);
          v = (if neg then - digits_val ds else digits_val ds)
      in if ds = [] then (0, 0, False)
         else (clamp_long lb v, sp + sg + length ds, clamp_long lb v \<noteq> v))"

text \<open>Conversion of a \<open>long\<close> to a 32-bit \<open>int\<close>.\<close>

definition to_int :: "int \<Rightarrow> int" where
  "to_int x = sint (word_of_int x :: 32 word)"

definition atol :: "nat \<Rightarrow> string \<Rightarrow> int" where
  "atol lb s = fst (strtol lb s)"

definition atoi :: "nat \<Rightarrow> string \<Rightarrow> int" where
  "atoi lb s = to_int (atol lb s)"

subsection \<open>Facts on spans\<close>

lemma digit_not_space: "is_digit c \<Longrightarrow> \<not> is_space c \<and> c \<noteq> CHR ''-'' \<and> c \<noteq> CHR ''+'' \<and> c \<noteq> CHR '',''"
  by (auto simp: is_digit_def is_space_def)

lemma to_int_small: "- (2 ^ 31) \<le> x \<Longrightarrow> x < 2 ^ 31 \<Longrightarrow> to_int x = x"
  unfolding to_int_def sint_sbintrunc' by (rule signed_take_bit_int_eq_self) simp_all

lemma strcmp_zero: "strcmp s t = 0 \<longleftrightarrow> s = t"
  by (simp add: strcmp_def)

lemma takeWhile_stop: "(\<forall>c \<in> set xs. P c) \<Longrightarrow> ys = [] \<or> \<not> P (hd ys) \<Longrightarrow> takeWhile P (xs @ ys) = xs"
proof (cases ys)
  case Nil
  assume "\<forall>c \<in> set xs. P c"
  with Nil show ?thesis by (simp add: takeWhile_eq_all_conv)
next
  case (Cons y ys')
  assume "\<forall>c \<in> set xs. P c" "ys = [] \<or> \<not> P (hd ys)"
  with Cons show ?thesis by (simp add: takeWhile_append)
qed

lemma strspn_split [cstr_simps]:
  "set xs \<subseteq> set accept \<Longrightarrow> ys = [] \<or> hd ys \<notin> set accept \<Longrightarrow> strspn (xs @ ys) accept = length xs"
  by (subst strspn_def, subst takeWhile_stop) auto

lemma strcspn_split [cstr_simps]:
  "set xs \<inter> set reject = {} \<Longrightarrow> ys = [] \<or> hd ys \<in> set reject \<Longrightarrow> strcspn (xs @ ys) reject = length xs"
  by (subst strcspn_def, subst takeWhile_stop) auto

lemma strcspn_all [cstr_simps]: "set xs \<inter> set reject = {} \<Longrightarrow> strcspn xs reject = length xs"
  using strcspn_split [of xs reject "[]"] by simp

lemma strchr_split [cstr_simps]: "c \<notin> set xs \<Longrightarrow> strchr (xs @ c # ys) c = Some (length xs)"
  by (simp add: strchr_def strpbrk_def strcspn_split)

lemma strchr_absent: "strchr s c = None \<longleftrightarrow> c \<notin> set s"
  unfolding strchr_def strpbrk_def strcspn_def by (induction s) auto

lemma strpbrk_none [cstr_simps]: "set s \<inter> set accept = {} \<Longrightarrow> strpbrk s accept = None"
  by (simp add: strpbrk_def strcspn_all)

lemma cstr_id: "CHR 0x00 \<notin> set s \<Longrightarrow> cstr s = s"
  by (auto simp: cstr_def takeWhile_eq_all_conv)

lemma fgets_line:
  assumes "newline \<notin> set l" and "length l + 1 < n"
  shows "fgets n (l @ newline # r) = Some (l @ [newline], r)"
proof -
  have "takeWhile (\<lambda>c. c \<noteq> newline) (l @ newline # r) = l"
    using assms(1) by (intro takeWhile_stop) auto
  then have "fgets_len n (l @ newline # r) = Suc (length l)" using assms(2) by (simp add: fgets_len_def)
  then show ?thesis by (simp add: fgets_def)
qed

subsection \<open>Tokens of a separated list\<close>

lemma tokens_Cons:
  assumes "t \<noteq> []" and "d \<notin> set t" and "r = [] \<or> hd r = d"
  shows "tokens d (t @ r) = t # tokens d r"
proof -
  have h: "hd t \<noteq> d" using assms(1,2) by auto
  then have 1: "dropWhile (\<lambda>c. c = d) (t @ r) = t @ r" using assms(1) by (cases t) auto
  have 2: "takeWhile (\<lambda>c. c \<noteq> d) (t @ r) = t"
    using assms(2,3) by (intro takeWhile_stop) auto
  have 3: "dropWhile (\<lambda>c. c \<noteq> d) (t @ r) = r"
    using 2 by (metis append_eq_conv_conj takeWhile_dropWhile_id)
  show ?thesis using assms(1) by (subst tokens.simps) (simp add: 1 2 3 Let_def)
qed

lemma tokens_skip: "tokens d (d # r) = tokens d r"
  by (subst (1 2) tokens.simps) simp

fun join_with :: "char \<Rightarrow> string list \<Rightarrow> string" where
  "join_with d [] = []"
| "join_with d [t] = t"
| "join_with d (t # u # ts) = t @ d # join_with d (u # ts)"

lemma tokens_join: "(\<forall>t \<in> set ts. t \<noteq> [] \<and> d \<notin> set t) \<Longrightarrow> tokens d (join_with d ts) = ts"
proof (induction d ts rule: join_with.induct)
  case 1
  show ?case by (simp add: tokens.simps)
next
  case (2 d t)
  with tokens_Cons [of t d "[]"] show ?case by (simp add: tokens.simps)
next
  case (3 d t u ts)
  with tokens_Cons [of t d "d # join_with d (u # ts)"] show ?case by (simp add: tokens_skip)
qed

end
