(* ===== verification/StringMap.thy ===== *)
theory StringMap
  imports CString
begin

text \<open>
  stringmap.c: an unbalanced binary search tree of strings. An empty map is one node whose key is
  NULL; the children of a node are NULL or nodes with a key. The locale \<open>string_dict\<close> is the
  contract cfgfile.c relies on; the tree is its interpretation.
\<close>

datatype 'v stringmap =
    SNull
  | SNode (skey: "string option") (sitem: "'v option") (sl: "'v stringmap") (sg: "'v stringmap")

definition stringmap_new :: "'v stringmap" where
  "stringmap_new = SNode None None SNull SNull"

text \<open>The node with the given key and item that the insertion allocates.\<close>

definition snode :: "string \<Rightarrow> 'v \<Rightarrow> 'v stringmap" where
  "snode k d = SNode (Some k) (Some d) SNull SNull"

text \<open>The loop of \<open>stringmap_insert\<close> below the root. The result is the existing item, if there is
  one, and the tree; comparing with a NULL key is a fault.\<close>

fun insert_loop :: "'v stringmap \<Rightarrow> string \<Rightarrow> 'v \<Rightarrow> ('v option \<times> 'v stringmap) option" where
  "insert_loop SNull k d = None"
| "insert_loop (SNode None v l g) k d = None"
| "insert_loop (SNode (Some key) v l g) k d =
     (let i = strcmp k key
      in if i = 0 then Some (v, SNode (Some key) v l g)
         else if i < 0 then
           (if l = SNull then Some (None, SNode (Some key) v (snode k d) g)
            else map_option (\<lambda>(r, l'). (r, SNode (Some key) v l' g)) (insert_loop l k d))
         else
           (if g = SNull then Some (None, SNode (Some key) v l (snode k d))
            else map_option (\<lambda>(r, g'). (r, SNode (Some key) v l g')) (insert_loop g k d)))"

definition stringmap_insert :: "'v stringmap \<Rightarrow> string \<Rightarrow> 'v \<Rightarrow> ('v option \<times> 'v stringmap) option" where
  "stringmap_insert S k d =
     (case S of
        SNull \<Rightarrow> Some (None, SNull)
      | SNode None v l g \<Rightarrow> Some (None, SNode (Some k) (Some d) l g)
      | SNode (Some key) v l g \<Rightarrow> insert_loop S k d)"

text \<open>\<open>stringmap_find\<close> returns the subtree whose root has the key. Below the root every node has
  a key.\<close>

fun find_loop_sm :: "'v stringmap \<Rightarrow> string \<Rightarrow> 'v stringmap option" where
  "find_loop_sm SNull k = Some SNull"
| "find_loop_sm (SNode None v l g) k = None"
| "find_loop_sm (SNode (Some key) v l g) k =
     (let i = strcmp k key
      in if i = 0 then Some (SNode (Some key) v l g)
         else if i < 0 then find_loop_sm l k else find_loop_sm g k)"

definition stringmap_find :: "'v stringmap \<Rightarrow> string \<Rightarrow> 'v stringmap option" where
  "stringmap_find S k =
     (case S of SNull \<Rightarrow> Some SNull | SNode None v l g \<Rightarrow> Some SNull | _ \<Rightarrow> find_loop_sm S k)"

text \<open>The assignment \<open>S->d = d\<close> through the pointer that \<open>stringmap_find\<close> returned.\<close>

fun assign_item :: "'v stringmap \<Rightarrow> string \<Rightarrow> 'v \<Rightarrow> 'v stringmap" where
  "assign_item SNull k d = SNull"
| "assign_item (SNode None v l g) k d = SNode None v l g"
| "assign_item (SNode (Some key) v l g) k d =
     (let i = strcmp k key
      in if i = 0 then SNode (Some key) (Some d) l g
         else if i < 0 then SNode (Some key) v (assign_item l k d) g
         else SNode (Some key) v l (assign_item g k d))"

text \<open>\<open>stringmap_delete\<close> and \<open>stringmap_delete_free\<close>: the keys, and the items, freed, in the
  order of the recursion.\<close>

fun stringmap_delete :: "'v stringmap \<Rightarrow> string option list" where
  "stringmap_delete SNull = []"
| "stringmap_delete (SNode key v l g) = stringmap_delete l @ stringmap_delete g @ [key]"

fun stringmap_delete_free :: "'v stringmap \<Rightarrow> (string option \<times> 'v option) list" where
  "stringmap_delete_free SNull = []"
| "stringmap_delete_free (SNode key v l g) = stringmap_delete_free l @ stringmap_delete_free g @ [(key, v)]"

subsection \<open>Search trees\<close>

fun skeys :: "'v stringmap \<Rightarrow> string set" where
  "skeys SNull = {}"
| "skeys (SNode k v l g) = set_option k \<union> skeys l \<union> skeys g"

fun sbst :: "'v stringmap \<Rightarrow> bool" where
  "sbst SNull \<longleftrightarrow> True"
| "sbst (SNode None v l g) \<longleftrightarrow> False"
| "sbst (SNode (Some key) v l g) \<longleftrightarrow> v \<noteq> None \<and> sbst l \<and> sbst g \<and>
     (\<forall>x \<in> skeys l. x < key) \<and> (\<forall>x \<in> skeys g. key < x)"

definition smap_ok :: "'v stringmap \<Rightarrow> bool" where
  "smap_ok S \<longleftrightarrow> S = stringmap_new \<or> (S \<noteq> SNull \<and> sbst S)"

text \<open>The map a tree stands for.\<close>

fun lookup_tree :: "'v stringmap \<Rightarrow> string \<Rightarrow> 'v option" where
  "lookup_tree SNull k = None"
| "lookup_tree (SNode key v l g) k =
     (if key = Some k then v else if (case key of Some y \<Rightarrow> k < y | None \<Rightarrow> True)
      then lookup_tree l k else lookup_tree g k)"

definition smap_lookup :: "'v stringmap \<Rightarrow> string \<Rightarrow> 'v option" where
  "smap_lookup S k = Option.bind (stringmap_find S k) (\<lambda>t. case t of SNull \<Rightarrow> None | SNode _ v _ _ \<Rightarrow> v)"

lemma strcmp_less: "strcmp s t < 0 \<longleftrightarrow> s < t"
  by (simp add: strcmp_def)

lemma find_lookup:
  "sbst t \<Longrightarrow> \<exists>r. find_loop_sm t k = Some r \<and> (case r of SNull \<Rightarrow> None | SNode _ v _ _ \<Rightarrow> v) = lookup_tree t k"
  by (induction t k rule: find_loop_sm.induct) (auto simp: Let_def strcmp_zero strcmp_less)

lemma smap_lookup_tree: "sbst S \<Longrightarrow> smap_lookup S k = lookup_tree S k"
  using find_lookup [of S k]
  by (cases S rule: sbst.cases) (auto simp: smap_lookup_def stringmap_find_def)

lemma lookup_new [simp]: "smap_lookup stringmap_new k = None"
  by (simp add: smap_lookup_def stringmap_find_def stringmap_new_def)

lemma insert_loop_skeys:
  "sbst t \<Longrightarrow> insert_loop t k d = Some (r, t') \<Longrightarrow> skeys t' = insert k (skeys t)"
  by (induction t k d arbitrary: r t' rule: insert_loop.induct)
    (auto simp: Let_def strcmp_zero snode_def split: if_splits)

lemma insert_loop_spec:
  "sbst t \<Longrightarrow> t \<noteq> SNull \<Longrightarrow> \<exists>r t'. insert_loop t k d = Some (r, t') \<and> sbst t' \<and> t' \<noteq> SNull \<and>
     r = lookup_tree t k \<and>
     lookup_tree t' = (if lookup_tree t k = None then (lookup_tree t)(k \<mapsto> d) else lookup_tree t)"
proof (induction t k d rule: insert_loop.induct)
  case (3 key v l g k d)
  consider (eq) "k = key" | (lt) "k < key" | (gt) "key < k" by fastforce
  then show ?case
  proof cases
    case eq
    with 3 show ?thesis by (auto simp: strcmp_zero)
  next
    case lt
    then have c: "strcmp k key \<noteq> 0" "strcmp k key < 0" "key \<noteq> k" by (auto simp: strcmp_zero strcmp_less)
    show ?thesis
    proof (cases "l = SNull")
      case True
      with lt 3 c show ?thesis by (auto simp: snode_def fun_eq_iff)
    next
      case False
      with 3(1) [OF refl c(1,2) False] 3(3) obtain r l' where
        "insert_loop l k d = Some (r, l')" "sbst l'" "r = lookup_tree l k"
        "lookup_tree l' = (if lookup_tree l k = None then (lookup_tree l)(k \<mapsto> d) else lookup_tree l)"
        by auto
      with insert_loop_skeys [of l k d r l'] lt 3(3) c False show ?thesis
        by (auto simp: fun_eq_iff)
    qed
  next
    case gt
    then have c: "strcmp k key \<noteq> 0" "\<not> strcmp k key < 0" "key \<noteq> k" "\<not> k < key"
      by (auto simp: strcmp_zero strcmp_less)
    show ?thesis
    proof (cases "g = SNull")
      case True
      with 3 gt c show ?thesis by (auto simp: snode_def fun_eq_iff)
    next
      case False
      with 3(2) [OF refl c(1,2) False] 3(3) obtain r g' where
        "insert_loop g k d = Some (r, g')" "sbst g'" "r = lookup_tree g k"
        "lookup_tree g' = (if lookup_tree g k = None then (lookup_tree g)(k \<mapsto> d) else lookup_tree g)"
        by auto
      with insert_loop_skeys [of g k d r g'] gt 3(3) c False show ?thesis
        by (auto simp: fun_eq_iff)
    qed
  qed
qed auto

lemma assign_spec:
  "sbst t \<Longrightarrow> sbst (assign_item t k d) \<and> skeys (assign_item t k d) = skeys t \<and> (assign_item t k d = SNull \<longleftrightarrow> t = SNull) \<and>
     (lookup_tree t k \<noteq> None \<longrightarrow> lookup_tree (assign_item t k d) = (lookup_tree t)(k \<mapsto> d))"
  by (induction t k d rule: assign_item.induct) (auto simp: Let_def strcmp_zero strcmp_less fun_eq_iff)

subsection \<open>The contract with cfgfile.c\<close>

text \<open>\<open>dset\<close> is the pattern of \<open>config_set_string\<close>, \<open>dadd_all\<close> that of reading a file: insert
  unless present.\<close>

locale string_dict =
  fixes dnew :: 's
    and dfind :: "'s \<Rightarrow> string \<Rightarrow> 'v option"
    and dinsert :: "'s \<Rightarrow> string \<Rightarrow> 'v \<Rightarrow> ('v option \<times> 's) option"
    and dassign :: "'s \<Rightarrow> string \<Rightarrow> 'v \<Rightarrow> 's"
    and dok :: "'s \<Rightarrow> bool"
  assumes new_ok: "dok dnew" and find_new: "dfind dnew k = None"
    and insert_new: "dok s \<Longrightarrow> dfind s k = None \<Longrightarrow>
      \<exists>s'. dinsert s k v = Some (None, s') \<and> dok s' \<and> dfind s' = (dfind s)(k \<mapsto> v)"
    and insert_old: "dok s \<Longrightarrow> dfind s k = Some w \<Longrightarrow>
      \<exists>s'. dinsert s k v = Some (Some w, s') \<and> dok s' \<and> dfind s' = dfind s"
    and assign: "dok s \<Longrightarrow> dfind s k \<noteq> None \<Longrightarrow>
      dok (dassign s k v) \<and> dfind (dassign s k v) = (dfind s)(k \<mapsto> v)"
begin

definition dset :: "'s \<Rightarrow> string \<Rightarrow> 'v \<Rightarrow> 's option" where
  "dset s k v = (if dfind s k \<noteq> None then Some (dassign s k v) else map_option snd (dinsert s k v))"

lemma set_spec: "dok s \<Longrightarrow> \<exists>s'. dset s k v = Some s' \<and> dok s' \<and> dfind s' = (dfind s)(k \<mapsto> v)"
  using assign [of s k v] insert_new [of s k v] by (auto simp: dset_def)

fun dadd_all :: "'s \<Rightarrow> (string \<times> 'v) list \<Rightarrow> 's option" where
  "dadd_all s [] = Some s"
| "dadd_all s ((k, v) # bs) = Option.bind (dinsert s k v) (\<lambda>(_, s'). dadd_all s' bs)"

lemma insert_spec:
  assumes "dok s"
  shows "\<exists>r s'. dinsert s k v = Some (r, s') \<and> r = dfind s k \<and> dok s' \<and> dfind s' = [k \<mapsto> v] ++ dfind s"
proof (cases "dfind s k")
  case None
  with insert_new [OF assms None, of v] show ?thesis by (auto simp: fun_eq_iff map_add_def split: option.split)
next
  case (Some w)
  with insert_old [OF assms Some, of v] show ?thesis by (auto simp: fun_eq_iff map_add_def split: option.split)
qed

lemma add_all_spec:
  "dok s \<Longrightarrow> \<exists>s'. dadd_all s bs = Some s' \<and> dok s' \<and> dfind s' = map_of bs ++ dfind s"
proof (induction bs arbitrary: s)
  case Nil
  then show ?case by simp
next
  case (Cons b bs)
  obtain k v where b: "b = (k, v)" by (cases b)
  obtain r s1 where "dinsert s k v = Some (r, s1)" "dok s1" "dfind s1 = [k \<mapsto> v] ++ dfind s"
    using insert_spec [OF Cons.prems] by blast
  with Cons.IH [of s1] b show ?case by (auto simp: fun_eq_iff map_add_def split: option.split)
qed

end

lemma smap_insert_spec:
  assumes "smap_ok S"
  shows "\<exists>S'. stringmap_insert S k d = Some (smap_lookup S k, S') \<and> smap_ok S' \<and>
     smap_lookup S' = (if smap_lookup S k = None then (smap_lookup S)(k \<mapsto> d) else smap_lookup S)"
proof (cases "S = stringmap_new")
  case True
  have "stringmap_insert S k d = Some (None, snode k d)"
    using True by (simp add: stringmap_insert_def stringmap_new_def snode_def)
  moreover have "sbst (snode k d)" "snode k d \<noteq> SNull" by (simp_all add: snode_def)
  moreover have "smap_lookup (snode k d) = [k \<mapsto> d]"
    using calculation by (intro ext) (simp add: smap_lookup_tree, simp add: snode_def)
  moreover have "smap_lookup S = Map.empty" using True by (intro ext) simp
  ultimately show ?thesis by (simp add: smap_ok_def)
next
  case False
  then have S: "sbst S" "S \<noteq> SNull" using assms by (auto simp: smap_ok_def)
  then have ins: "stringmap_insert S k d = insert_loop S k d"
    by (cases S rule: sbst.cases) (auto simp: stringmap_insert_def)
  obtain r S' where R: "insert_loop S k d = Some (r, S')" "sbst S'" "S' \<noteq> SNull" "r = lookup_tree S k"
      "lookup_tree S' = (if lookup_tree S k = None then (lookup_tree S)(k \<mapsto> d) else lookup_tree S)"
    using insert_loop_spec [OF S, of k d] by blast
  moreover have "smap_lookup S = lookup_tree S" "smap_lookup S' = lookup_tree S'"
    using S R(2) by (auto intro!: ext smap_lookup_tree)
  ultimately show ?thesis unfolding ins smap_ok_def by auto
qed

lemma smap_assign_spec:
  assumes "smap_ok S" and "smap_lookup S k \<noteq> None"
  shows "smap_ok (assign_item S k d) \<and> smap_lookup (assign_item S k d) = (smap_lookup S)(k \<mapsto> d)"
proof -
  have S: "sbst S" "S \<noteq> SNull" using assms by (auto simp: smap_ok_def)
  have l: "smap_lookup S = lookup_tree S" "smap_lookup (assign_item S k d) = lookup_tree (assign_item S k d)"
    using S(1) assign_spec [OF S(1), of k d] by (auto intro!: ext smap_lookup_tree)
  then show ?thesis using assign_spec [OF S(1), of k d] assms(2) S by (simp add: smap_ok_def)
qed

interpretation smap: string_dict stringmap_new smap_lookup stringmap_insert assign_item smap_ok
proof unfold_locales
  fix S :: "'v stringmap" and k d w
  show "smap_ok (stringmap_new :: 'v stringmap)" by (simp add: smap_ok_def)
  show "smap_lookup (stringmap_new :: 'v stringmap) k = None" by simp
  show "\<exists>s'. stringmap_insert S k d = Some (None, s') \<and> smap_ok s' \<and> smap_lookup s' = (smap_lookup S)(k \<mapsto> d)"
    if "smap_ok S" "smap_lookup S k = None" using smap_insert_spec [OF that(1), of k d] that(2) by auto
  show "\<exists>s'. stringmap_insert S k d = Some (Some w, s') \<and> smap_ok s' \<and> smap_lookup s' = smap_lookup S"
    if "smap_ok S" "smap_lookup S k = Some w" using smap_insert_spec [OF that(1), of k d] that(2) by auto
  show "smap_ok (assign_item S k d) \<and> smap_lookup (assign_item S k d) = (smap_lookup S)(k \<mapsto> d)"
    if "smap_ok S" "smap_lookup S k \<noteq> None" by (rule smap_assign_spec [OF that])
qed

end
