(* ===== verification/CfgFile.thy ===== *)
theory CfgFile
  imports StringMap
begin

text \<open>
  cfgfile.c: the table of configuration values and the parser of the configuration file. A file is
  its characters; \<open>None\<close> where the file cannot be opened. The warnings printed on the way are not
  modelled. The parser is shown to be the one-pass insertion of the bindings that its logical lines
  hold, the first binding of a directive winning.
\<close>

definition MAX_CONFIG_LINE :: nat where "MAX_CONFIG_LINE = 2048"

definition config_directives :: "string list" where
  "config_directives = [''interface'', ''dns-resolution'', ''port-resolution'', ''filter-code'',
     ''show-bars'', ''promiscuous'', ''hide-source'', ''hide-destination'', ''use-bytes'', ''sort'',
     ''line-display'', ''show-totals'', ''log-scale'', ''max-bandwidth'', ''net-filter'',
     ''net-filter6'', ''link-local'', ''port-display'', ''timed-output'', ''no-curses'', ''num-lines'']"

type_synonym config = "string stringmap"

definition is_cfgdirective_valid :: "string \<Rightarrow> bool" where
  "is_cfgdirective_valid s = list_ex (\<lambda>d. strcmp s d = 0) config_directives"

definition config_init :: config where
  "config_init = stringmap_new"

subsection \<open>Parsing\<close>

text \<open>\<open>for (r = line + strlen(line) - 1; r > line && *r == '\n'; *(r--) = 0)\<close>\<close>

function strip_nl :: "string \<Rightarrow> string" where
  "strip_nl l = (if 1 < length l \<and> last l = newline then strip_nl (butlast l) else l)"
  by pat_completeness auto
termination by (relation "measure length") auto

declare strip_nl.simps [simp del]

text \<open>The continuation loop. On an empty line the test reads the byte before the buffer.\<close>

lemma fgets_rest: "fgets n s = Some (l, r) \<Longrightarrow> length r \<le> length s \<and> (l = [] \<longrightarrow> r = s)"
  by (auto simp: fgets_def split: if_splits)

lemma fgets_rest_less: "fgets n s = Some (l, r) \<Longrightarrow> l \<noteq> [] \<Longrightarrow> length r < length s"
  by (auto simp: fgets_def split: if_splits)

lemma strip_nl_length: "length (strip_nl l) \<le> length l"
  by (induction l rule: strip_nl.induct) (subst strip_nl.simps, auto)

lemma cstr_length: "length (cstr s) \<le> length s"
  unfolding cstr_def by (rule length_takeWhile_le)

function cont_loop :: "string \<Rightarrow> string \<Rightarrow> (string \<times> string) option" where
  "cont_loop line rest =
     (if line = [] then None
      else if last line = CHR 0x5C then
        (case fgets (MAX_CONFIG_LINE - length line) rest of
           None \<Rightarrow> Some (line, rest)
         | Some (l, rest') \<Rightarrow> cont_loop (strip_nl (cstr (butlast line @ l))) rest')
      else Some (line, rest))"
  by pat_completeness auto

termination
proof (relation "measures [\<lambda>(line, rest). length rest, \<lambda>(line, rest). length line]")
  fix line rest :: string and p l rest'
  assume ne: "line \<noteq> []" and f: "fgets (MAX_CONFIG_LINE - length line) rest = Some p" and p: "(l, rest') = p"
  have "length rest' < length rest \<or> rest' = rest \<and> length (strip_nl (cstr (butlast line @ l))) < length line"
  proof (cases "l = []")
    case True
    have "length (strip_nl (cstr (butlast line @ l))) \<le> length (butlast line)"
      using strip_nl_length [of "cstr (butlast line @ l)"] cstr_length [of "butlast line @ l"] True by simp
    also have "\<dots> < length line" using ne by simp
    finally show ?thesis using fgets_rest f p True by blast
  next
    case False
    then show ?thesis using fgets_rest_less f p by blast
  qed
  then show "((strip_nl (cstr (butlast line @ l)), rest'), (line, rest))
      \<in> measures [\<lambda>(line, rest). length rest, \<lambda>(line, rest). length line]" by auto
qed simp

declare cont_loop.simps [simp del]

text \<open>\<open>r = value + strlen(value) - 1; while (strchr(" \t", *r) && r > value) --r; *(r + 1) = 0\<close>\<close>

function strip_blank :: "string \<Rightarrow> string" where
  "strip_blank v = (if 1 < length v \<and> last v \<in> set blank then strip_blank (butlast v) else v)"
  by pat_completeness auto
termination by (relation "measure length") auto

declare strip_blank.simps [simp del]

text \<open>From the comment to the value: the directive and value of a line.\<close>

definition parse_line :: "string \<Rightarrow> (string \<times> string) option" where
  "parse_line line =
     (let line = (case strpbrk line (CHR ''#'' # [newline]) of Some i \<Rightarrow> take i line | None \<Rightarrow> line);
          key = drop (strspn line blank) line
      in case strchr line CHR '':'' of
           None \<Rightarrow> None
         | Some v \<Rightarrow>
             (let value = drop (Suc v) line;
                  r = strcspn key (blank @ '':'')
              in if r = 0 then None
                 else Some (take r key, strip_blank (drop (strspn value blank) value))))"

text \<open>\<open>cont_loop\<close> does not give back input, so the reading loop ends.\<close>

lemma cont_loop_rest: "cont_loop line rest = Some (line', rest') \<Longrightarrow> length rest' \<le> length rest"
proof (induction line rest rule: cont_loop.induct)
  case (1 line rest)
  show ?case
  proof (cases "fgets (MAX_CONFIG_LINE - length line) rest")
    case None
    then show ?thesis using 1(2) unfolding cont_loop.simps [of line rest] by (auto split: if_splits)
  next
    case (Some p)
    obtain l r where p: "p = (l, r)" by (cases p)
    have "length r \<le> length rest" using fgets_rest Some p by blast
    then show ?thesis
      using 1(1) [OF _ _ Some p [symmetric]] 1(2) Some p unfolding cont_loop.simps [of line rest]
      by (fastforce split: if_splits)
  qed
qed

lemma fgets_full: "fgets MAX_CONFIG_LINE s = Some (l, r) \<Longrightarrow> length r < length s"
  by (auto simp: fgets_def fgets_len_def MAX_CONFIG_LINE_def split: if_splits)

lemma read_rest_less:
  "fgets MAX_CONFIG_LINE rest = Some (l, rest') \<Longrightarrow> cont_loop x rest' = Some (line, rest'') \<Longrightarrow>
   length rest'' < length rest"
  using fgets_full [of rest l rest'] cont_loop_rest [of x rest' line rest''] by simp

function read_lines :: "string \<Rightarrow> config \<Rightarrow> config option" where
  "read_lines rest c =
     (case fgets MAX_CONFIG_LINE rest of
        None \<Rightarrow> Some c
      | Some (l, rest') \<Rightarrow>
          (case cont_loop (strip_nl (cstr l)) rest' of
             None \<Rightarrow> None
           | Some (line, rest'') \<Rightarrow>
               (case parse_line line of
                  None \<Rightarrow> read_lines rest'' c
                | Some (key, value) \<Rightarrow>
                    if \<not> is_cfgdirective_valid key then read_lines rest'' c
                    else (case stringmap_insert c key value of
                            None \<Rightarrow> None
                          | Some (_, c') \<Rightarrow> read_lines rest'' c'))))"
  by pat_completeness auto

termination
  by (relation "measure (\<lambda>(rest, c). length rest)") (auto dest: read_rest_less)

declare read_lines.simps [simp del]

text \<open>\<open>read_config_file\<close> and \<open>read_config\<close>: the status and the new table.\<close>

definition read_config_file :: "string option \<Rightarrow> config \<Rightarrow> (int \<times> config) option" where
  "read_config_file contents c =
     (case contents of None \<Rightarrow> Some (0, c) | Some s \<Rightarrow> map_option (Pair 1) (read_lines s c))"

definition read_config :: "string option \<Rightarrow> config \<Rightarrow> (int \<times> config) option" where
  "read_config = read_config_file"

subsection \<open>Reading values\<close>

definition config_get_string :: "config \<Rightarrow> string \<Rightarrow> string option" where
  "config_get_string c directive = smap_lookup c directive"

text \<open>Result code and the value stored, if one is stored.\<close>

definition config_get_int :: "nat \<Rightarrow> config \<Rightarrow> string \<Rightarrow> int \<times> int option" where
  "config_get_int lb c directive =
     (case smap_lookup c directive of
        None \<Rightarrow> (0, None)
      | Some s \<Rightarrow> if s = [] then (-1, None)
          else (case strtol lb s of (v, e, erange) \<Rightarrow>
            (if e < length s then -1 else if erange then -1 else 1, Some (to_int v))))"

text \<open>The same for a \<open>float\<close>: \<open>strtod\<close>, with the conversion to \<open>float\<close>, is a parameter giving
  the value, the position where the number ends and whether it was out of range.\<close>

definition config_get_float ::
  "(string \<Rightarrow> 'f \<times> nat \<times> bool) \<Rightarrow> config \<Rightarrow> string \<Rightarrow> int \<times> 'f option" where
  "config_get_float strtod c directive =
     (case smap_lookup c directive of
        None \<Rightarrow> (0, None)
      | Some s \<Rightarrow> if s = [] then (-1, None)
          else (case strtod s of (v, e, erange) \<Rightarrow>
            (if e < length s then -1 else if erange then -1 else 1, Some v)))"

text \<open>Both store a value exactly when the directive has a non-empty value, and succeed only if all of it
  is a number.\<close>

lemma config_number_stored:
  "snd (config_get_float strtod c d) \<noteq> None \<longleftrightarrow> smap_lookup c d \<notin> {None, Some []}"
  "snd (config_get_int lb c d) \<noteq> None \<longleftrightarrow> smap_lookup c d \<notin> {None, Some []}"
  by (auto simp: config_get_float_def config_get_int_def split: option.splits prod.splits)

lemma config_number_whole:
  "fst (config_get_float strtod c d) = 1 \<Longrightarrow>
     \<exists>s v e. smap_lookup c d = Some s \<and> s \<noteq> [] \<and> strtod s = (v, e, False) \<and> length s \<le> e"
  by (auto simp: config_get_float_def split: option.splits prod.splits if_splits)

definition config_get_bool :: "config \<Rightarrow> string \<Rightarrow> int" where
  "config_get_bool c directive =
     (case config_get_string c directive of
        Some s \<Rightarrow> if strcmp s ''yes'' = 0 \<or> strcmp s ''true'' = 0 then 1 else 0
      | None \<Rightarrow> 0)"

text \<open>An enumeration is the list of its names and values before the NULL entry.\<close>

definition config_get_enum :: "config \<Rightarrow> string \<Rightarrow> (string \<times> 'e) list \<Rightarrow> 'e option" where
  "config_get_enum c directive enumeration =
     (case config_get_string c directive of None \<Rightarrow> None | Some s \<Rightarrow> map_of enumeration s)"

definition config_set_string :: "config \<Rightarrow> string \<Rightarrow> string \<Rightarrow> config option" where
  "config_set_string c directive s =
     (if smap_lookup c directive \<noteq> None then Some (assign_item c directive s)
      else map_option snd (stringmap_insert c directive s))"

subsection \<open>Reading a file is inserting its bindings\<close>

text \<open>The logical lines of a file: comments not yet removed, continuation lines joined.\<close>

function logical_lines :: "string \<Rightarrow> string list option" where
  "logical_lines rest =
     (case fgets MAX_CONFIG_LINE rest of
        None \<Rightarrow> Some []
      | Some (l, rest') \<Rightarrow>
          (case cont_loop (strip_nl (cstr l)) rest' of
             None \<Rightarrow> None
           | Some (line, rest'') \<Rightarrow> map_option (Cons line) (logical_lines rest'')))"
  by pat_completeness auto
termination
  by (relation "measure length") (auto dest: read_rest_less)

declare logical_lines.simps [simp del]

definition line_bindings :: "string list \<Rightarrow> (string \<times> string) list" where
  "line_bindings ls = filter (\<lambda>(k, v). is_cfgdirective_valid k) (List.map_filter parse_line ls)"

lemma line_bindings_simps [simp]:
  "line_bindings [] = []"
  "line_bindings (l # ls) = (case parse_line l of
     Some (k, v) \<Rightarrow> if is_cfgdirective_valid k then (k, v) # line_bindings ls else line_bindings ls
   | None \<Rightarrow> line_bindings ls)"
  by (auto simp: line_bindings_def List.map_filter_simps split: option.split)

lemma read_lines_dadd:
  "read_lines rest c = Option.bind (logical_lines rest) (\<lambda>ls. smap.dadd_all c (line_bindings ls))"
proof (induction rest c rule: read_lines.induct)
  case (1 rest c)
  show ?case
  proof (cases "fgets MAX_CONFIG_LINE rest")
    case None
    then show ?thesis by (subst read_lines.simps, subst logical_lines.simps) simp
  next
    case (Some p)
    obtain l rest' where p: "p = (l, rest')" by (cases p)
    show ?thesis
    proof (cases "cont_loop (strip_nl (cstr l)) rest'")
      case None
      with Some p show ?thesis by (subst read_lines.simps, subst logical_lines.simps) simp
    next
      case C: (Some q)
      obtain line rest'' where q: "q = (line, rest'')" by (cases q)
      note IH = 1 [OF Some p [symmetric] C q [symmetric]]
      have R: "read_lines rest c = (case parse_line line of None \<Rightarrow> read_lines rest'' c
          | Some (key, value) \<Rightarrow> if \<not> is_cfgdirective_valid key then read_lines rest'' c
            else (case stringmap_insert c key value of None \<Rightarrow> None | Some (_, c') \<Rightarrow> read_lines rest'' c'))"
        using Some p C q by (subst read_lines.simps) simp
      have L: "logical_lines rest = map_option (Cons line) (logical_lines rest'')"
        using Some p C q by (subst logical_lines.simps) simp
      show ?thesis
      proof (cases "parse_line line")
        case None
        with IH(1) show ?thesis unfolding R L by (cases "logical_lines rest''") simp_all
      next
        case P: (Some kv)
        obtain k v where kv: "kv = (k, v)" by (cases kv)
        show ?thesis
        proof (cases "is_cfgdirective_valid k")
          case False
          with IH(2) [OF P kv [symmetric]] P kv show ?thesis
            unfolding R L by (cases "logical_lines rest''") simp_all
        next
          case True
          show ?thesis
          proof (cases "stringmap_insert c k v")
            case None
            with P kv True show ?thesis unfolding R L by (cases "logical_lines rest''") simp_all
          next
            case I: (Some rc)
            obtain r c' where rc: "rc = (r, c')" by (cases rc)
            from IH(3) [OF P kv [symmetric] _ I rc [symmetric]] True P kv I rc show ?thesis
              unfolding R L by (cases "logical_lines rest''") simp_all
          qed
        qed
      qed
    qed
  qed
qed

text \<open>A file without NUL characters is read without a fault.\<close>

lemma strip_nl_ne: "l \<noteq> [] \<Longrightarrow> strip_nl l \<noteq> []"
proof (induction l rule: strip_nl.induct)
  case (1 l)
  have "1 < length l \<Longrightarrow> butlast l \<noteq> []" by (cases l rule: rev_cases) auto
  with 1 show ?case by (subst strip_nl.simps) auto
qed

lemma strip_nl_set: "set (strip_nl l) \<subseteq> set l"
  by (induction l rule: strip_nl.induct) (subst strip_nl.simps, auto dest: in_set_butlastD)

lemma fgets_parts:
  "fgets n s = Some (l, r) \<Longrightarrow> s = l @ r \<and> length l \<le> n - 1 \<and> (1 < n \<longrightarrow> l \<noteq> [])"
  by (auto simp: fgets_def fgets_len_def min_def split: if_splits)

lemma cont_loop_defined:
  "line \<noteq> [] \<Longrightarrow> length line < MAX_CONFIG_LINE \<Longrightarrow> CHR 0x00 \<notin> set line \<Longrightarrow> CHR 0x00 \<notin> set rest \<Longrightarrow>
   \<exists>line' rest'. cont_loop line rest = Some (line', rest') \<and> CHR 0x00 \<notin> set rest'"
proof (induction line rest rule: cont_loop.induct)
  case (1 line rest)
  let ?n = "MAX_CONFIG_LINE - length line"
  show ?case
  proof (cases "last line = CHR 0x5C \<and> fgets ?n rest \<noteq> None")
    case False
    with 1(2,5) show ?thesis by (subst cont_loop.simps) (auto split: option.split)
  next
    case True
    then obtain l r where f: "fgets ?n rest = Some (l, r)" by auto
    note parts = fgets_parts [OF f]
    let ?x = "butlast line @ l"
    have z: "CHR 0x00 \<notin> set ?x" using 1(4,5) parts by (auto dest: in_set_butlastD)
    have len: "length ?x < MAX_CONFIG_LINE"
      using parts 1(2,3) by (cases line rule: rev_cases) auto
    have "?x \<noteq> []"
    proof (cases "butlast line = []")
      case True
      then have "length line = 1" using 1(2) by (cases line rule: rev_cases) auto
      then show ?thesis using parts by (auto simp: MAX_CONFIG_LINE_def)
    qed auto
    then have "strip_nl (cstr ?x) \<noteq> []" using z by (simp add: cstr_id strip_nl_ne)
    moreover have "length (strip_nl (cstr ?x)) < MAX_CONFIG_LINE"
      using len strip_nl_length [of "cstr ?x"] cstr_length [of ?x] by linarith
    moreover have "CHR 0x00 \<notin> set (strip_nl (cstr ?x))"
      using z strip_nl_set [of "cstr ?x"] by (auto simp: cstr_id)
    moreover have "CHR 0x00 \<notin> set r" using 1(5) parts by auto
    ultimately have "\<exists>line' rest'. cont_loop (strip_nl (cstr ?x)) r = Some (line', rest') \<and> CHR 0x00 \<notin> set rest'"
      using 1(1) [OF 1(2) _ f refl] True by blast
    with True f 1(2) show ?thesis by (subst cont_loop.simps) auto
  qed
qed

lemma logical_lines_defined: "CHR 0x00 \<notin> set s \<Longrightarrow> logical_lines s \<noteq> None"
proof (induction s rule: logical_lines.induct)
  case (1 rest)
  show ?case
  proof (cases "fgets MAX_CONFIG_LINE rest")
    case None
    then show ?thesis by (subst logical_lines.simps) simp
  next
    case (Some p)
    obtain l r where p: "p = (l, r)" by (cases p)
    note parts = fgets_parts [OF Some [unfolded p]]
    have z: "CHR 0x00 \<notin> set l" "CHR 0x00 \<notin> set r" using parts 1(2) by auto
    have "strip_nl (cstr l) \<noteq> []" "length (strip_nl (cstr l)) < MAX_CONFIG_LINE"
        "CHR 0x00 \<notin> set (strip_nl (cstr l))"
      using parts z strip_nl_ne [of l] strip_nl_length [of l] strip_nl_set [of l]
      by (auto simp: cstr_id MAX_CONFIG_LINE_def)
    then obtain line r' where c: "cont_loop (strip_nl (cstr l)) r = Some (line, r')" "CHR 0x00 \<notin> set r'"
      using cont_loop_defined z(2) by blast
    with 1(1) [OF Some p [symmetric] c(1) refl] Some p show ?thesis
      by (subst logical_lines.simps) simp
  qed
qed

subsection \<open>Printing and reading back\<close>

definition clean_key :: "string \<Rightarrow> bool" where
  "clean_key k \<longleftrightarrow> k \<noteq> [] \<and> set k \<inter> ({CHR ''#'', newline, CHR 0x00, CHR '':''} \<union> set blank) = {}"

definition clean_value :: "string \<Rightarrow> bool" where
  "clean_value v \<longleftrightarrow> set v \<inter> {CHR ''#'', newline, CHR 0x00} = {} \<and>
     (v = [] \<or> hd v \<notin> set blank \<and> last v \<notin> set blank \<and> last v \<noteq> CHR 0x5C)"

definition render :: "(string \<times> string) list \<Rightarrow> string" where
  "render bs = concat (map (\<lambda>(k, v). k @ '': '' @ v @ [newline]) bs)"

definition printable :: "string \<times> string \<Rightarrow> bool" where
  "printable = (\<lambda>(k, v). clean_key k \<and> clean_value v \<and> length k + length v + 4 < MAX_CONFIG_LINE)"

lemma strip_blank_id: "v = [] \<or> last v \<notin> set blank \<Longrightarrow> strip_blank v = v"
  by (subst strip_blank.simps) auto

lemma blank_set: "set blank = {CHR '' '', CHR 0x09}"
  by (auto simp: blank_def)

lemma parse_rendered:
  assumes k: "clean_key k" and v: "clean_value v"
  shows "parse_line (k @ '': '' @ v) = Some (k, v)"
proof -
  let ?l = "k @ '': '' @ v"
  have "set ?l \<inter> set (CHR ''#'' # [newline]) = {}"
    using k v by (auto simp: clean_key_def clean_value_def newline_def)
  then have a: "strpbrk ?l (CHR ''#'' # [newline]) = None" by (rule strpbrk_none)
  have "strspn ([] @ ?l) blank = length ([] :: string)"
    using k by (intro strspn_split) (auto simp: clean_key_def disjoint_iff hd_append)
  then have b: "strspn ?l blank = 0" by simp
  have c: "strchr ?l CHR '':'' = Some (length k)"
    using k by (auto simp: clean_key_def intro: strchr_split)
  have d: "strcspn ?l (blank @ '':'') = length k"
    using k by (intro strcspn_split) (auto simp: clean_key_def)
  have "strspn ('' '' @ v) blank = length '' ''"
    using v by (intro strspn_split) (auto simp: clean_value_def blank_set)
  then have e: "strspn (CHR '' '' # v) blank = 1" by simp
  have f: "strip_blank v = v" using v by (intro strip_blank_id) (auto simp: clean_value_def)
  have g: "drop (Suc (length k)) ?l = CHR '' '' # v" by simp
  have ne: "length k \<noteq> 0" using k by (simp add: clean_key_def)
  show ?thesis
    unfolding parse_line_def Let_def a b option.case c drop_0 d g e using ne f by simp
qed

lemma strip_nl_snoc: "l \<noteq> [] \<Longrightarrow> strip_nl (l @ [newline]) = strip_nl l"
  by (subst strip_nl.simps) simp

lemma logical_render:
  "list_all printable bs \<Longrightarrow> logical_lines (render bs) = Some (map (\<lambda>(k, v). k @ '': '' @ v) bs)"
proof (induction bs)
  case Nil
  show ?case by (subst logical_lines.simps) (simp add: render_def fgets_def MAX_CONFIG_LINE_def)
next
  case (Cons b bs)
  obtain k v where b: "b = (k, v)" by (cases b)
  let ?l = "k @ '': '' @ v"
  have kv: "clean_key k" "clean_value v" "length ?l + 1 < MAX_CONFIG_LINE"
    using Cons.prems b by (auto simp: printable_def)
  have nl: "newline \<notin> set ?l" using kv by (auto simp: clean_key_def clean_value_def newline_def)
  have r: "render (b # bs) = ?l @ newline # render bs" by (simp add: render_def b)
  have f: "fgets MAX_CONFIG_LINE (render (b # bs)) = Some (?l @ [newline], render bs)"
    unfolding r by (rule fgets_line [OF nl kv(3)])
  have z: "CHR 0x00 \<notin> set (?l @ [newline])"
    using kv by (auto simp: clean_key_def clean_value_def newline_def)
  have "strip_nl (?l @ [newline]) = strip_nl ?l" using strip_nl_snoc [of ?l] by simp
  also have "\<dots> = ?l"
  proof -
    have "last ?l \<noteq> newline" using nl by (metis append_is_Nil_conv last_in_set list.distinct(1))
    then show ?thesis by (subst strip_nl.simps) simp
  qed
  finally have s: "strip_nl (cstr (?l @ [newline])) = ?l" unfolding cstr_id [OF z] .
  have "last ?l \<noteq> CHR 0x5C" using kv(2) by (auto simp: clean_value_def)
  then have c: "cont_loop ?l (render bs) = Some (?l, render bs)"
    by (subst cont_loop.simps) simp
  show ?case
    using f s c Cons b by (subst logical_lines.simps) (simp del: append_assoc append_Cons append_Nil)
qed

lemma parse_map:
  "list_all printable bs \<Longrightarrow> line_bindings (map (\<lambda>(k, v). k @ '': '' @ v) bs) = filter (\<lambda>(k, v). is_cfgdirective_valid k) bs"
  by (induction bs) (auto simp: printable_def parse_rendered [simplified])

subsection \<open>Properties\<close>

text \<open>C36. Reading a configuration file without NUL characters never faults, whatever its lines are
  (unterminated, overlong, with continuations at the end of the file, empty): it returns success, keeps
  the search tree well-formed, and every directive keeps its previous value if it had one and otherwise
  gets the first value the file binds it to.\<close>

theorem read_config_first_wins:
  assumes "CHR 0x00 \<notin> set s" and "smap_ok c"
  shows "\<exists>c' ls. read_config_file (Some s) c = Some (1, c') \<and> smap_ok c' \<and> logical_lines s = Some ls \<and>
     (\<forall>k. config_get_string c' k =
        (case config_get_string c k of Some v \<Rightarrow> Some v | None \<Rightarrow> map_of (line_bindings ls) k))"
proof -
  obtain ls where ls: "logical_lines s = Some ls" using logical_lines_defined [OF assms(1)] by blast
  obtain c' where c': "smap.dadd_all c (line_bindings ls) = Some c'" "smap_ok c'"
      "smap_lookup c' = map_of (line_bindings ls) ++ smap_lookup c"
    using smap.add_all_spec [OF assms(2)] by blast
  have "read_config_file (Some s) c = Some (1, c')"
    using ls c'(1) by (simp add: read_config_file_def read_lines_dadd)
  with ls c' show ?thesis
    by (auto simp: config_get_string_def map_add_def split: option.split)
qed

theorem read_config_first_wins_witness:
  "\<exists>c' ls. read_config_file (Some ''promiscuous: yes'') config_init = Some (1, c') \<and>
     logical_lines ''promiscuous: yes'' = Some ls \<and>
     config_get_string c' ''promiscuous'' = map_of (line_bindings ls) ''promiscuous''"
proof -
  have "CHR 0x00 \<notin> set ''promiscuous: yes''" "smap_ok config_init" by (simp_all add: config_init_def smap_ok_def)
  from read_config_first_wins [OF this] show ?thesis by (auto simp: config_init_def config_get_string_def)
qed

text \<open>C18. Round trip of the configuration file: printing directives and values one per line as
  \<open>directive: value\<close> and reading the file into an empty table gives back, for every known directive,
  its first value.\<close>

theorem config_round_trip:
  assumes "list_all printable bs" and "list_all (\<lambda>(k, v). is_cfgdirective_valid k) bs"
  shows "\<exists>c'. read_config_file (Some (render bs)) config_init = Some (1, c') \<and>
     (\<forall>k. config_get_string c' k = map_of bs k)"
proof -
  have "filter (\<lambda>(k, v). is_cfgdirective_valid k) bs = bs" using assms(2) by (induction bs) auto
  then have lb: "line_bindings (map (\<lambda>(k, v). k @ '': '' @ v) bs) = bs" using parse_map [OF assms(1)] by simp
  obtain c' where "smap.dadd_all config_init bs = Some c'" "smap_lookup c' = map_of bs ++ smap_lookup config_init"
    using smap.add_all_spec [of config_init bs] by (auto simp: config_init_def smap_ok_def)
  then show ?thesis
    by (auto simp: read_config_file_def read_lines_dadd logical_render [OF assms(1)] lb config_get_string_def
        config_init_def map_add_def lb [simplified] split: option.split)
qed

theorem config_round_trip_witness:
  "\<exists>c'. read_config_file (Some (''sort: 2s'' @ [newline] @ ''use-bytes: yes'' @ [newline])) config_init = Some (1, c') \<and>
     config_get_string c' ''use-bytes'' = Some ''yes'' \<and> config_get_string c' ''sort'' = Some ''2s''"
proof -
  let ?bs = "[(''sort'', ''2s''), (''use-bytes'', ''yes'')]"
  have "list_all printable ?bs"
    by (simp add: printable_def clean_key_def clean_value_def blank_set newline_def MAX_CONFIG_LINE_def)
  moreover have "list_all (\<lambda>(k, v). is_cfgdirective_valid k) ?bs"
    by (simp add: is_cfgdirective_valid_def config_directives_def strcmp_zero)
  moreover have "render ?bs = ''sort: 2s'' @ [newline] @ ''use-bytes: yes'' @ [newline]" by (simp add: render_def)
  ultimately show ?thesis using config_round_trip [of ?bs] by auto
qed

text \<open>\<open>config_set_string\<close> overrides: afterwards the directive has the new value and every other
  directive what it had, so a value set from the command line before the file is read is kept by
  \<open>read_config_file\<close>.\<close>

theorem config_set_overrides:
  assumes "smap_ok c"
  shows "\<exists>c'. config_set_string c d v = Some c' \<and> smap_ok c' \<and>
     (\<forall>k. config_get_string c' k = (if k = d then Some v else config_get_string c k))"
  using smap.set_spec [OF assms, of d v] unfolding smap.dset_def config_set_string_def [symmetric]
  by (auto simp: config_get_string_def)

theorem config_set_overrides_witness:
  "\<exists>c'. config_set_string config_init ''no-curses'' ''true'' = Some c' \<and>
     config_get_string c' ''no-curses'' = Some ''true''"
proof -
  have "smap_ok config_init" by (simp add: config_init_def smap_ok_def)
  from config_set_overrides [OF this, of "''no-curses''" "''true''"] show ?thesis by auto
qed

end
