(* ===== verification/CHeap.thy ===== *)
theory CHeap
  imports Prelude
begin

text \<open>
  The allocator wrappers of util.c over an explicit store. A heap maps the addresses of live
  objects to their contents; \<open>brk\<close> is the next address handed out, so an address is never
  reused and a pointer to a freed object stays recognisable. \<open>xmalloc\<close> and its kin abort
  when memory runs out, so the model, which never runs out, has no branch for it.
\<close>

type_synonym addr = nat

record 'a heap =
  cells :: "addr \<Rightarrow> 'a option"
  brk :: addr

definition heap_empty :: "'a heap" where
  "heap_empty = \<lparr>cells = Map.empty, brk = 0\<rparr>"

definition xmalloc :: "'a heap \<Rightarrow> 'a \<Rightarrow> addr \<times> 'a heap" where
  "xmalloc h v = (brk h, h\<lparr>cells := (cells h)(brk h \<mapsto> v), brk := Suc (brk h)\<rparr>)"

text \<open>Loads and stores through a pointer, and \<open>free\<close>: all three fault on a pointer that
  does not designate a live object.\<close>

definition hread :: "'a heap \<Rightarrow> addr \<Rightarrow> 'a option" where
  "hread h a = cells h a"

definition hwrite :: "'a heap \<Rightarrow> addr \<Rightarrow> 'a \<Rightarrow> 'a heap option" where
  "hwrite h a v =
     (if cells h a = None then None else Some (h\<lparr>cells := (cells h)(a \<mapsto> v)\<rparr>))"

definition hfree :: "'a heap \<Rightarrow> addr \<Rightarrow> 'a heap option" where
  "hfree h a =
     (if cells h a = None then None else Some (h\<lparr>cells := (cells h)(a := None)\<rparr>))"

text \<open>\<open>xfree\<close> ignores a NULL pointer.\<close>

definition xfree :: "'a heap \<Rightarrow> addr option \<Rightarrow> 'a heap option" where
  "xfree h p = (case p of None \<Rightarrow> Some h | Some a \<Rightarrow> hfree h a)"

text \<open>\<open>xrealloc\<close> of an array to \<open>n\<close> elements: what fits is kept, what is new is indeterminate,
  \<open>None\<close>.\<close>

definition xrealloc :: "'a option list \<Rightarrow> nat \<Rightarrow> 'a option list" where
  "xrealloc w n = take n w @ replicate (n - length w) None"

definition heap_ok :: "'a heap \<Rightarrow> bool" where
  "heap_ok h \<longleftrightarrow> (\<forall>a. cells h a \<noteq> None \<longrightarrow> a < brk h)"

named_theorems heap_simps "the store operations, unfolded on live cells"

lemmas [heap_simps] = hread_def hwrite_def hfree_def xmalloc_def

lemma heap_ok_empty [simp]: "heap_ok heap_empty"
  by (simp add: heap_ok_def heap_empty_def)

lemma heap_ok_fresh: "heap_ok h \<Longrightarrow> cells h (brk h) = None"
  by (auto simp: heap_ok_def)

lemma heap_ok_upd:
  "heap_ok h \<Longrightarrow> cells h a \<noteq> None \<Longrightarrow> heap_ok (h\<lparr>cells := (cells h)(a := v)\<rparr>)"
  by (auto simp: heap_ok_def)

lemma heap_ok_malloc: "heap_ok h \<Longrightarrow> heap_ok (snd (xmalloc h v))"
  by (auto simp: heap_ok_def xmalloc_def less_Suc_eq)

lemma xmalloc_read: "hread (snd (xmalloc h v)) (fst (xmalloc h v)) = Some v"
  by (simp add: heap_simps)

lemma hfree_then_read: "hfree h a = Some h' \<Longrightarrow> hread h' a = None"
  by (auto simp: heap_simps split: if_splits)

lemma hfree_twice: "hfree h a = Some h' \<Longrightarrow> hfree h' a = None"
  by (auto simp: heap_simps split: if_splits)

end
