(* ===== verification/IftopTypes.thy ===== *)
theory IftopTypes
  imports CHeap
begin

text \<open>
  The data that iftop.h and options.h declare: the compile-time constants, the record kept for a
  connection (\<open>history_type\<close>) and the option table (\<open>options_t\<close>). A \<open>char*\<close> that may be
  NULL is \<open>string option\<close>; the C \<open>int\<close> and \<open>long\<close> fields are \<open>int\<close>; IPv4 addresses are
  \<open>s_addr\<close> words in network byte order; an IPv6 address is its sixteen bytes.
\<close>

definition HISTORY_LENGTH :: int where "HISTORY_LENGTH = 20"
definition RESOLUTION :: int where "RESOLUTION = 4"
definition PORT_LIST_LEN :: nat where "PORT_LIST_LEN = 10"
definition CHECK_AFTER_N_SECS :: int where "CHECK_AFTER_N_SECS = 120"
definition ROUTER_ADDR :: u32 where "ROUTER_ADDR = 524292268"

record history_type =
  total_sent :: u64
  total_recv :: u64
  create_time :: time_t
  last_update_time :: time_t
  approval :: int

datatype option_port_t =
  OPTION_PORTS_OFF | OPTION_PORTS_SRC | OPTION_PORTS_DEST | OPTION_PORTS_ON

datatype option_sort_t =
  OPTION_SORT_DIV1 | OPTION_SORT_DIV2 | OPTION_SORT_DIV3 | OPTION_SORT_SRC | OPTION_SORT_DEST

datatype option_linedisplay_t =
    OPTION_LINEDISPLAY_TWO_LINE
  | OPTION_LINEDISPLAY_ONE_LINE_BOTH
  | OPTION_LINEDISPLAY_ONE_LINE_RECV
  | OPTION_LINEDISPLAY_ONE_LINE_SENT

record options_t =
  interface :: "string option"
  dnsresolution :: int
  portresolution :: int
  filtercode :: "string option"
  showbars :: int
  showports :: option_port_t
  promiscuous :: int
  promiscuous_but_choosy :: int
  aggregate_src :: int
  aggregate_dest :: int
  paused :: int
  showhelp :: int
  timed_output :: int
  no_curses :: int
  num_lines :: int
  bandwidth_in_bytes :: int
  sort :: option_sort_t
  bar_interval :: int
  screenfilter :: "string option"
  freezeorder :: int
  screen_offset :: int
  linedisplay :: option_linedisplay_t
  show_totals :: int
  max_bandwidth :: int
  log_scale :: int
  netfilter :: int
  netfilternet :: u32
  netfiltermask :: u32
  netfilter6 :: int
  netfilter6net :: "byte list"
  netfilter6mask :: "byte list"
  link_local :: int
  config_file :: string
  config_file_specified :: int
  create_file :: int
  save_file :: int
  write_communication_info :: int
  write_interval_timeout :: int
  send_communication_info :: int
  create_send_thread :: int
  history_delete_interval :: int
  threshold :: int
  write_interval :: int
  duration :: int
  block_protocols :: "int list"
  send_interval :: int
  send_last :: time_t
  mqtt_addr :: string

text \<open>The global \<open>options_t options\<close> of options.c before \<open>options_set_defaults\<close> runs: static
  storage, so every field is zero or NULL.\<close>

definition options_initial :: options_t where
  "options_initial = \<lparr>interface = None, dnsresolution = 0, portresolution = 0, filtercode = None,
     showbars = 0, showports = OPTION_PORTS_OFF, promiscuous = 0, promiscuous_but_choosy = 0,
     aggregate_src = 0, aggregate_dest = 0, paused = 0, showhelp = 0, timed_output = 0, no_curses = 0,
     num_lines = 0, bandwidth_in_bytes = 0, sort = OPTION_SORT_DIV1, bar_interval = 0,
     screenfilter = None, freezeorder = 0, screen_offset = 0, linedisplay = OPTION_LINEDISPLAY_TWO_LINE,
     show_totals = 0, max_bandwidth = 0, log_scale = 0, netfilter = 0, netfilternet = 0,
     netfiltermask = 0, netfilter6 = 0, netfilter6net = replicate 16 0, netfilter6mask = replicate 16 0,
     link_local = 0, config_file = '''', config_file_specified = 0, create_file = 0, save_file = 0,
     write_communication_info = 0, write_interval_timeout = 0, send_communication_info = 0,
     create_send_thread = 0, history_delete_interval = 0, threshold = 0, write_interval = 0,
     duration = 0, block_protocols = replicate 32 0, send_interval = 0, send_last = 0,
     mqtt_addr = ''''\<rparr>"

end
