(* ===== verification/IftopApi.thy ===== *)
theory IftopApi
  imports IftopTypes
begin

text \<open>
  iftop_api.c: the port list test used by the packet filter, and the pacing of the periodic dump of
  connection information to a file. \<open>fopen\<close> is a parameter (does the open succeed); a stream is
  the list of strings written to it.
\<close>

text \<open>The loop \<open>for (i = 0; i < list_len; i++)\<close>; an index past the array faults.\<close>

fun port_scan :: "int list \<Rightarrow> nat \<Rightarrow> int \<Rightarrow> int option" where
  "port_scan list 0 port = Some 0"
| "port_scan [] (Suc n) port = None"
| "port_scan (p # list) (Suc n) port =
     (if p = port then Some 1 else if p = -1 then Some 0 else port_scan list n port)"

definition in_port_list :: "int list \<Rightarrow> nat \<Rightarrow> int \<Rightarrow> int option" where
  "in_port_list list list_len port = (if port = 0 then Some 0 else port_scan list list_len port)"

record communication_info_s =
  ci_src_addr :: string
  ci_dst_addr :: string
  ci_src_port :: u16
  ci_dst_port :: u16
  ci_tx_total :: string
  ci_rx_total :: string

text \<open>\<open>check_write\<close>: the new options, and the stream (empty, the file is opened with w+) if it
  was opened.\<close>

definition check_write :: "bool \<Rightarrow> time_t \<Rightarrow> time_t \<Rightarrow> options_t \<Rightarrow> options_t \<times> string list option" where
  "check_write fopen_ok cur_time write_last options =
     (if cur_time - write_last \<ge> write_interval options
      then (options\<lparr>write_interval_timeout := 1\<rparr>,
            if write_communication_info options \<noteq> 0 \<and> fopen_ok then Some [] else None)
      else (options, None))"

text \<open>Decimal digits of a natural number, as \<open>%d\<close> prints them.\<close>

fun show_nat_acc :: "nat \<Rightarrow> string \<Rightarrow> string" where
  "show_nat_acc n acc = (let acc' = char_of (48 + n mod 10) # acc
     in if n < 10 then acc' else show_nat_acc (n div 10) acc')"

definition show_nat :: "nat \<Rightarrow> string" where
  "show_nat n = show_nat_acc n []"

text \<open>\<open>snprintf\<close> into \<open>info_str[300]\<close> keeps at most 299 characters.\<close>

definition write_info :: "string list \<Rightarrow> communication_info_s \<Rightarrow> string list" where
  "write_info fp info = fp @ [take 299
     (ci_src_addr info @ '':'' @ show_nat (unat (ci_src_port info)) @ '' <==> '' @
      ci_dst_addr info @ '':'' @ show_nat (unat (ci_dst_port info)) @
      '' TX:'' @ ci_tx_total info @ '' RX:'' @ ci_rx_total info @ [CHR 0x0A])]"

definition close_write :: "time_t \<Rightarrow> time_t \<Rightarrow> options_t \<Rightarrow> time_t \<times> options_t" where
  "close_write now write_last options =
     (if write_interval_timeout options \<noteq> 0
      then (now, options\<lparr>write_interval_timeout := 0\<rparr>) else (write_last, options))"

subsection \<open>What the port list test computes\<close>

text \<open>The ports of a list: the entries before the terminating \<open>-1\<close>.\<close>

definition listed :: "int list \<Rightarrow> int list" where
  "listed list = takeWhile (\<lambda>p. p \<noteq> -1) list"

lemma port_scan_listed:
  "length list = n \<Longrightarrow> port \<noteq> -1 \<Longrightarrow>
   port_scan list n port = Some (if port \<in> set (listed list) then 1 else 0)"
  by (induction list n port rule: port_scan.induct) (auto simp: listed_def)

lemma in_port_list_listed:
  "length list = n \<Longrightarrow> 0 \<le> port \<Longrightarrow>
   in_port_list list n port = Some (if port \<noteq> 0 \<and> port \<in> set (listed list) then 1 else 0)"
  by (simp add: in_port_list_def port_scan_listed)

end
