(* ===== verification/Getopt.thy ===== *)
theory Getopt
  imports CString
begin

text \<open>
  \<open>getopt\<close> of the C library, as options.c calls it: the option string starts with \<open>+\<close>, so the
  scan stops at the first argument that is not an option, and \<open>opterr\<close> is 0. The arguments are those
  after the program name. The result is the pairs of option letter and argument that the successive
  calls return before -1 (the argument is empty for a flag, and the letter is \<open>?\<close> for an unknown option
  or a missing argument), and whether arguments are left over.
\<close>

text \<open>Whether a letter is an option, and whether it takes an argument.\<close>

definition opt_kind :: "string \<Rightarrow> char \<Rightarrow> bool option" where
  "opt_kind optstring c =
     (if c = CHR '':'' \<or> c = CHR '';'' then None
      else map_option (\<lambda>i. i + 1 < length optstring \<and> optstring ! (i + 1) = CHR '':'') (strchr optstring c))"

text \<open>One argument \<open>-xyz\<close> without its dash: flags up to the first letter that takes the rest of it, or
  the next argument.\<close>

fun opt_cluster :: "string \<Rightarrow> string \<Rightarrow> string list \<Rightarrow> (char \<times> string) list \<times> string list" where
  "opt_cluster optstring [] args = ([], args)"
| "opt_cluster optstring (c # cs) args =
     (case opt_kind optstring c of
        Some True \<Rightarrow>
          (if cs \<noteq> [] then ([(c, cs)], args)
           else (case args of [] \<Rightarrow> ([(CHR ''?'', [])], []) | a # args' \<Rightarrow> ([(c, a)], args')))
      | k \<Rightarrow> (case opt_cluster optstring cs args of
          (os, args') \<Rightarrow> ((if k = None then CHR ''?'' else c, []) # os, args')))"

lemma opt_cluster_args: "length (snd (opt_cluster optstring cs args)) \<le> length args"
  by (induction optstring cs args rule: opt_cluster.induct) (auto split: option.splits bool.splits list.splits prod.splits)

function getopt :: "string \<Rightarrow> string list \<Rightarrow> (char \<times> string) list \<times> bool" where
  "getopt optstring args =
     (case args of
        [] \<Rightarrow> ([], False)
      | a # args' \<Rightarrow>
          if a = ''--'' then ([], args' \<noteq> [])
          else if a = [] \<or> hd a \<noteq> CHR ''-'' \<or> a = ''-'' then ([], True)
          else (case opt_cluster optstring (tl a) args' of
              (os, args'') \<Rightarrow> (case getopt optstring args'' of (os', left) \<Rightarrow> (os @ os', left))))"
  by pat_completeness auto

termination
proof (relation "measure (\<lambda>(optstring, args). length args)")
  fix optstring args a args' os and args'' :: "string list"
  assume "args = a # args'" and c: "(os, args'') = opt_cluster optstring (tl a) args'"
  moreover have "length args'' \<le> length args'" using opt_cluster_args [of optstring "tl a" args'] by (simp flip: c)
  ultimately show "((optstring, args''), optstring, args) \<in> measure (\<lambda>(optstring, args). length args)" by simp
qed simp

declare getopt.simps [simp del]

subsection \<open>Options that are written out are read back\<close>

text \<open>An option and its argument, as separate arguments.\<close>

definition option_words :: "string \<Rightarrow> char \<times> string \<Rightarrow> string list" where
  "option_words optstring = (\<lambda>(c, a). if opt_kind optstring c = Some True then [[CHR ''-'', c], a] else [[CHR ''-'', c]])"

definition proper_option :: "string \<Rightarrow> char \<times> string \<Rightarrow> bool" where
  "proper_option optstring = (\<lambda>(c, a). c \<noteq> CHR ''-'' \<and>
     (case opt_kind optstring c of None \<Rightarrow> False | Some takes \<Rightarrow> takes \<or> a = []))"

lemma getopt_option:
  assumes "proper_option optstring x"
  shows "getopt optstring (option_words optstring x @ args) =
    (case getopt optstring args of (os, left) \<Rightarrow> (x # os, left))"
proof -
  obtain c a where x: "x = (c, a)" by (cases x)
  obtain takes where k: "c \<noteq> CHR ''-''" "opt_kind optstring c = Some takes" "takes \<or> a = []"
    using assms by (auto simp: proper_option_def x split: option.splits)
  show ?thesis
  proof (cases takes)
    case True
    with k show ?thesis by (subst getopt.simps) (simp add: x option_words_def)
  next
    case False
    with k show ?thesis by (subst getopt.simps) (auto simp: x option_words_def split: prod.split)
  qed
qed

lemma getopt_options:
  "list_all (proper_option optstring) xs \<Longrightarrow>
   getopt optstring (concat (map (option_words optstring) xs) @ args) =
     (case getopt optstring args of (os, left) \<Rightarrow> (xs @ os, left))"
  by (induction xs) (auto simp: getopt_option split: prod.splits)

lemma getopt_end: "getopt optstring [] = ([], False)"
  by (subst getopt.simps) simp

end
