(* ===== verification/Options.thy ===== *)
theory Options
  imports CfgFile IftopApi Getopt
begin

text \<open>
  options.c: the defaults, the command line and the transfer of configuration values into
  \<open>options_t\<close>. The options are the pairs of letter and argument that \<open>getopt\<close> returns.
  \<open>inet_aton\<close> and \<open>inet_pton6\<close> are parameters (\<open>None\<close>: not an address). \<open>lb\<close> is the
  width of \<open>long\<close>. The printed messages are not modelled.
\<close>

subsection \<open>Outcomes\<close>

text \<open>\<open>Fault\<close> is undefined behaviour (an array overrun, a NULL string), \<open>Exit\<close> a call of
  \<open>exit\<close>.\<close>

datatype 'a outcome = Fault | Exit int | Ok 'a

fun obind :: "'a outcome \<Rightarrow> ('a \<Rightarrow> 'b outcome) \<Rightarrow> 'b outcome" where
  "obind Fault f = Fault"
| "obind (Exit n) f = Exit n"
| "obind (Ok x) f = f x"

definition of_option :: "'a option \<Rightarrow> 'a outcome" where
  "of_option m = (case m of None \<Rightarrow> Fault | Some x \<Rightarrow> Ok x)"

lemma of_option_simps [simp]: "of_option None = Fault" "of_option (Some x) = Ok x"
  by (simp_all add: of_option_def)

lemma obind_Ok: "obind m f = Ok y \<longleftrightarrow> (\<exists>x. m = Ok x \<and> f x = Ok y)"
  by (cases m) auto

subsection \<open>Interfaces and defaults\<close>

definition bad_interface_names :: "string list" where
  "bad_interface_names = [''lo:'', ''lo'', ''stf'', ''gif'', ''dummy'', ''vmnet'', ''wmaster'']"

definition is_bad_interface_name :: "string \<Rightarrow> bool" where
  "is_bad_interface_name i = list_ex (\<lambda>p. strncmp_eq i p (length p)) bad_interface_names"

text \<open>\<open>up\<close> is the test of the interface flags (true if they cannot be read); the list is the result
  of \<open>if_nameindex\<close>.\<close>

fun first_interface_loop :: "(string \<Rightarrow> bool) \<Rightarrow> string list \<Rightarrow> string option" where
  "first_interface_loop up [] = None"
| "first_interface_loop up (i # is) =
     (if strcmp i ''lo'' \<noteq> 0 \<and> \<not> is_bad_interface_name i \<and> up i then Some i
      else first_interface_loop up is)"

definition get_first_interface :: "(string \<Rightarrow> bool) \<Rightarrow> string list option \<Rightarrow> string option" where
  "get_first_interface up nameindex =
     (case nameindex of None \<Rightarrow> None | Some is \<Rightarrow> first_interface_loop up is)"

definition sort_enumeration :: "(string \<times> option_sort_t) list" where
  "sort_enumeration = [(''2s'', OPTION_SORT_DIV1), (''10s'', OPTION_SORT_DIV2), (''40s'', OPTION_SORT_DIV3),
     (''source'', OPTION_SORT_SRC), (''destination'', OPTION_SORT_DEST)]"

definition linedisplay_enumeration :: "(string \<times> option_linedisplay_t) list" where
  "linedisplay_enumeration = [(''two-line'', OPTION_LINEDISPLAY_TWO_LINE),
     (''one-line-both'', OPTION_LINEDISPLAY_ONE_LINE_BOTH), (''one-line-sent'', OPTION_LINEDISPLAY_ONE_LINE_SENT),
     (''one-line-received'', OPTION_LINEDISPLAY_ONE_LINE_RECV)]"

definition showports_enumeration :: "(string \<times> option_port_t) list" where
  "showports_enumeration = [(''off'', OPTION_PORTS_OFF), (''source-only'', OPTION_PORTS_SRC),
     (''destination-only'', OPTION_PORTS_DEST), (''on'', OPTION_PORTS_ON)]"

definition options_set_defaults ::
  "(string \<Rightarrow> bool) \<Rightarrow> string list option \<Rightarrow> string option \<Rightarrow> time_t \<Rightarrow> options_t \<Rightarrow> options_t" where
  "options_set_defaults up nameindex home now opts = opts\<lparr>
     interface := (case get_first_interface up nameindex of None \<Rightarrow> Some ''eth0'' | i \<Rightarrow> i),
     filtercode := None,
     netfilter := 0, netfilternet := 0x0001000A, netfiltermask := 0x00FFFFFF,
     netfilter6 := 0, netfilter6net := [0xfe, 0x80] @ replicate 14 0, netfilter6mask := [0xff, 0xff] @ replicate 14 0,
     link_local := 0, dnsresolution := 1, portresolution := 1,
     promiscuous := 0, promiscuous_but_choosy := 0,
     showbars := 1, showports := OPTION_PORTS_ON, aggregate_src := 0, aggregate_dest := 0,
     paused := 0, showhelp := 0, bandwidth_in_bytes := 1, sort := OPTION_SORT_DIV2,
     screenfilter := None, freezeorder := 0, linedisplay := OPTION_LINEDISPLAY_TWO_LINE,
     screen_offset := 0, show_totals := 1, max_bandwidth := 0, log_scale := 0, bar_interval := 1,
     timed_output := 0, no_curses := 0, num_lines := 10,
     create_file := 0, save_file := 0, write_communication_info := 0, write_interval_timeout := 0,
     send_communication_info := 0, create_send_thread := 0,
     history_delete_interval := 0, threshold := 0, write_interval := 2, duration := 0,
     block_protocols := replicate 32 (-1), send_interval := 0, send_last := now,
     mqtt_addr := ''tcp://test.mosquitto.org:1883'',
     config_file := (case home of Some s \<Rightarrow> s @ ''/.iftoprc'' | None \<Rightarrow> ''iftoprc''),
     config_file_specified := 0\<rparr>"

subsection \<open>Arguments from a file\<close>

text \<open>The loop over the lines of options_args.txt, which gathers them in \<open>args[255]\<close>.\<close>

definition ARGS_SIZE :: nat where "ARGS_SIZE = 255"

lemma fgets_args_less: "fgets ARGS_SIZE s = Some (l, r) \<Longrightarrow> length r < length s"
  by (auto simp: fgets_def fgets_len_def ARGS_SIZE_def split: if_splits)

function gather_args :: "string \<Rightarrow> string \<Rightarrow> string option" where
  "gather_args rest args =
     (case fgets ARGS_SIZE rest of
        None \<Rightarrow> Some args
      | Some (l, rest') \<Rightarrow>
          (let buff = cstr l in
           if buff \<noteq> [] \<and> (hd buff = CHR ''#'' \<or> hd buff = newline) then gather_args rest' args
           else (let line = takeWhile (\<lambda>c. c \<noteq> newline) buff in
             if length args + length line + 2 \<le> ARGS_SIZE then gather_args rest' (args @ line @ '' '')
             else None)))"
  by pat_completeness auto
termination by (relation "measure (\<lambda>(rest, args). length rest)") (auto dest: fgets_args_less)

declare gather_args.simps [simp del]

text \<open>Each token is copied to 64 bytes and stored in \<open>fargv[32]\<close> from index 1 on. A file without
  argument lines leaves \<open>args\<close> uninitialised. The status 1 is the missing file.\<close>

definition read_args_from_file :: "string option \<Rightarrow> (int \<times> string list) option" where
  "read_args_from_file contents =
     (case contents of
        None \<Rightarrow> Some (1, [])
      | Some s \<Rightarrow> Option.bind (gather_args s []) (\<lambda>args.
          if args = [] then None
          else (let ts = tokens CHR '' '' args
                in if length ts \<le> 31 \<and> (\<forall>t \<in> set ts. length t < 64) then Some (0, ts) else None)))"

subsection \<open>The command line\<close>

record opt_state =
  opts :: options_t
  conf :: config
  ports :: "int list"

definition set_conf :: "string \<Rightarrow> string \<Rightarrow> opt_state \<Rightarrow> opt_state outcome" where
  "set_conf d v s = obind (of_option (config_set_string (conf s) d v)) (\<lambda>c. Ok (s\<lparr>conf := c\<rparr>))"

text \<open>The list that \<open>-P\<close> and \<open>-Z\<close> read with \<open>strtok\<close>; \<open>atoi\<close> of a NULL first token and a
  store past the array are faults.\<close>

definition number_list :: "nat \<Rightarrow> string \<Rightarrow> int list" where
  "number_list lb optarg = map (atoi lb) (tokens CHR '','' optarg)"

definition store_list :: "int list \<Rightarrow> int list \<Rightarrow> int list outcome" where
  "store_list ns arr =
     (if ns = [] \<or> length arr < length ns then Fault else Ok (ns @ drop (length ns) arr))"

definition set_broker :: "string \<Rightarrow> opt_state \<Rightarrow> opt_state outcome" where
  "set_broker optarg s =
     (if length optarg < 64 then Ok (s\<lparr>opts := (opts s)\<lparr>mqtt_addr := optarg\<rparr>\<rparr>) else Fault)"

text \<open>The switch on one option. The case \<open>M\<close> has no break and runs into the case \<open>B\<close>.\<close>

definition read_option :: "nat \<Rightarrow> char \<Rightarrow> string \<Rightarrow> opt_state \<Rightarrow> opt_state outcome" where
  "read_option lb opt optarg s =
     (if opt = CHR ''h'' then Exit 0
      else if opt = CHR ''i'' then set_conf ''interface'' optarg s
      else if opt = CHR ''f'' then set_conf ''filter-code'' optarg s
      else if opt = CHR ''p'' then set_conf ''promiscuous'' ''true'' s
      else if opt = CHR ''F'' then set_conf ''net-filter'' optarg s
      else if opt = CHR ''?'' \<or> opt = CHR '':'' then Exit 1
      else if opt = CHR ''P'' then
        obind (store_list (number_list lb optarg) (replicate PORT_LIST_LEN (-1))) (\<lambda>l. Ok (s\<lparr>ports := l\<rparr>))
      else if opt = CHR ''t'' then Ok (s\<lparr>opts := (opts s)\<lparr>history_delete_interval := atol lb optarg\<rparr>\<rparr>)
      else if opt = CHR ''T'' then Ok (s\<lparr>opts := (opts s)\<lparr>threshold := atol lb optarg\<rparr>\<rparr>)
      else if opt = CHR ''d'' then Ok (s\<lparr>opts := (opts s)\<lparr>duration := atoi lb optarg\<rparr>\<rparr>)
      else if opt = CHR ''Z'' then
        obind (store_list (number_list lb optarg) (block_protocols (opts s)))
          (\<lambda>l. Ok (s\<lparr>opts := (opts s)\<lparr>block_protocols := l\<rparr>\<rparr>))
      else if opt = CHR ''M'' then
        set_broker optarg (s\<lparr>opts := (opts s)\<lparr>send_interval := to_int (atoi lb optarg * 60)\<rparr>\<rparr>)
      else if opt = CHR ''B'' then set_broker optarg s
      else Ok s)"

fun read_opts :: "nat \<Rightarrow> (char \<times> string) list \<Rightarrow> opt_state \<Rightarrow> opt_state outcome" where
  "read_opts lb [] s = Ok s"
| "read_opts lb ((c, a) # os) s = obind (read_option lb c a s) (read_opts lb os)"

definition optstr :: string where "optstr = ''+i:f:F:P:M:d:Z:t:T:B:hp''"

text \<open>The arguments of the file, if there is one, replace those of the command line (\<open>argv\<close> with
  the program name in front); the boolean of
  \<open>getopt\<close> says whether arguments are left over. The leading \<open>+\<close> of the option string is the
  mode of \<open>getopt\<close> that its definition models.\<close>

definition options_read_args :: "nat \<Rightarrow> string option \<Rightarrow> string list \<Rightarrow> opt_state \<Rightarrow> opt_state outcome" where
  "options_read_args lb args_file argv s =
     obind (set_conf ''dns-resolution'' ''false'' s) (\<lambda>s.
     obind (set_conf ''port-resolution'' ''false'' s) (\<lambda>s.
     obind (set_conf ''no-curses'' ''true'' s) (\<lambda>s.
     obind (of_option (read_args_from_file args_file)) (\<lambda>(st, fargv).
       case getopt (tl optstr) (if st = 0 then fargv else tl argv) of (os, leftover) \<Rightarrow>
         obind (read_opts lb os s) (\<lambda>s. if leftover then Exit 1 else Ok s)))))"

text \<open>The options in effect.\<close>

definition command_options :: "string option \<Rightarrow> string list \<Rightarrow> (char \<times> string) list" where
  "command_options args_file argv =
     fst (getopt (tl optstr) (case read_args_from_file args_file of Some (st, fargv) \<Rightarrow> if st = 0 then fargv else tl argv
                              | None \<Rightarrow> []))"

text \<open>The text of \<open>usage\<close>, line by line; the version is a macro of the build.\<close>

definition usage :: "string \<Rightarrow> string list" where
  "usage version = [
     ''iftop: display bandwidth usage on an interface by host'',
     '''',
     ''Synopsis: iftop -h | [-p] [-t seconds] [-T bytes]'',
     ''                     [-d seconds] [-M mins]'',
     '''',
     ''   iftop:'',
     ''   -----------------------------------------------------------------------'',
     ''   -h                  display this message'',
     ''   -p                  run in promiscuous mode (show traffic between other'',
     ''                       hosts on the same network segment)'',
     ''   -i interface        listen on named interface'',
     ''   -f filter code      use filter code to select packets to count'',
     ''                       (default: none, but only IP packets are counted)'',
     ''   -F net/mask         show traffic flows in/out of IPv4 network'',
     '''',
     ''   dotqoo:'',
     ''   -----------------------------------------------------------------------'',
     ''   -P port,port...     port filter'',
     ''   -M mins             time interval of send connection info over MQTT'',
     ''   -d seconds          drop connection when no pkt send/recv within -d sec'',
     ''                       after the connection has been created'',
     ''   -Z ip_p,ip_p...     block the protocol types which follow by '' @ [CHR 0x27] @ ''-z'' @ [CHR 0x27],
     ''                       protocol type number can find at'',
     ''                       wikipedia.org: '' @ [CHR 0x27] @ ''List_of_IP_protocol_numbers'' @ [CHR 0x27],
     '''',
     ''   -t seconds          clear connection-info interval'',
     ''   -T threshold        drop the connection when its transmission flow'',
     ''                       is less than threshold(bytes)'',
     '''',
     ''iftop, modified by dotqoo from version: '' @ version,
     ''copyright (c) 2002 Paul Warren <pdw@ex-parrot.com> and contributors'']"

text \<open>An option is documented where a line starts with it. Except for \<open>B\<close>, the address of the broker,
  which is missing, these are the letters of the option string.\<close>

lemma usage_documents:
  "map (\<lambda>l. l ! 4) (filter (\<lambda>l. take 4 l = ''   -'' \<and> l ! 4 \<noteq> CHR ''-'') (usage version)) = ''hpifFPMdZtT''"
  "set (tl optstr) = set ''hpifFPMdZtT'' \<union> set ''B:''"
  by (simp add: usage_def) (auto simp: optstr_def)

subsection \<open>Transfer of the configuration\<close>

text \<open>The accessors take the current value and give the new one.\<close>

definition options_config_get_string :: "config \<Rightarrow> string \<Rightarrow> string option \<Rightarrow> string option" where
  "options_config_get_string c name value =
     (case config_get_string c name of Some s \<Rightarrow> Some s | None \<Rightarrow> value)"

definition options_config_get_bool :: "config \<Rightarrow> string \<Rightarrow> int \<Rightarrow> int" where
  "options_config_get_bool c name value =
     (if config_get_string c name \<noteq> None then config_get_bool c name else value)"

definition options_config_get_int :: "nat \<Rightarrow> config \<Rightarrow> string \<Rightarrow> int \<Rightarrow> int" where
  "options_config_get_int lb c name value =
     (case snd (config_get_int lb c name) of Some v \<Rightarrow> v | None \<Rightarrow> value)"

definition options_config_get_enum :: "config \<Rightarrow> string \<Rightarrow> (string \<times> 'e) list \<Rightarrow> 'e \<Rightarrow> 'e" where
  "options_config_get_enum c name enumeration value =
     (case config_get_enum c name enumeration of Some v \<Rightarrow> v | None \<Rightarrow> value)"

definition options_config_get_promiscuous :: "config \<Rightarrow> options_t \<Rightarrow> options_t" where
  "options_config_get_promiscuous c o1 =
     (if config_get_string c ''promiscuous'' \<noteq> None
      then (let o2 = o1\<lparr>promiscuous := config_get_bool c ''promiscuous''\<rparr>
            in if promiscuous o2 \<noteq> 0 then o2\<lparr>promiscuous_but_choosy := 0\<rparr> else o2)
      else o1)"

text \<open>\<open>options_config_get_bw_rate\<close>: the multiplier of the unit, \<open>None\<close> for an invalid one. The
  value is read with \<open>sscanf\<close>, whose failure (no digits) leaves \<open>value\<close> uninitialised: the
  parameter \<open>junk\<close>. The product is a \<open>long long\<close>.\<close>

definition unit_mult :: "string \<Rightarrow> int option" where
  "unit_mult units =
     (if 1 < length units then None
      else if units = [] then Some 1
      else if hd units \<in> set ''kK'' then Some 1024
      else if hd units \<in> set ''mM'' then Some (1024 * 1024)
      else if hd units \<in> set ''gG'' then Some (1024 * 1024 * 1024)
      else if hd units \<in> set ''bB'' then Some 1
      else None)"

definition options_config_get_bw_rate :: "int \<Rightarrow> config \<Rightarrow> string \<Rightarrow> options_t \<Rightarrow> config \<times> options_t" where
  "options_config_get_bw_rate junk c directive o1 =
     (case config_get_string c directive of
        None \<Rightarrow> (c, o1)
      | Some s \<Rightarrow>
          (let n = strspn s ''0123456789'' in
           case unit_mult (drop n s) of
             None \<Rightarrow> (c, o1)
           | Some mult \<Rightarrow>
               (let value = (if n = 0 then junk else clamp_long 64 (digits_val (take n s)))
                in (assign_item c directive (take n s),
                    o1\<lparr>max_bandwidth := sint (word_of_int (value * mult) :: 64 word)\<rparr>))))"

text \<open>The mask of a prefix length, in network byte order.\<close>

definition prefix_mask :: "nat \<Rightarrow> u32" where
  "prefix_mask n = (if n = 32 then htonl 0xffffffff else htonl (NOT (drop_bit n 0xffffffff)))"

text \<open>\<open>options_config_get_net_filter\<close>. The slash in the stored value is overwritten. A negative
  length, from a number that wraps, is an undefined shift.\<close>

definition options_config_get_net_filter ::
  "nat \<Rightarrow> (string \<Rightarrow> u32 option) \<Rightarrow> config \<Rightarrow> options_t \<Rightarrow> (int \<times> config \<times> options_t) option" where
  "options_config_get_net_filter lb inet_aton c o0 =
     (case config_get_string c ''net-filter'' of
        None \<Rightarrow> Some (0, c, o0)
      | Some s \<Rightarrow>
          (let o1 = o0\<lparr>netfilter := 0\<rparr> in
           case strchr s CHR ''/'' of
             None \<Rightarrow> Some (0, c, o1)
           | Some i \<Rightarrow>
               (let mask = drop (Suc i) s; s1 = take i s; c1 = assign_item c ''net-filter'' s1 in
                case inet_aton s1 of
                  None \<Rightarrow> Some (0, c1, o1)
                | Some net \<Rightarrow>
                    (let o2 = o1\<lparr>netfilternet := net\<rparr>;
                         finish = (\<lambda>o3. Some (1 :: int, c1, o3\<lparr>netfilternet := netfilternet o3 AND netfiltermask o3\<rparr>))
                     in if strspn mask ''0123456789'' = length mask then
                          (let n = atoi lb mask in
                           if n > 32 then finish (o2\<lparr>netfilter := 1\<rparr>)
                           else if n < 0 then None
                           else finish (o2\<lparr>netfiltermask := prefix_mask (nat n), netfilter := 1\<rparr>))
                        else (case inet_aton mask of
                                Some m \<Rightarrow> finish (o2\<lparr>netfiltermask := m, netfilter := 1\<rparr>)
                              | None \<Rightarrow> Some (0, c1, o2))))))"

text \<open>The bytes of an IPv6 prefix written over the old mask: only the bytes the prefix covers are
  assigned.\<close>

definition prefix6_mask :: "nat \<Rightarrow> byte list \<Rightarrow> byte list" where
  "prefix6_mask n old =
     (let bl = n div 8; rm = n mod 8; part = push_bit (8 - rm) (0xff :: byte);
          m = replicate bl 0xff @ drop bl old
      in if rm > 0 then m[bl := part] else m)"

definition options_config_get_net_filter6 ::
  "nat \<Rightarrow> (string \<Rightarrow> byte list option) \<Rightarrow> config \<Rightarrow> options_t \<Rightarrow> int \<times> config \<times> options_t" where
  "options_config_get_net_filter6 lb inet_pton6 c o0 =
     (case config_get_string c ''net-filter6'' of
        None \<Rightarrow> (0, c, o0)
      | Some s \<Rightarrow>
          (let o1 = o0\<lparr>netfilter6 := 0\<rparr> in
           case strchr s CHR ''/'' of
             None \<Rightarrow> (0, c, o1)
           | Some i \<Rightarrow>
               (let mask = drop (Suc i) s; s1 = take i s; c1 = assign_item c ''net-filter6'' s1 in
                case inet_pton6 s1 of
                  None \<Rightarrow> (0, c1, o1)
                | Some net \<Rightarrow>
                    (let o2 = o1\<lparr>netfilter6net := net\<rparr>;
                         finish = (\<lambda>o3. (1 :: int, c1,
                           o3\<lparr>netfilter6net := map2 (AND) (netfilter6net o3) (netfilter6mask o3)\<rparr>))
                     in if strspn mask ''0123456789'' = length mask then
                          (let n = uint (word_of_int (atoi lb mask) :: u32) in
                           if n > 128 \<or> n < 1 then finish o2
                           else finish (o2\<lparr>netfilter6mask := prefix6_mask (nat n) (netfilter6mask o2),
                                           netfilter6 := 1\<rparr>))
                        else (case inet_pton6 mask of
                                Some m \<Rightarrow> finish (o2\<lparr>netfilter6mask := m, netfilter6 := 1\<rparr>)
                              | None \<Rightarrow> (0, c1, o2))))))"

text \<open>\<open>options_make\<close>: the transfers in order, up to \<open>log-scale\<close>; those between
  \<open>max-bandwidth\<close> and the net filters; all of them.\<close>

definition take_display :: "config \<Rightarrow> options_t \<Rightarrow> options_t" where
  "take_display c o1 =
     (let o2 = o1\<lparr>interface := options_config_get_string c ''interface'' (interface o1),
            dnsresolution := options_config_get_bool c ''dns-resolution'' (dnsresolution o1),
            portresolution := options_config_get_bool c ''port-resolution'' (portresolution o1),
            filtercode := options_config_get_string c ''filter-code'' (filtercode o1),
            showbars := options_config_get_bool c ''show-bars'' (showbars o1)\<rparr>;
          o3 = options_config_get_promiscuous c o2
      in o3\<lparr>aggregate_src := options_config_get_bool c ''hide-source'' (aggregate_src o3),
            aggregate_dest := options_config_get_bool c ''hide-destination'' (aggregate_dest o3),
            bandwidth_in_bytes := options_config_get_bool c ''use-bytes'' (bandwidth_in_bytes o3),
            sort := options_config_get_enum c ''sort'' sort_enumeration (sort o3),
            linedisplay := options_config_get_enum c ''line-display'' linedisplay_enumeration (linedisplay o3),
            show_totals := options_config_get_bool c ''show-totals'' (show_totals o3),
            log_scale := options_config_get_bool c ''log-scale'' (log_scale o3)\<rparr>)"

definition take_output :: "nat \<Rightarrow> config \<Rightarrow> options_t \<Rightarrow> options_t" where
  "take_output lb c o5 =
     o5\<lparr>showports := options_config_get_enum c ''port-display'' showports_enumeration (showports o5),
        screenfilter := options_config_get_string c ''screen-filter'' (screenfilter o5),
        link_local := options_config_get_bool c ''link-local'' (link_local o5),
        timed_output := options_config_get_int lb c ''timed-output'' (timed_output o5),
        no_curses := options_config_get_bool c ''no-curses'' (no_curses o5),
        num_lines := options_config_get_int lb c ''num-lines'' (num_lines o5)\<rparr>"

definition options_make ::
  "nat \<Rightarrow> int \<Rightarrow> (string \<Rightarrow> u32 option) \<Rightarrow> (string \<Rightarrow> byte list option) \<Rightarrow> opt_state \<Rightarrow> opt_state outcome" where
  "options_make lb junk inet_aton inet_pton6 s =
     (case options_config_get_bw_rate junk (conf s) ''max-bandwidth'' (take_display (conf s) (opts s)) of
        (c1, o5) \<Rightarrow>
          (case options_config_get_net_filter lb inet_aton c1 (take_output lb c1 o5) of
             None \<Rightarrow> Fault
           | Some (_, c2, o7) \<Rightarrow>
               (case options_config_get_net_filter6 lb inet_pton6 c2 o7 of
                  (_, c3, o8) \<Rightarrow> Ok (s\<lparr>conf := c3, opts := o8\<rparr>))))"

subsection \<open>The command line keeps the configuration table and the arrays well-formed\<close>

lemma set_string_spec:
  assumes "smap_ok c"
  obtains c' where "config_set_string c d v = Some c'" "smap_ok c'"
    "config_get_string c' = (config_get_string c)(d \<mapsto> v)"
proof -
  obtain c' where "smap.dset c d v = Some c'" "smap_ok c'" "smap_lookup c' = (smap_lookup c)(d \<mapsto> v)"
    using smap.set_spec [OF assms] by blast
  then show thesis using that [of c'] by (auto simp: smap.dset_def config_set_string_def config_get_string_def fun_eq_iff)
qed

lemma set_conf_spec:
  assumes "smap_ok (conf s)"
  obtains c where "set_conf d v s = Ok (s\<lparr>conf := c\<rparr>)" "smap_ok c"
    "config_get_string c = (config_get_string (conf s))(d \<mapsto> v)"
proof -
  obtain c where "config_set_string (conf s) d v = Some c" "smap_ok c"
    "config_get_string c = (config_get_string (conf s))(d \<mapsto> v)"
    using set_string_spec [OF assms] by blast
  then show thesis using that [of c] by (simp add: set_conf_def)
qed

lemma set_conf_Ok:
  assumes "set_conf d v s = Ok s'" and "smap_ok (conf s)"
  shows "smap_ok (conf s')" "config_get_string (conf s') = (config_get_string (conf s))(d \<mapsto> v)"
    "opts s' = opts s" "ports s' = ports s"
proof -
  obtain c where c: "set_conf d v s = Ok (s\<lparr>conf := c\<rparr>)" "smap_ok c"
    "config_get_string c = (config_get_string (conf s))(d \<mapsto> v)"
    using set_conf_spec [OF assms(2)] by blast
  then have "s' = s\<lparr>conf := c\<rparr>" using assms(1) by simp
  with c show "smap_ok (conf s')" "config_get_string (conf s') = (config_get_string (conf s))(d \<mapsto> v)"
    "opts s' = opts s" "ports s' = ports s" by simp_all
qed

lemma store_list_Ok:
  "store_list ns arr = Ok l \<longleftrightarrow> ns \<noteq> [] \<and> length ns \<le> length arr \<and> l = ns @ drop (length ns) arr"
  by (auto simp: store_list_def)

lemma set_broker_Ok:
  "set_broker a s = Ok s' \<longleftrightarrow> length a < 64 \<and> s' = s\<lparr>opts := (opts s)\<lparr>mqtt_addr := a\<rparr>\<rparr>"
  by (auto simp: set_broker_def)

text \<open>The directives that options of the command line can set.\<close>

definition command_directives :: "string set" where
  "command_directives = {''interface'', ''filter-code'', ''promiscuous'', ''net-filter''}"

definition arrays_ok :: "opt_state \<Rightarrow> bool" where
  "arrays_ok s \<longleftrightarrow> length (block_protocols (opts s)) = 32 \<and> length (ports s) = PORT_LIST_LEN"

lemma read_option_cases:
  assumes "read_option lb c a s = Ok s'"
  obtains (directive) d v where "d \<in> command_directives" "set_conf d v s = Ok s'"
  | (ports) l where "s' = s\<lparr>ports := l\<rparr>" "length l = PORT_LIST_LEN"
  | (blocked) l where "c = CHR ''Z''" "s' = s\<lparr>opts := (opts s)\<lparr>block_protocols := l\<rparr>\<rparr>"
      "store_list (number_list lb a) (block_protocols (opts s)) = Ok l"
  | (other) os where "s' = s\<lparr>opts := os\<rparr>" "block_protocols os = block_protocols (opts s)"
proof -
  note R = assms [unfolded read_option_def]
  consider "c = CHR ''i''" | "c = CHR ''f''" | "c = CHR ''p''" | "c = CHR ''F''" | "c = CHR ''P''" | "c = CHR ''t''"
    | "c = CHR ''T''" | "c = CHR ''d''" | "c = CHR ''Z''" | "c = CHR ''M''" | "c = CHR ''B''"
    | "c \<notin> set ''ifpFPtTdZMB''" by auto
  then show thesis
  proof cases
    case 1 with R show ?thesis by (intro directive) (simp_all add: command_directives_def)
  next
    case 2 with R show ?thesis by (intro directive [of "''filter-code''"]) (simp_all add: command_directives_def)
  next
    case 3 with R show ?thesis by (intro directive [of "''promiscuous''"]) (simp_all add: command_directives_def)
  next
    case 4 with R show ?thesis by (intro directive [of "''net-filter''"]) (simp_all add: command_directives_def)
  next
    case 5 with R show ?thesis by (auto simp: obind_Ok store_list_Ok intro: ports)
  next
    case 6 with R show ?thesis by (intro other [of "opts s'"]) auto
  next
    case 7 with R show ?thesis by (intro other [of "opts s'"]) auto
  next
    case 8 with R show ?thesis by (intro other [of "opts s'"]) auto
  next
    case 9 with R show ?thesis by (auto simp: obind_Ok intro: blocked)
  next
    case 10 with R show ?thesis by (intro other [of "opts s'"]) (simp_all add: set_broker_Ok)
  next
    case 11 with R show ?thesis by (intro other [of "opts s'"]) (simp_all add: set_broker_Ok)
  next
    case 12 with R show ?thesis by (intro other [of "opts s"]) (simp_all split: if_splits)
  qed
qed

lemma read_option_conf:
  assumes "read_option lb c a s = Ok s'" and "smap_ok (conf s)"
  shows "smap_ok (conf s') \<and> (\<forall>k. k \<notin> command_directives \<longrightarrow>
     config_get_string (conf s') k = config_get_string (conf s) k)"
  using assms(1)
proof (cases rule: read_option_cases)
  case (directive d v)
  from set_conf_Ok [OF directive(2) assms(2)] directive(1) show ?thesis by auto
qed (use assms(2) in simp_all)

lemma read_option_arrays:
  assumes "read_option lb c a s = Ok s'" and "arrays_ok s" and "smap_ok (conf s)"
  shows "arrays_ok s'"
  using assms(1)
proof (cases rule: read_option_cases)
  case (directive d v)
  from set_conf_Ok(3,4) [OF directive(2) assms(3)] assms(2) show ?thesis by (simp add: arrays_ok_def)
qed (use assms(2) in \<open>auto simp: arrays_ok_def store_list_Ok\<close>)

text \<open>The block list keeps its terminator while fewer than 32 protocols are given.\<close>

lemma read_option_last:
  assumes "read_option lb c a s = Ok s'" and "arrays_ok s" and "smap_ok (conf s)"
    and "block_protocols (opts s) ! 31 = -1" and "c = CHR ''Z'' \<Longrightarrow> length (number_list lb a) < 32"
  shows "block_protocols (opts s') ! 31 = -1"
  using assms(1)
proof (cases rule: read_option_cases)
  case (directive d v)
  from set_conf_Ok(3) [OF directive(2) assms(3)] assms(4) show ?thesis by simp
next
  case (blocked l)
  with assms(2,4,5) show ?thesis by (auto simp: arrays_ok_def store_list_Ok nth_append)
qed (use assms(4) in simp_all)

lemma read_opts_Ok:
  "read_opts lb os s = Ok s' \<Longrightarrow> smap_ok (conf s) \<Longrightarrow> arrays_ok s \<Longrightarrow>
   smap_ok (conf s') \<and> arrays_ok s' \<and>
   (\<forall>k. k \<notin> command_directives \<longrightarrow> config_get_string (conf s') k = config_get_string (conf s) k) \<and>
   (block_protocols (opts s) ! 31 = -1 \<longrightarrow>
    (\<forall>(c, a) \<in> set os. c = CHR ''Z'' \<longrightarrow> length (number_list lb a) < 32) \<longrightarrow>
    block_protocols (opts s') ! 31 = -1)"
proof (induction lb os s rule: read_opts.induct)
  case (1 lb s)
  then show ?case by simp
next
  case (2 lb c a os s)
  obtain s1 where s1: "read_option lb c a s = Ok s1" "read_opts lb os s1 = Ok s'"
    using 2(2) by (auto simp: obind_Ok)
  note C = read_option_conf [OF s1(1) 2(3)] and A = read_option_arrays [OF s1(1) 2(4,3)]
    and L = read_option_last [OF s1(1) 2(4,3)]
  from 2(1) [OF s1(2) _ A] C L show ?case by auto
qed

subsection \<open>Numbers and comma-separated lists\<close>

lemma digit_char:
  assumes "d < 10"
  shows "is_digit (char_of (48 + d))" "digit_val (char_of (48 + d)) = int d"
proof -
  have "list_all (\<lambda>d. is_digit (char_of (48 + d))) [0..<10]" by code_simp
  then show "is_digit (char_of (48 + d))" using assms by (simp add: list_all_iff)
  show "digit_val (char_of (48 + d)) = int d" using assms by (simp add: digit_val_def)
qed

lemma show_nat_acc_append: "show_nat_acc n acc = show_nat_acc n [] @ acc"
proof (induction n arbitrary: acc rule: less_induct)
  case (less n)
  show ?case
  proof (cases "n < 10")
    case True
    then show ?thesis by simp
  next
    case False
    then have l: "n div 10 < n" by simp
    from less.IH [OF l, of "char_of (48 + n mod 10) # acc"] less.IH [OF l, of "[char_of (48 + n mod 10)]"] False
    show ?thesis unfolding show_nat_acc.simps [of n] Let_def by simp
  qed
qed

lemma show_nat_unfold:
  "show_nat n = (if n < 10 then [char_of (48 + n)] else show_nat (n div 10) @ [char_of (48 + n mod 10)])"
proof (cases "n < 10")
  case False
  then show ?thesis
    unfolding show_nat_def show_nat_acc.simps [of n] Let_def
    using show_nat_acc_append [of "n div 10" "[char_of (48 + n mod 10)]"] by simp
qed (simp add: show_nat_def)

lemma show_nat_spec: "show_nat n \<noteq> [] \<and> (\<forall>c \<in> set (show_nat n). is_digit c) \<and> digits_val (show_nat n) = int n"
proof (induction n rule: less_induct)
  case (less n)
  show ?case
  proof (cases "n < 10")
    case True
    with digit_char [of n] show ?thesis by (subst (1 2 3) show_nat_unfold) (simp add: digits_val_def)
  next
    case False
    then have l: "n div 10 < n" by simp
    have "n mod 10 < 10" by simp
    note D = digit_char [OF this]
    have v: "10 * int (n div 10) + int (n mod 10) = int n" by presburger
    have u: "show_nat n = show_nat (n div 10) @ [char_of (48 + n mod 10)]"
      using False show_nat_unfold [of n] by simp
    show ?thesis using less.IH [OF l] D v unfolding u by (auto simp: digits_val_def)
  qed
qed

lemma atoi_digits:
  assumes "ds \<noteq> []" and "\<forall>c \<in> set ds. is_digit c" and "digits_val ds < 2 ^ 31" and "0 \<le> digits_val ds" and "32 \<le> lb"
  shows "atoi lb ds = digits_val ds"
proof -
  have h: "is_digit (hd ds)" using assms(1,2) by simp
  note H = digit_not_space [OF h]
  have sp: "takeWhile is_space ds = []" using H assms(1) by (cases ds) auto
  have tw: "takeWhile is_digit ds = ds" using assms(2) by (simp add: takeWhile_eq_all_conv)
  have "(2::int) ^ 31 \<le> 2 ^ (lb - 1)" using assms(5) by (intro power_increasing) auto
  then have "clamp_long lb (digits_val ds) = digits_val ds" using assms(3,4) unfolding clamp_long_def by linarith
  then have "atol lb ds = digits_val ds"
    using assms(1) H by (simp add: atol_def strtol_def sp tw Let_def)
  then show ?thesis using assms(3,4) by (simp add: atoi_def to_int_small)
qed

lemma atoi_show_nat: "n < 2 ^ 31 \<Longrightarrow> 32 \<le> lb \<Longrightarrow> atoi lb (show_nat n) = int n"
  using atoi_digits [of "show_nat n" lb] show_nat_spec [of n] by simp

text \<open>Numbers separated by commas, as a user writes them.\<close>

fun comma_list :: "nat list \<Rightarrow> string" where
  "comma_list [] = []"
| "comma_list [n] = show_nat n"
| "comma_list (n # m # ns) = show_nat n @ '','' @ comma_list (m # ns)"

lemma comma_list_join: "comma_list ns = join_with CHR '','' (map show_nat ns)"
  by (induction ns rule: comma_list.induct) simp_all

lemma tokens_comma_list: "tokens CHR '','' (comma_list ns) = List.map show_nat ns"
proof -
  have "show_nat n \<noteq> [] \<and> CHR '','' \<notin> set (show_nat n)" for n
    using show_nat_spec [of n] digit_not_space by blast
  then show ?thesis unfolding comma_list_join by (intro tokens_join) auto
qed

lemma number_comma_list:
  assumes "\<forall>n \<in> set ns. n < 2 ^ 31" and "32 \<le> lb"
  shows "number_list lb (comma_list ns) = map int ns"
  using assms atoi_show_nat [OF _ assms(2)] by (auto simp: number_list_def tokens_comma_list)

subsection \<open>The arguments file\<close>

text \<open>A file of comments and of options, one per line, as a user writes it.\<close>

type_synonym args_line = "string + char \<times> string"

definition option_line :: "char \<times> string \<Rightarrow> string" where
  "option_line x = join_with CHR '' '' (option_words (tl optstr) x)"

definition args_text :: "args_line list \<Rightarrow> string" where
  "args_text ls = concat (map (\<lambda>l. (case l of Inl c \<Rightarrow> CHR ''#'' # c | Inr x \<Rightarrow> option_line x) @ [newline]) ls)"

definition line_options :: "args_line list \<Rightarrow> (char \<times> string) list" where
  "line_options ls = concat (map (\<lambda>l. case l of Inl c \<Rightarrow> [] | Inr x \<Rightarrow> [x]) ls)"

definition word_ok :: "string \<Rightarrow> bool" where
  "word_ok w \<longleftrightarrow> w \<noteq> [] \<and> length w < 64 \<and> CHR '' '' \<notin> set w \<and> newline \<notin> set w \<and> CHR 0x00 \<notin> set w"

definition args_line_ok :: "args_line \<Rightarrow> bool" where
  "args_line_ok l = (case l of
      Inl c \<Rightarrow> newline \<notin> set c \<and> length c + 2 < ARGS_SIZE
    | Inr x \<Rightarrow> proper_option (tl optstr) x \<and> list_all word_ok (option_words (tl optstr) x))"

text \<open>What the options fill of the array \<open>args\<close>.\<close>

definition args_chars :: "(char \<times> string) list \<Rightarrow> string" where
  "args_chars xs = concat (map (\<lambda>w. w @ '' '') (concat (map (option_words (tl optstr)) xs)))"

lemma args_simps [simp]:
  "args_text [] = []" "line_options [] = []" "args_chars [] = []"
  "args_text (Inl c # ls) = (CHR ''#'' # c) @ newline # args_text ls"
  "args_text (Inr x # ls) = option_line x @ newline # args_text ls"
  "line_options (Inl c # ls) = line_options ls" "line_options (Inr x # ls) = x # line_options ls"
  by (simp_all add: args_text_def line_options_def args_chars_def)

lemma args_chars_Cons: "args_chars (x # xs) = option_line x @ '' '' @ args_chars xs"
  by (cases x) (simp add: args_chars_def option_line_def option_words_def)

lemma option_line_chars:
  assumes "args_line_ok (Inr x)"
  shows "hd (option_line x) = CHR ''-''" "option_line x \<noteq> []" "newline \<notin> set (option_line x)"
    "CHR 0x00 \<notin> set (option_line x)"
  using assms by (cases x; auto simp: args_line_ok_def option_line_def option_words_def word_ok_def newline_def)+

lemma comment_gathered:
  assumes "newline \<notin> set c" and "length c + 2 < ARGS_SIZE"
  shows "gather_args ((CHR ''#'' # c) @ newline # r) args = gather_args r args"
proof -
  have "newline \<notin> set (CHR ''#'' # c)" "length (CHR ''#'' # c) + 1 < ARGS_SIZE"
    using assms by (auto simp: newline_def)
  note F = fgets_line [OF this, of r]
  show ?thesis by (subst gather_args.simps) (simp add: F [simplified] cstr_def)
qed

lemma dash_not_newline: "CHR ''-'' \<noteq> newline" by (simp add: newline_def)

lemma option_gathered:
  assumes "args_line_ok (Inr x)" and "length args + length (option_line x) + 2 \<le> ARGS_SIZE"
  shows "gather_args (option_line x @ newline # r) args = gather_args r (args @ option_line x @ '' '')"
proof -
  let ?l = "option_line x"
  note C = option_line_chars [OF assms(1)]
  have F: "fgets ARGS_SIZE (?l @ newline # r) = Some (?l @ [newline], r)"
    using assms(2) by (intro fgets_line C(3)) simp
  have "CHR 0x00 \<notin> set (?l @ [newline])" using C(4) by (simp add: newline_def)
  then have b: "cstr (?l @ [newline]) = ?l @ [newline]" unfolding cstr_def by (subst takeWhile_eq_all_conv) auto
  have t: "takeWhile (\<lambda>c. c \<noteq> newline) (?l @ [newline]) = ?l" using C(3) by (intro takeWhile_stop) auto
  have h: "hd (?l @ [newline]) = CHR ''-''" using C(1,2) by simp
  show ?thesis
    by (subst gather_args.simps) (use assms(2) h in \<open>simp add: F b t Let_def dash_not_newline\<close>)
qed

lemma args_gathered:
  "list_all args_line_ok ls \<Longrightarrow> length args + length (args_chars (line_options ls)) < ARGS_SIZE \<Longrightarrow>
   gather_args (args_text ls) args = Some (args @ args_chars (line_options ls))"
proof (induction ls arbitrary: args)
  case Nil
  show ?case by (subst gather_args.simps) (simp add: fgets_def ARGS_SIZE_def)
next
  case (Cons l ls)
  show ?case
  proof (cases l)
    case (Inl c)
    with Cons show ?thesis by (simp add: comment_gathered [simplified] args_line_ok_def)
  next
    case (Inr x)
    with Cons.prems have "length args + length (option_line x) + 2 \<le> ARGS_SIZE" by (simp add: args_chars_Cons)
    with Inr Cons show ?thesis by (simp add: option_gathered args_chars_Cons)
  qed
qed

lemma tokens_terminated: "list_all word_ok ws \<Longrightarrow> tokens CHR '' '' (concat (map (\<lambda>w. w @ '' '') ws)) = ws"
proof (induction ws)
  case Nil
  show ?case by (simp add: tokens.simps)
next
  case (Cons w ws)
  with tokens_Cons [of w "CHR '' ''" "CHR '' '' # concat (map (\<lambda>w. w @ '' '') ws)"]
  show ?case by (simp add: tokens_skip word_ok_def)
qed

lemma words_ok: "list_all args_line_ok ls \<Longrightarrow> list_all word_ok (concat (map (option_words (tl optstr)) (line_options ls)))"
proof (induction ls)
  case (Cons l ls)
  then show ?case by (cases l) (simp_all add: args_line_ok_def)
qed simp

lemma options_proper: "list_all args_line_ok ls \<Longrightarrow> list_all (proper_option (tl optstr)) (line_options ls)"
proof (induction ls)
  case (Cons l ls)
  then show ?case by (cases l) (simp_all add: args_line_ok_def)
qed simp

lemma args_file_read:
  assumes "list_all args_line_ok ls" and "line_options ls \<noteq> []"
    and "length (concat (map (option_words (tl optstr)) (line_options ls))) \<le> 31"
    and "length (args_chars (line_options ls)) < ARGS_SIZE"
  shows "read_args_from_file (Some (args_text ls)) =
    Some (0, concat (map (option_words (tl optstr)) (line_options ls)))"
proof -
  let ?ws = "concat (map (option_words (tl optstr)) (line_options ls))"
  note W = words_ok [OF assms(1)]
  have "args_chars (line_options ls) \<noteq> []"
    using assms(2) by (cases "line_options ls") (simp_all add: args_chars_Cons)
  moreover have "gather_args (args_text ls) [] = Some (args_chars (line_options ls))"
    using args_gathered [OF assms(1), of "[]"] assms(4) by simp
  moreover have "tokens CHR '' '' (args_chars (line_options ls)) = ?ws"
    unfolding args_chars_def by (rule tokens_terminated [OF W])
  moreover have "\<forall>w \<in> set ?ws. length w < 64" using W by (auto simp: list_all_iff word_ok_def)
  ultimately show ?thesis using assms(3) by (simp add: read_args_from_file_def Let_def)
qed

subsection \<open>Reading options\<close>

text \<open>The port list of \<open>-P\<close>. A comma-separated list of one to ten port numbers makes
  \<open>in_port_list\<close> hold for exactly the listed non-zero ports; a longer list writes past
  \<open>port_list\<close> (and an empty one gives \<open>atoi\<close> a NULL).\<close>

theorem option_ports_listed:
  assumes "\<forall>n \<in> set ns. n < 65536" and "32 \<le> lb"
  shows "if ns \<noteq> [] \<and> length ns \<le> PORT_LIST_LEN
    then \<exists>l. read_option lb CHR ''P'' (comma_list ns) s = Ok (s\<lparr>ports := l\<rparr>) \<and>
      (\<forall>p. in_port_list l PORT_LIST_LEN (int p) = Some (if p \<noteq> 0 \<and> p \<in> set ns then 1 else 0))
    else read_option lb CHR ''P'' (comma_list ns) s = Fault"
proof -
  have "\<forall>n \<in> set ns. n < 2 ^ 31" using assms(1) by auto
  then have n: "number_list lb (comma_list ns) = map int ns" by (rule number_comma_list [OF _ assms(2)])
  let ?l = "map int ns @ replicate (PORT_LIST_LEN - length ns) (-1)"
  have R: "read_option lb CHR ''P'' (comma_list ns) s =
      obind (store_list (map int ns) (replicate PORT_LIST_LEN (-1))) (\<lambda>l. Ok (s\<lparr>ports := l\<rparr>))"
    by (simp add: read_option_def n)
  have L: "listed ?l = map int ns"
    unfolding listed_def by (intro takeWhile_stop) (auto, cases "PORT_LIST_LEN - length ns", auto)
  have M: "in_port_list ?l PORT_LIST_LEN (int p) = Some (if p \<noteq> 0 \<and> p \<in> set ns then 1 else 0)"
    if "length ns \<le> PORT_LIST_LEN" for p
    using that in_port_list_listed [of ?l PORT_LIST_LEN "int p"] unfolding L by auto
  show ?thesis
  proof (cases "ns \<noteq> [] \<and> length ns \<le> PORT_LIST_LEN")
    case True
    then have "read_option lb CHR ''P'' (comma_list ns) s = Ok (s\<lparr>ports := ?l\<rparr>)"
      unfolding R by (simp add: store_list_def)
    with M True show ?thesis by (intro if_bool_eq_conj [THEN iffD2] conjI impI exI [of _ ?l] allI) blast+
  next
    case False
    then show ?thesis unfolding R by (auto simp: store_list_def)
  qed
qed

theorem option_ports_listed_witness:
  "\<exists>l. read_option 64 CHR ''P'' ''80,443'' \<lparr>opts = options_initial, conf = config_init, ports = replicate 10 0\<rparr>
     = Ok \<lparr>opts = options_initial, conf = config_init, ports = l\<rparr> \<and>
     in_port_list l 10 443 = Some 1 \<and> in_port_list l 10 22 = Some 0"
proof -
  have c: "comma_list [80, 443] = ''80,443''" by code_simp
  have "\<forall>n \<in> set [80, 443 :: nat]. n < 65536" "32 \<le> (64 :: nat)" by simp_all
  from option_ports_listed [OF this, of "\<lparr>opts = options_initial, conf = config_init, ports = replicate 10 0\<rparr>"]
  obtain l where l: "read_option 64 CHR ''P'' ''80,443'' \<lparr>opts = options_initial, conf = config_init, ports = replicate 10 0\<rparr>
     = Ok \<lparr>opts = options_initial, conf = config_init, ports = l\<rparr>"
    and p: "\<And>p. in_port_list l PORT_LIST_LEN (int p) = Some (if p \<noteq> 0 \<and> p \<in> set [80, 443] then 1 else 0)"
    unfolding c by (auto simp: PORT_LIST_LEN_def)
  from p [of 443] p [of 22] l show ?thesis by (auto simp: PORT_LIST_LEN_def)
qed

text \<open>C15. The arguments file. A file of comments and of options written one per line, whose words fit
  the program's buffers, has the effect of giving exactly these options on a command line without such a
  file; the command line actually given is ignored.\<close>

theorem args_file_round_trip:
  assumes "list_all args_line_ok ls" and "line_options ls \<noteq> []"
    and "length (concat (map (option_words (tl optstr)) (line_options ls))) \<le> 31"
    and "length (args_chars (line_options ls)) < ARGS_SIZE"
  shows "options_read_args lb (Some (args_text ls)) argv s =
      options_read_args lb None (prog # concat (map (option_words (tl optstr)) (line_options ls))) s \<and>
    command_options (Some (args_text ls)) argv = line_options ls"
  using args_file_read [OF assms] getopt_options [OF options_proper [OF assms(1)], of "[]"]
  by (simp add: options_read_args_def command_options_def read_args_from_file_def [of None] getopt_end)

theorem args_file_round_trip_witness:
  "args_text [Inl '' filters'', Inr (CHR ''P'', ''80,443''), Inr (CHR ''p'', [])]
     = ''# filters'' @ [newline] @ ''-P 80,443'' @ [newline] @ ''-p'' @ [newline] \<and>
   command_options (Some (args_text [Inl '' filters'', Inr (CHR ''P'', ''80,443''), Inr (CHR ''p'', [])]))
     [''iftop'', ''-h''] = [(CHR ''P'', ''80,443''), (CHR ''p'', [])]"
proof -
  let ?ls = "[Inl '' filters'', Inr (CHR ''P'', ''80,443''), Inr (CHR ''p'', [])]"
  have t: "args_text ?ls = ''# filters'' @ [newline] @ ''-P 80,443'' @ [newline] @ ''-p'' @ [newline]"
    by code_simp
  have h: "list_all args_line_ok ?ls" "line_options ?ls \<noteq> []"
      "length (concat (map (option_words (tl optstr)) (line_options ?ls))) \<le> 31"
      "length (args_chars (line_options ?ls)) < ARGS_SIZE"
    by code_simp+
  from args_file_round_trip [OF h, of 64 "[''iftop'', ''-h'']"] t show ?thesis by simp
qed

text \<open>The case \<open>-M\<close> has no break: it sets the interval, and then the broker address to the
  interval's text, whatever address a \<open>-B\<close> before it had set. Only a \<open>-B\<close> after it gives a
  usable address.\<close>

theorem interval_option_overwrites_broker:
  assumes "read_opts lb (os @ [(CHR ''M'', show_nat n)]) s = Ok s'" and "n * 60 < 2 ^ 31" and "32 \<le> lb"
  shows "send_interval (opts s') = 60 * int n \<and> mqtt_addr (opts s') = show_nat n"
proof -
  have A: "read_opts lb (xs @ ys) t = obind (read_opts lb xs t) (read_opts lb ys)" for xs ys t
  proof (induction lb xs t rule: read_opts.induct)
    case (2 lb c a os s)
    then show ?case by (cases "read_option lb c a s") simp_all
  qed simp
  obtain t where t: "read_option lb CHR ''M'' (show_nat n) t = Ok s'"
    using assms(1) unfolding A by (auto simp: obind_Ok)
  have "atoi lb (show_nat n) = int n" using assms(2,3) by (intro atoi_show_nat) auto
  moreover have "to_int (int n * 60) = 60 * int n" using assms(2) by (subst to_int_small) auto
  ultimately show ?thesis using t by (auto simp: read_option_def set_broker_Ok)
qed

theorem interval_option_overwrites_broker_witness:
  "\<exists>s'. read_opts 64 [(CHR ''B'', ''tcp://broker:1883''), (CHR ''M'', ''5'')]
      \<lparr>opts = options_initial, conf = config_init, ports = []\<rparr> = Ok s' \<and>
    send_interval (opts s') = 300 \<and> mqtt_addr (opts s') = ''5''"
proof -
  let ?os = "[(CHR ''B'', ''tcp://broker:1883'')] @ [(CHR ''M'', show_nat 5)]"
  let ?s = "\<lparr>opts = options_initial, conf = config_init, ports = []\<rparr>"
  have five: "show_nat 5 = ''5''" by code_simp
  obtain s' where s': "read_opts 64 ?os ?s = Ok s'"
    unfolding five by (auto simp: read_option_def set_broker_def)
  have "(5 :: nat) * 60 < 2 ^ 31" "32 \<le> (64 :: nat)" by simp_all
  from interval_option_overwrites_broker [OF s' this] s' show ?thesis unfolding five by auto
qed

subsection \<open>The IPv6 filter mask\<close>

text \<open>The mask of a prefix length of an IPv6 address.\<close>

definition ideal_mask6 :: "nat \<Rightarrow> byte list" where
  "ideal_mask6 n = map (\<lambda>i. if 8 * i + 8 \<le> n then 0xff else if n \<le> 8 * i then 0
     else push_bit (8 - n mod 8) 0xff) [0..<16]"

lemma prefix6_default:
  "list_all (\<lambda>n. (prefix6_mask n ([0xff, 0xff] @ replicate 14 0) = ideal_mask6 n) = (8 < n)) [1..<129]"
  by code_simp


text \<open>The IPv6 filter. A prefix length of 1 to 128 given as \<open>address/length\<close> enables the
  filter; since only the bytes the prefix covers are assigned over the default mask
  \<open>ffff::\<close>, the mask is the mask of the prefix exactly for lengths above 8.\<close>

theorem net_filter6_prefix:
  assumes "config_get_string c ''net-filter6'' = Some (addr @ ''/'' @ show_nat n)"
    and "CHR ''/'' \<notin> set addr" and "inet_pton6 addr = Some net" and "1 \<le> n" and "n \<le> 128" and "32 \<le> lb"
    and "netfilter6mask o0 = [0xff, 0xff] @ replicate 14 0"
  shows "\<exists>c' o1. options_config_get_net_filter6 lb inet_pton6 c o0 = (1, c', o1) \<and> netfilter6 o1 = 1 \<and>
     netfilter6net o1 = map2 (AND) net (netfilter6mask o1) \<and>
     (netfilter6mask o1 = ideal_mask6 n \<longleftrightarrow> 8 < n)"
proof -
  have d: "set (show_nat n) \<subseteq> set ''0123456789''" using show_nat_spec [of n] unfolding is_digit_def by (intro subsetI) blast
  have sp: "strspn (show_nat n) ''0123456789'' = length (show_nat n)"
    using strspn_split [OF d, of "[]"] by simp
  have a: "uint (word_of_int (atoi lb (show_nat n)) :: u32) = int n"
  proof -
    have "atoi lb (show_nat n) = int n" using assms(5,6) by (intro atoi_show_nat) simp_all
    moreover have "int n < 2 ^ 32" using assms(5) by simp
    ultimately show ?thesis by (simp only: uint_word_of_int) simp
  qed
  have i: "strchr (addr @ CHR ''/'' # show_nat n) CHR ''/'' = Some (length addr)"
    using strchr_split [OF assms(2), of "show_nat n"] by simp
  have m: "(prefix6_mask n ([0xff, 0xff] @ replicate 14 0) = ideal_mask6 n) = (8 < n)"
    using prefix6_default assms(4,5) unfolding list_all_iff by simp
  show ?thesis
    using assms(3,4,5,7) m
    by (simp add: options_config_get_net_filter6_def assms(1) i Let_def sp a)
qed

theorem net_filter6_prefix_witness:
  "let c = the (config_set_string config_init ''net-filter6'' ''fd00::/8'');
       o0 = options_set_defaults (\<lambda>_. True) None None 0 options_initial
   in \<exists>c' o1. options_config_get_net_filter6 64 (\<lambda>s. if s = ''fd00::'' then Some (0xfd # replicate 15 0) else None) c o0
        = (1, c', o1) \<and> netfilter6mask o1 \<noteq> ideal_mask6 8"
proof -
  let ?c = "the (config_set_string config_init ''net-filter6'' ''fd00::/8'')"
  let ?o = "options_set_defaults (\<lambda>_. True) None None 0 options_initial"
  let ?p = "\<lambda>s. if s = ''fd00::'' then Some (0xfd # replicate 15 (0 :: byte)) else None"
  have c: "config_get_string ?c ''net-filter6'' = Some (''fd00::'' @ ''/'' @ show_nat 8)" by code_simp
  have m: "netfilter6mask ?o = [0xff, 0xff] @ replicate 14 0" by (simp add: options_set_defaults_def)
  from net_filter6_prefix [OF c _ _ _ _ _ m, of ?p "0xfd # replicate 15 0" 64]
  show ?thesis by auto
qed

end
