(* ===== verification/Hash.thy ===== *)
theory Hash
  imports CHeap "HOL-Library.Multiset"
begin

text \<open>
  hash.c: the chained hash table. A table is an array of chain heads; a chain is a linked list of
  \<open>hash_node_type\<close> objects in a heap. Every operation below walks and rewires the pointers as
  the C code does. The first part is the model; the second part relates a table to the list of
  nodes on each chain (\<open>hash_ok\<close>); the locale \<open>hash_keys\<close> is the contract hash.c has with the
  three key types (addr_hash.c, ns_hash.c, serv_hash.c), and its lemmas say that under this
  contract the table is a finite map and that \<open>hash_next_item\<close> enumerates it.

  A pointer is \<open>addr option\<close>, NULL being \<open>None\<close>. Keys are copied by value, so
  \<open>copy_key\<close> is a function on key values and \<open>delete_key\<close>, which frees the copy, has no
  counterpart. A record value stands for a non-NULL \<open>hash_type*\<close>.
\<close>

subsection \<open>Data\<close>

datatype hash_status_enum =
    HASH_STATUS_OK
  | HASH_STATUS_MEM_EXHAUSTED
  | HASH_STATUS_KEY_NOT_FOUND

record ('k, 'v) hash_node_type =
  node_next :: "addr option"
  node_key :: 'k
  node_rec :: 'v

record 'k hash_type =
  compare_fn :: "'k \<Rightarrow> 'k \<Rightarrow> bool"
  hash_fn :: "'k \<Rightarrow> int"
  copy_key_fn :: "'k \<Rightarrow> 'k"
  table :: "addr option list"
  hsize :: nat

type_synonym ('k, 'v) node_heap = "('k, 'v) hash_node_type heap"

text \<open>The array accesses \<open>hash_table->table[bucket]\<close>; a bucket outside the array faults.\<close>

definition table_get :: "'k hash_type \<Rightarrow> int \<Rightarrow> addr option option" where
  "table_get T b =
     (if 0 \<le> b \<and> b < int (length (table T)) then Some (table T ! nat b) else None)"

definition table_set :: "'k hash_type \<Rightarrow> int \<Rightarrow> addr option \<Rightarrow> 'k hash_type option" where
  "table_set T b p =
     (if 0 \<le> b \<and> b < int (length (table T)) then Some (T\<lparr>table := (table T)[nat b := p]\<rparr>)
      else None)"

subsection \<open>Operations\<close>

definition hash_initialise :: "'k hash_type \<Rightarrow> 'k hash_type" where
  "hash_initialise T = T\<lparr>table := replicate (hsize T) None\<rparr>"

text \<open>\<open>hash_destroy\<close> frees the array of chain heads and nothing else.\<close>

definition hash_destroy :: "'k hash_type \<Rightarrow> 'k hash_type" where
  "hash_destroy T = T\<lparr>table := []\<rparr>"

definition hash_insert ::
  "'k hash_type \<Rightarrow> ('k, 'v) node_heap \<Rightarrow> 'k \<Rightarrow> 'v
     \<Rightarrow> (hash_status_enum \<times> 'k hash_type \<times> ('k, 'v) node_heap) option" where
  "hash_insert T h key rec = do {
     let bucket = hash_fn T key;
     p0 \<leftarrow> table_get T bucket;
     let (p, h') = xmalloc h \<lparr>node_next = p0, node_key = copy_key_fn T key, node_rec = rec\<rparr>;
     T' \<leftarrow> table_set T bucket (Some p);
     Some (HASH_STATUS_OK, T', h')
   }"

text \<open>The search loop of \<open>hash_find\<close>: \<open>while (p && !compare(p->key, key)) p = p->next\<close>.
  A dangling pointer or an endless chain is \<open>None\<close>.\<close>

partial_function (option) find_loop ::
  "('k \<Rightarrow> 'k \<Rightarrow> bool) \<Rightarrow> ('k, 'v) node_heap \<Rightarrow> 'k \<Rightarrow> addr option \<Rightarrow> addr option option" where
  "find_loop cmp h key p =
     (case p of None \<Rightarrow> Some None
      | Some a \<Rightarrow> Option.bind (hread h a) (\<lambda>n.
          if cmp (node_key n) key then Some (Some a) else find_loop cmp h key (node_next n)))"

text \<open>The search loop of \<open>hash_delete\<close>, which also remembers the predecessor \<open>p0\<close>.\<close>

partial_function (option) delete_loop ::
  "('k \<Rightarrow> 'k \<Rightarrow> bool) \<Rightarrow> ('k, 'v) node_heap \<Rightarrow> 'k \<Rightarrow> addr option \<Rightarrow> addr option
     \<Rightarrow> (addr option \<times> addr option) option" where
  "delete_loop cmp h key p0 p =
     (case p of None \<Rightarrow> Some (p0, None)
      | Some a \<Rightarrow> Option.bind (hread h a) (\<lambda>n.
          if cmp (node_key n) key then Some (p0, Some a)
          else delete_loop cmp h key (Some a) (node_next n)))"

definition hash_find ::
  "'k hash_type \<Rightarrow> ('k, 'v) node_heap \<Rightarrow> 'k \<Rightarrow> (hash_status_enum \<times> 'v option) option" where
  "hash_find T h key = do {
     p \<leftarrow> table_get T (hash_fn T key);
     q \<leftarrow> find_loop (compare_fn T) h key p;
     (case q of
        None \<Rightarrow> Some (HASH_STATUS_KEY_NOT_FOUND, None)
      | Some a \<Rightarrow> do { n \<leftarrow> hread h a; Some (HASH_STATUS_OK, Some (node_rec n)) })
   }"

definition hash_delete ::
  "'k hash_type \<Rightarrow> ('k, 'v) node_heap \<Rightarrow> 'k
     \<Rightarrow> (hash_status_enum \<times> 'k hash_type \<times> ('k, 'v) node_heap) option" where
  "hash_delete T h key = do {
     let bucket = hash_fn T key;
     p \<leftarrow> table_get T bucket;
     (p0, q) \<leftarrow> delete_loop (compare_fn T) h key None p;
     (case q of
        None \<Rightarrow> Some (HASH_STATUS_KEY_NOT_FOUND, T, h)
      | Some a \<Rightarrow> do {
          n \<leftarrow> hread h a;
          (T', h') \<leftarrow> (case p0 of
             Some b \<Rightarrow> do {
               m \<leftarrow> hread h b;
               h1 \<leftarrow> hwrite h b (m\<lparr>node_next := node_next n\<rparr>);
               Some (T, h1) }
           | None \<Rightarrow> do { T1 \<leftarrow> table_set T bucket (node_next n); Some (T1, h) });
          h'' \<leftarrow> hfree h' a;
          Some (HASH_STATUS_OK, T', h'')
        })
   }"

text \<open>The loop of \<open>hash_next_item\<close> over the empty buckets:
  \<open>while (i < size && table[i] == NULL) i++\<close>.\<close>

function next_bucket :: "addr option list \<Rightarrow> nat \<Rightarrow> nat \<Rightarrow> nat option" where
  "next_bucket tab sz i =
     (if i < sz
      then if length tab \<le> i then None
           else if tab ! i = None then next_bucket tab sz (Suc i) else Some i
      else Some i)"
  by pat_completeness auto
termination
  by (relation "measure (\<lambda>(tab, sz, i). sz - i)") auto

declare next_bucket.simps [simp del]

definition next_from :: "'k hash_type \<Rightarrow> nat \<Rightarrow> (hash_status_enum \<times> addr option) option" where
  "next_from T i0 = do {
     i \<leftarrow> next_bucket (table T) (hsize T) i0;
     if i = hsize T then Some (HASH_STATUS_KEY_NOT_FOUND, None)
     else do { p \<leftarrow> table_get T (int i); Some (HASH_STATUS_OK, p) }
   }"

definition hash_next_item ::
  "'k hash_type \<Rightarrow> ('k, 'v) node_heap \<Rightarrow> addr option \<Rightarrow> (hash_status_enum \<times> addr option) option" where
  "hash_next_item T h ppnode =
     (case ppnode of
        Some a \<Rightarrow> do {
          n \<leftarrow> hread h a;
          if node_next n \<noteq> None then Some (HASH_STATUS_OK, node_next n)
          else (let i = hash_fn T (node_key n) + 1 in if i < 0 then None else next_from T (nat i))
        }
      | None \<Rightarrow> next_from T 0)"

partial_function (option) free_chain ::
  "('k, 'v) node_heap \<Rightarrow> addr option \<Rightarrow> ('k, 'v) node_heap option" where
  "free_chain h p =
     (case p of None \<Rightarrow> Some h
      | Some a \<Rightarrow> Option.bind (hread h a) (\<lambda>n.
          Option.bind (hfree h a) (\<lambda>h'. free_chain h' (node_next n))))"

fun delete_buckets ::
  "'k hash_type \<Rightarrow> ('k, 'v) node_heap \<Rightarrow> nat list \<Rightarrow> ('k hash_type \<times> ('k, 'v) node_heap) option" where
  "delete_buckets T h [] = Some (T, h)"
| "delete_buckets T h (i # is) = do {
     p \<leftarrow> table_get T (int i);
     h' \<leftarrow> free_chain h p;
     T' \<leftarrow> table_set T (int i) None;
     delete_buckets T' h' is
   }"

definition hash_delete_all ::
  "'k hash_type \<Rightarrow> ('k, 'v) node_heap \<Rightarrow> ('k hash_type \<times> ('k, 'v) node_heap) option" where
  "hash_delete_all T h = delete_buckets T h [0..<hsize T]"

subsection \<open>Chains and well-formed tables\<close>

text \<open>\<open>chain h p as\<close>: following \<open>next\<close> from \<open>p\<close> visits exactly the nodes \<open>as\<close> and
  then NULL.\<close>

fun chain :: "('k, 'v) node_heap \<Rightarrow> addr option \<Rightarrow> addr list \<Rightarrow> bool" where
  "chain h p [] \<longleftrightarrow> p = None"
| "chain h p (a # as) \<longleftrightarrow> p = Some a \<and> (\<exists>n. cells h a = Some n \<and> chain h (node_next n) as)"

definition key_at :: "('k, 'v) node_heap \<Rightarrow> addr \<Rightarrow> 'k" where
  "key_at h a = node_key (the (cells h a))"

definition rec_at :: "('k, 'v) node_heap \<Rightarrow> addr \<Rightarrow> 'v" where
  "rec_at h a = node_rec (the (cells h a))"

text \<open>\<open>hash_ok T h Cs\<close>: bucket \<open>i\<close> holds the chain \<open>Cs ! i\<close>, no node is on two chains, and
  every node sits in the bucket its key hashes to.\<close>

definition hash_ok :: "'k hash_type \<Rightarrow> ('k, 'v) node_heap \<Rightarrow> addr list list \<Rightarrow> bool" where
  "hash_ok T h Cs \<longleftrightarrow>
     hsize T = length (table T) \<and> length Cs = length (table T) \<and>
     (\<forall>i < length Cs. chain h (table T ! i) (Cs ! i)) \<and> distinct (concat Cs) \<and>
     (\<forall>i < length Cs. \<forall>a \<in> set (Cs ! i). hash_fn T (key_at h a) = int i) \<and> heap_ok h"

text \<open>The contents of a table in the order \<open>hash_next_item\<close> visits it.\<close>

definition entries :: "('k, 'v) node_heap \<Rightarrow> addr list list \<Rightarrow> ('k \<times> 'v) list" where
  "entries h Cs = map (\<lambda>a. (key_at h a, rec_at h a)) (concat Cs)"

definition keys_ok :: "('k \<Rightarrow> bool) \<Rightarrow> ('k, 'v) node_heap \<Rightarrow> addr list list \<Rightarrow> bool" where
  "keys_ok valid h Cs \<longleftrightarrow> (\<forall>a \<in> set (concat Cs). valid (key_at h a))"

definition keys_distinct :: "('k, 'v) node_heap \<Rightarrow> addr list list \<Rightarrow> bool" where
  "keys_distinct h Cs \<longleftrightarrow> distinct (map (key_at h) (concat Cs))"

definition table_fns ::
  "'k hash_type \<Rightarrow> ('k \<Rightarrow> 'k \<Rightarrow> bool) \<times> ('k \<Rightarrow> int) \<times> ('k \<Rightarrow> 'k) \<times> nat" where
  "table_fns T = (compare_fn T, hash_fn T, copy_key_fn T, hsize T)"

subsection \<open>Pointer lemmas\<close>

lemma chain_cong:
  "(\<And>a. a \<in> set as \<Longrightarrow> cells h' a = cells h a) \<Longrightarrow> chain h' p as = chain h p as"
  by (induction as arbitrary: p) auto

lemma chain_live: "chain h p as \<Longrightarrow> a \<in> set as \<Longrightarrow> \<exists>n. cells h a = Some n"
  by (induction as arbitrary: p) auto

lemma chain_suffix: "chain h p (xs @ a # ys) \<Longrightarrow> \<exists>n. cells h a = Some n \<and> chain h (node_next n) ys"
  by (induction xs arbitrary: p) auto

lemma chain_head: "chain h p as \<Longrightarrow> p = (if as = [] then None else Some (hd as))"
  by (cases as) auto

lemma find_loop_chain:
  "chain h p as \<Longrightarrow> find_loop cmp h key p = Some (find (\<lambda>a. cmp (key_at h a) key) as)"
proof (induction as arbitrary: p)
  case Nil
  then show ?case by (simp add: find_loop.simps)
next
  case (Cons a as)
  then show ?case by (subst find_loop.simps) (auto simp: hread_def key_at_def)
qed

lemma delete_loop_absent:
  "chain h p as \<Longrightarrow> \<forall>a \<in> set as. \<not> cmp (key_at h a) key \<Longrightarrow>
   \<exists>q. delete_loop cmp h key p0 p = Some (q, None)"
proof (induction as arbitrary: p p0)
  case Nil
  then show ?case by (simp add: delete_loop.simps)
next
  case (Cons a as)
  then show ?case by (subst delete_loop.simps) (auto simp: hread_def key_at_def)
qed

lemma delete_loop_found:
  "chain h p (xs @ a # ys) \<Longrightarrow> \<forall>x \<in> set xs. \<not> cmp (key_at h x) key \<Longrightarrow>
   cmp (key_at h a) key \<Longrightarrow>
   delete_loop cmp h key p0 p = Some (if xs = [] then p0 else Some (last xs), Some a)"
proof (induction xs arbitrary: p p0)
  case Nil
  then show ?case by (subst delete_loop.simps) (auto simp: hread_def key_at_def)
next
  case (Cons x xs)
  then show ?case by (subst delete_loop.simps) (auto simp: hread_def key_at_def)
qed

text \<open>Unlinking \<open>a\<close> behind its predecessor \<open>b\<close>.\<close>

lemma chain_unlink:
  assumes "chain h p (xs @ b # a # ys)" "distinct (xs @ b # a # ys)"
    and "cells h b = Some m" "cells h a = Some n"
    and "cells h' b = Some (m\<lparr>node_next := node_next n\<rparr>)"
    and "\<And>x. x \<in> set (xs @ ys) \<Longrightarrow> cells h' x = cells h x"
  shows "chain h' p (xs @ b # ys)"
  using assms
proof (induction xs arbitrary: p)
  case Nil
  then have "chain h (node_next n) ys" by auto
  with Nil have "chain h' (node_next n) ys" by (subst chain_cong [of _ _ h]) auto
  with Nil show ?case by auto
next
  case (Cons x xs)
  then show ?case by auto
qed

lemma hash_ok_bucket:
  "hash_ok T h Cs \<Longrightarrow> a \<in> set (concat Cs) \<Longrightarrow>
   \<exists>i < length Cs. hash_fn T (key_at h a) = int i \<and> a \<in> set (Cs ! i)"
  by (auto simp: hash_ok_def in_set_conv_nth) (metis nth_mem)

lemma hash_ok_live:
  assumes "hash_ok T h Cs" and "a \<in> set (concat Cs)"
  shows "\<exists>n. cells h a = Some n"
proof -
  obtain i where "i < length Cs" "a \<in> set (Cs ! i)" using hash_ok_bucket [OF assms] by blast
  with assms(1) show ?thesis by (auto simp: hash_ok_def dest!: chain_live)
qed

lemma hash_ok_less_brk: "hash_ok T h Cs \<Longrightarrow> a \<in> set (concat Cs) \<Longrightarrow> a < brk h"
  by (frule (1) hash_ok_live) (auto simp: hash_ok_def heap_ok_def)

lemma table_get_in: "b < length (table T) \<Longrightarrow> table_get T (int b) = Some (table T ! b)"
  by (simp add: table_get_def)

lemma table_set_in:
  "b < length (table T) \<Longrightarrow> table_set T (int b) p = Some (T\<lparr>table := (table T)[b := p]\<rparr>)"
  by (simp add: table_set_def)

subsection \<open>Effect of each operation on the chains\<close>

lemma hash_insert_spec:
  assumes ok: "hash_ok T h Cs" and b: "hash_fn T key = int b" "b < length Cs"
    and cp: "copy_key_fn T key = key"
  shows "\<exists>T' h'. hash_insert T h key rec = Some (HASH_STATUS_OK, T', h') \<and>
     hash_ok T' h' (Cs[b := brk h # Cs ! b]) \<and>
     cells h' = (cells h)(brk h \<mapsto> \<lparr>node_next = table T ! b, node_key = key, node_rec = rec\<rparr>) \<and>
     table_fns T' = table_fns T"
proof -
  let ?n = "\<lparr>node_next = table T ! b, node_key = key, node_rec = rec\<rparr>"
  let ?h' = "h\<lparr>cells := (cells h)(brk h \<mapsto> ?n), brk := Suc (brk h)\<rparr>"
  let ?T' = "T\<lparr>table := (table T)[b := Some (brk h)]\<rparr>"
  have len: "length Cs = length (table T)" using ok by (simp add: hash_ok_def)
  have run: "hash_insert T h key rec = Some (HASH_STATUS_OK, ?T', ?h')"
    using b cp len by (simp add: hash_insert_def table_get_in table_set_in xmalloc_def)
  have fresh: "a \<in> set (concat Cs) \<Longrightarrow> a \<noteq> brk h" for a
    using hash_ok_less_brk [OF ok] by fastforce
  have fresh_i: "i < length Cs \<Longrightarrow> a \<in> set (Cs ! i) \<Longrightarrow> a \<noteq> brk h" for i a
    by (rule fresh) (rule in_concat_nth)
  have same: "chain ?h' p (Cs ! i) = chain h p (Cs ! i)" if "i < length Cs" for p i
    using fresh_i [OF that] by (intro chain_cong) auto
  have "hash_ok ?T' ?h' (Cs[b := brk h # Cs ! b])"
  proof -
    have "distinct (concat (Cs[b := brk h # Cs ! b]))"
      using ok b(2) fresh
      by (auto simp: hash_ok_def concat_upd_split concat_split_nth [of b Cs])
    moreover have "chain ?h' (table ?T' ! i) (Cs[b := brk h # Cs ! b] ! i)" if "i < length Cs" for i
      using that ok len by (cases "i = b") (auto simp: hash_ok_def same)
    moreover have "hash_fn T (key_at ?h' a) = int i"
      if "i < length Cs" "a \<in> set (Cs[b := brk h # Cs ! b] ! i)" for i a
      using that ok b fresh_i by (cases "i = b") (auto simp: hash_ok_def key_at_def)
    ultimately show ?thesis
      using ok by (auto simp: hash_ok_def heap_ok_def less_Suc_eq)
  qed
  with run show ?thesis by (auto simp: table_fns_def)
qed

lemma next_bucket_spec:
  assumes "hash_ok T h Cs" and "i \<le> length Cs"
  shows "\<exists>j. next_bucket (table T) (hsize T) i = Some j \<and> j \<le> length Cs \<and>
     concat (drop i Cs) = concat (drop j Cs) \<and> (j < length Cs \<longrightarrow> Cs ! j \<noteq> [])"
  using assms(2)
proof (induction "length Cs - i" arbitrary: i)
  case 0
  with assms(1) show ?case
    by (subst next_bucket.simps) (auto simp: hash_ok_def)
next
  case (Suc d)
  then have i: "i < length Cs" "d = length Cs - Suc i" by auto
  have c: "chain h (table T ! i) (Cs ! i)" and len: "length Cs = length (table T)" "hsize T = length Cs"
    using assms(1) i by (auto simp: hash_ok_def)
  show ?case
  proof (cases "Cs ! i = []")
    case True
    then have "table T ! i = None" using c by simp
    moreover have "concat (drop i Cs) = concat (drop (Suc i) Cs)"
      using True i by (simp add: concat_drop_nth)
    ultimately show ?thesis
      using Suc.hyps(1) [OF i(2)] i len by (subst next_bucket.simps) auto
  next
    case False
    then have "table T ! i \<noteq> None" using chain_head [OF c] by simp
    with False i len show ?thesis by (subst next_bucket.simps) auto
  qed
qed

definition first_of :: "addr list \<Rightarrow> hash_status_enum \<times> addr option" where
  "first_of as =
     (case as of [] \<Rightarrow> (HASH_STATUS_KEY_NOT_FOUND, None) | a # _ \<Rightarrow> (HASH_STATUS_OK, Some a))"

lemma next_from_spec:
  assumes ok: "hash_ok T h Cs" and "i \<le> length Cs"
  shows "next_from T i = Some (first_of (concat (drop i Cs)))"
proof -
  obtain j where j: "next_bucket (table T) (hsize T) i = Some j" "j \<le> length Cs"
      "concat (drop i Cs) = concat (drop j Cs)" "j < length Cs \<longrightarrow> Cs ! j \<noteq> []"
    using next_bucket_spec [OF assms] by blast
  have len: "length Cs = length (table T)" "hsize T = length Cs"
    using ok by (auto simp: hash_ok_def)
  show ?thesis
  proof (cases "j < length Cs")
    case True
    then have "chain h (table T ! j) (Cs ! j)" and "Cs ! j \<noteq> []"
      using ok j(4) by (auto simp: hash_ok_def)
    then obtain a as where "Cs ! j = a # as" "table T ! j = Some a"
      by (cases "Cs ! j") auto
    with True j len show ?thesis
      by (simp add: next_from_def first_of_def table_get_in concat_drop_nth)
  next
    case False
    then have "concat (drop i Cs) = []" using j(3) by simp
    with False j(1,2) len show ?thesis by (simp add: next_from_def first_of_def del: concat_eq_Nil_conv)
  qed
qed

text \<open>\<open>hash_next_item\<close> enumerates \<open>concat Cs\<close>: from NULL it gives the first node, from a node
  the one after it, and after the last one \<open>HASH_STATUS_KEY_NOT_FOUND\<close> and NULL.\<close>

lemma hash_next_item_first:
  "hash_ok T h Cs \<Longrightarrow> hash_next_item T h None = Some (first_of (concat Cs))"
  using next_from_spec [of T h Cs 0] by (simp add: hash_next_item_def)

lemma hash_next_item_step:
  assumes ok: "hash_ok T h Cs" and split: "concat Cs = xs @ a # ys"
  shows "hash_next_item T h (Some a) = Some (first_of ys)"
proof -
  have dist: "distinct (concat Cs)" using ok by (simp add: hash_ok_def)
  obtain i where i: "i < length Cs" "hash_fn T (key_at h a) = int i" "a \<in> set (Cs ! i)"
    using hash_ok_bucket [OF ok, of a] split by auto
  then obtain us vs where uv: "Cs ! i = us @ a # vs" by (meson split_list)
  have "concat (take i Cs) @ us @ a # vs @ concat (drop (Suc i) Cs) = xs @ a # ys"
    using split concat_split_nth [OF i(1)] uv by simp
  moreover have "distinct ((concat (take i Cs) @ us) @ a # vs @ concat (drop (Suc i) Cs))"
    using dist split calculation by simp
  ultimately have ys: "ys = vs @ concat (drop (Suc i) Cs)"
    by (metis append.assoc distinct_append_cong_mid)
  have "chain h (table T ! i) (us @ a # vs)" using ok i(1) uv by (metis hash_ok_def)
  then obtain n where n: "cells h a = Some n" "chain h (node_next n) vs"
    using chain_suffix by metis
  show ?thesis
  proof (cases vs)
    case Nil
    have "next_from T (Suc i) = Some (first_of (concat (drop (Suc i) Cs)))"
      using i(1) by (intro next_from_spec [OF ok]) simp
    moreover have "nat (hash_fn T (node_key n) + 1) = Suc i" "\<not> hash_fn T (node_key n) + 1 < 0"
      using i(2) n(1) by (simp_all add: key_at_def)
    ultimately show ?thesis using n Nil ys by (simp add: hash_next_item_def hread_def Let_def)
  next
    case (Cons v vs')
    with n ys show ?thesis by (simp add: hash_next_item_def hread_def first_of_def)
  qed
qed

text \<open>Taking \<open>a\<close> off its chain, however the pointers were rewired to do it.\<close>

lemma hash_ok_remove:
  assumes ok: "hash_ok T h Cs" and i: "i < length Cs" "Cs ! i = us @ a # vs"
    and T': "length (table T') = length (table T)" "hsize T' = hsize T" "hash_fn T' = hash_fn T"
      "\<And>j. j \<noteq> i \<Longrightarrow> table T' ! j = table T ! j"
    and ch: "chain h' (table T' ! i) (us @ vs)"
    and out: "\<And>x. x \<notin> set (Cs ! i) \<Longrightarrow> cells h' x = cells h x"
    and keys: "\<And>x. x \<noteq> a \<Longrightarrow> key_at h' x = key_at h x"
    and hp: "heap_ok h'"
  shows "hash_ok T' h' (Cs[i := us @ vs]) \<and> concat (Cs[i := us @ vs]) = remove1 a (concat Cs)"
proof -
  have dist: "distinct (concat Cs)" using ok by (simp add: hash_ok_def)
  note cc = concat_split_nth [OF i(1)]
  have "a \<notin> set (concat (take i Cs)) \<union> set us" "a \<notin> set vs"
    using dist unfolding cc i(2) by auto
  then have rm: "concat (Cs[i := us @ vs]) = remove1 a (concat Cs)"
    unfolding cc i(2) concat_upd_split [OF i(1)] by (simp add: remove1_append del: set_concat)
  have disj: "x \<notin> set (Cs ! i)" if "j < length Cs" "j \<noteq> i" "x \<in> set (Cs ! j)" for j x
  proof
    assume "x \<in> set (Cs ! i)"
    then have "hash_fn T (key_at h x) = int i" using ok i(1) by (simp add: hash_ok_def)
    moreover have "hash_fn T (key_at h x) = int j" using ok that by (simp add: hash_ok_def)
    ultimately show False using that(2) by simp
  qed
  have other: "chain h' (table T' ! j) (Cs ! j)" if "j < length Cs" "j \<noteq> i" for j
  proof -
    have "chain h (table T ! j) (Cs ! j)" using ok that by (simp add: hash_ok_def)
    then show ?thesis using T'(4) [OF that(2)] disj [OF that] out by (subst chain_cong [of _ _ h]) auto
  qed
  have "chain h' (table T' ! j) (Cs[i := us @ vs] ! j)" if "j < length Cs" for j
    using that ch other by (cases "j = i") simp_all
  moreover have "distinct (concat (Cs[i := us @ vs]))" unfolding rm using dist by (rule distinct_remove1)
  moreover have "hash_fn T (key_at h' x) = int j"
    if "j < length Cs" "x \<in> set (Cs[i := us @ vs] ! j)" for j x
  proof -
    have "x \<in> set (Cs ! j)" "x \<noteq> a"
      using that i \<open>a \<notin> set vs\<close> \<open>a \<notin> set (concat (take i Cs)) \<union> set us\<close> disj
      by (cases "j = i"; auto)+
    then show ?thesis using ok that(1) keys by (simp add: hash_ok_def)
  qed
  ultimately show ?thesis
    using ok T' hp rm by (auto simp: hash_ok_def)
qed

lemma chain_pred:
  "chain h p (ws @ b # a # vs) \<Longrightarrow> \<exists>m n. cells h b = Some m \<and> cells h a = Some n"
  by (drule chain_suffix) auto

lemma hash_delete_spec:
  assumes ok: "hash_ok T h Cs" and a: "a \<in> set (concat Cs)"
    and hk: "hash_fn T key = hash_fn T (key_at h a)" and cmp: "compare_fn T (key_at h a) key"
    and only: "\<And>x. x \<in> set (concat Cs) \<Longrightarrow> x \<noteq> a \<Longrightarrow> \<not> compare_fn T (key_at h x) key"
  shows "\<exists>T' h' Cs'. hash_delete T h key = Some (HASH_STATUS_OK, T', h') \<and> hash_ok T' h' Cs' \<and>
     concat Cs' = remove1 a (concat Cs) \<and> cells h' a = None \<and> table_fns T' = table_fns T \<and>
     (\<forall>x. x \<noteq> a \<longrightarrow> key_at h' x = key_at h x \<and> rec_at h' x = rec_at h x)"
proof -
  obtain i where i: "i < length Cs" "hash_fn T (key_at h a) = int i" "a \<in> set (Cs ! i)"
    using hash_ok_bucket [OF ok a] by blast
  then obtain us vs where uv: "Cs ! i = us @ a # vs" by (meson split_list)
  have len: "length Cs = length (table T)" using ok by (simp add: hash_ok_def)
  have ch: "chain h (table T ! i) (us @ a # vs)" using ok i(1) uv by (metis hash_ok_def)
  have dist: "distinct (us @ a # vs)"
    using distinct_concat_nth [of Cs i] ok i(1) uv by (simp add: hash_ok_def)
  obtain n where n: "cells h a = Some n" "chain h (node_next n) vs"
    using chain_suffix [OF ch] by blast
  have miss: "\<forall>x \<in> set us. \<not> compare_fn T (key_at h x) key"
  proof
    fix x assume "x \<in> set us"
    then have "x \<noteq> a" "x \<in> set (Cs ! i)" using dist uv by auto
    then have "x \<noteq> a" "x \<in> set (concat Cs)" using in_concat_nth [OF i(1)] by blast+
    then show "\<not> compare_fn T (key_at h x) key" using only by blast
  qed
  have found: "delete_loop (compare_fn T) h key None (table T ! i) =
      Some (if us = [] then None else Some (last us), Some a)"
    using delete_loop_found [of h _ us a vs "compare_fn T" key None] ch miss cmp by blast
  have hok: "heap_ok h" using ok by (simp add: hash_ok_def)
  show ?thesis
  proof (cases us rule: rev_cases)
    case Nil
    let ?T' = "T\<lparr>table := (table T)[i := node_next n]\<rparr>"
    let ?h' = "h\<lparr>cells := (cells h)(a := None)\<rparr>"
    have run: "hash_delete T h key = Some (HASH_STATUS_OK, ?T', ?h')"
      using hk i len n found Nil
      by (simp add: hash_delete_def table_get_in table_set_in heap_simps)
    have "chain ?h' (node_next n) vs" using n(2) dist Nil by (subst chain_cong [of _ _ h]) auto
    then have "hash_ok ?T' ?h' (Cs[i := us @ vs]) \<and> concat (Cs[i := us @ vs]) = remove1 a (concat Cs)"
      using i(1) len uv Nil hok n(1)
      by (intro hash_ok_remove [OF ok i(1) uv]) (auto simp: key_at_def heap_ok_def)
    with run show ?thesis by (auto simp: table_fns_def key_at_def rec_at_def)
  next
    case (snoc ws b)
    obtain m where m: "cells h b = Some m" using chain_pred ch snoc by fastforce
    let ?h' = "h\<lparr>cells := (cells h)(b \<mapsto> m\<lparr>node_next := node_next n\<rparr>, a := None)\<rparr>"
    have ab: "a \<noteq> b" using dist snoc by auto
    have run: "hash_delete T h key = Some (HASH_STATUS_OK, T, ?h')"
      using hk i len n found snoc m ab
      by (simp add: hash_delete_def table_get_in heap_simps)
    have "chain ?h' (table T ! i) (ws @ b # vs)"
      using ch dist snoc m n(1) ab by (intro chain_unlink [of h _ ws b a vs m n]) auto
    then have "hash_ok T ?h' (Cs[i := us @ vs]) \<and> concat (Cs[i := us @ vs]) = remove1 a (concat Cs)"
      using i(1) len uv snoc hok n(1) m ab
      by (intro hash_ok_remove [OF ok i(1) uv]) (auto simp: key_at_def heap_ok_def)
    with run show ?thesis using m by (auto simp: table_fns_def key_at_def rec_at_def)
  qed
qed

definition drop_cells :: "'a heap \<Rightarrow> addr set \<Rightarrow> 'a heap" where
  "drop_cells h S = h\<lparr>cells := (\<lambda>x. if x \<in> S then None else cells h x)\<rparr>"

lemma drop_cells_simps [simp]:
  "cells (drop_cells h S) x = (if x \<in> S then None else cells h x)"
  "brk (drop_cells h S) = brk h"
  "drop_cells (drop_cells h S) S' = drop_cells h (S \<union> S')"
  "drop_cells h {} = h"
  by (cases h; auto simp: drop_cells_def fun_eq_iff)+

lemma hfree_drop: "cells h a = Some n \<Longrightarrow> hfree h a = Some (drop_cells h {a})"
  by (cases h) (auto simp: hfree_def drop_cells_def fun_eq_iff)

lemma free_chain_spec:
  "chain h p as \<Longrightarrow> distinct as \<Longrightarrow> free_chain h p = Some (drop_cells h (set as))"
proof (induction as arbitrary: h p)
  case Nil
  then show ?case by (simp add: free_chain.simps)
next
  case (Cons a as)
  then obtain n where n: "p = Some a" "cells h a = Some n" "chain h (node_next n) as" by auto
  then have "chain (drop_cells h {a}) (node_next n) as"
    using Cons.prems by (subst chain_cong [of _ _ h]) auto
  with Cons n show ?case by (subst free_chain.simps) (simp add: hread_def hfree_drop)
qed

lemma delete_buckets_spec:
  assumes "length (table T) = length Cs" and "distinct is" and "\<forall>i \<in> set is. i < length Cs"
    and "\<forall>i \<in> set is. chain h (table T ! i) (Cs ! i)" and "distinct (concat Cs)"
  shows "\<exists>T' h'. delete_buckets T h is = Some (T', h') \<and>
     h' = drop_cells h (\<Union>i \<in> set is. set (Cs ! i)) \<and> table_fns T' = table_fns T \<and>
     length (table T') = length (table T) \<and>
     (\<forall>i < length Cs. table T' ! i = (if i \<in> set is then None else table T ! i))"
  using assms
proof (induction "is" arbitrary: T h)
  case Nil
  then show ?case by simp
next
  case (Cons i "is")
  let ?T = "T\<lparr>table := (table T)[i := None]\<rparr>" and ?h = "drop_cells h (set (Cs ! i))"
  have i: "i < length Cs" "i \<notin> set is" using Cons.prems by auto
  have free: "free_chain h (table T ! i) = Some ?h"
    using Cons.prems i by (intro free_chain_spec) (auto intro: distinct_concat_nth)
  have "chain ?h (table ?T ! j) (Cs ! j)" if "j \<in> set is" for j
  proof -
    have j: "j < length Cs" "j \<noteq> i" "chain h (table T ! j) (Cs ! j)" using Cons.prems i that by auto
    have "set (Cs ! i) \<inter> set (Cs ! j) = {}"
      using distinct_concat_disjoint [OF Cons.prems(5) i(1) j(1)] j(2) by simp
    with j(3) have "chain ?h (table T ! j) (Cs ! j)" by (subst chain_cong [of _ _ h]) auto
    with j(2) show ?thesis by simp
  qed
  then have "\<exists>T' h'. delete_buckets ?T ?h is = Some (T', h') \<and>
     h' = drop_cells ?h (\<Union>i \<in> set is. set (Cs ! i)) \<and> table_fns T' = table_fns ?T \<and>
     length (table T') = length (table ?T) \<and>
     (\<forall>i < length Cs. table T' ! i = (if i \<in> set is then None else table ?T ! i))"
    using Cons.prems by (intro Cons.IH) auto
  then show ?case
    using free i Cons.prems(1) by (auto simp: table_get_in table_set_in table_fns_def nth_list_update)
qed

lemma map_of_bucket:
  assumes ok: "hash_ok T h Cs" and i: "i < length Cs" "hash_fn T k = int i"
  shows "map_of (entries h Cs) k = map_of (map (\<lambda>a. (key_at h a, rec_at h a)) (Cs ! i)) k"
proof -
  let ?e = "\<lambda>as. map (\<lambda>a. (key_at h a, rec_at h a)) as"
  have off: "k \<notin> fst ` set (?e as)" if disj: "set as \<inter> set (Cs ! i) = {}" and sub: "set as \<subseteq> set (concat Cs)" for as
  proof
    assume "k \<in> fst ` set (?e as)"
    then obtain a where a: "a \<in> set as" "key_at h a = k" by auto
    moreover obtain j where "j < length Cs" "hash_fn T (key_at h a) = int j" "a \<in> set (Cs ! j)"
      using hash_ok_bucket [OF ok, of a] a(1) sub by blast
    ultimately show False using i(2) disj by auto
  qed
  have dist: "distinct (concat Cs)" using ok by (simp add: hash_ok_def)
  have "map_of (?e (concat (take i Cs))) k = None" "map_of (?e (concat (drop (Suc i) Cs))) k = None"
    by (intro map_of_eq_None_notin off;
        use dist in \<open>auto simp: concat_split_nth [OF i(1)] dest: in_set_takeD in_set_dropD\<close>)+
  then show ?thesis
    unfolding entries_def concat_split_nth [OF i(1)] by (simp add: map_add_def split: option.split)
qed

lemma find_rec_map_of:
  "\<forall>a \<in> set as. \<exists>n. cells h a = Some n \<Longrightarrow>
   (case find (\<lambda>a. key_at h a = k) as of
      None \<Rightarrow> Some (HASH_STATUS_KEY_NOT_FOUND, None)
    | Some a \<Rightarrow> Option.bind (hread h a) (\<lambda>n. Some (HASH_STATUS_OK, Some (node_rec n)))) =
   Some (case map_of (map (\<lambda>a. (key_at h a, rec_at h a)) as) k of
      None \<Rightarrow> (HASH_STATUS_KEY_NOT_FOUND, None) | Some v \<Rightarrow> (HASH_STATUS_OK, Some v))"
  by (induction as) (auto simp: hread_def rec_at_def)

subsection \<open>Emptying a table\<close>

lemma hash_delete_all_spec:
  assumes ok: "hash_ok T h Cs"
  shows "\<exists>T'. hash_delete_all T h = Some (T', drop_cells h (set (concat Cs))) \<and>
     table_fns T' = table_fns T \<and> hash_ok T' (drop_cells h (set (concat Cs))) (replicate (length Cs) [])"
proof -
  have len: "length (table T) = length Cs" "hsize T = length Cs" using ok by (auto simp: hash_ok_def)
  obtain T' where T': "delete_buckets T h [0..<hsize T] =
        Some (T', drop_cells h (\<Union>i \<in> set [0..<hsize T]. set (Cs ! i)))"
      "table_fns T' = table_fns T" "length (table T') = length (table T)"
      "\<forall>i < length Cs. table T' ! i = (if i \<in> set [0..<hsize T] then None else table T ! i)"
    using delete_buckets_spec [of T Cs "[0..<hsize T]" h] ok len by (auto simp: hash_ok_def)
  have all: "(\<Union>i \<in> set [0..<hsize T]. set (Cs ! i)) = set (concat Cs)"
    unfolding len(2) by (force simp: in_set_conv_nth)
  have "hash_ok T' (drop_cells h (set (concat Cs))) (replicate (length Cs) [])"
    using T'(2-4) ok len by (auto simp: hash_ok_def table_fns_def heap_ok_def)
  with T' show ?thesis unfolding hash_delete_all_def all by blast
qed

lemma hash_ok_initialise:
  "hash_ok (hash_initialise T) heap_empty (replicate (hsize T) [])"
  by (auto simp: hash_ok_def hash_initialise_def)

lemma entries_replicate [simp]: "entries h (replicate n []) = []"
  by (simp add: entries_def)

subsection \<open>The way clients drive a table\<close>

text \<open>
  The pattern of iftop.c and resolver.c: look the key up and insert only when it is absent
  (\<open>hash_put\<close>), delete by key, or empty the table. \<open>hash_walk\<close> is the loop
  \<open>while (hash_next_item(t, &n) == HASH_STATUS_OK)\<close>, which visits the nodes.
\<close>

datatype ('k, 'v) hash_op = HPut 'k 'v | HDelete 'k | HClear

definition hash_put ::
  "'k hash_type \<Rightarrow> ('k, 'v) node_heap \<Rightarrow> 'k \<Rightarrow> 'v \<Rightarrow> ('k hash_type \<times> ('k, 'v) node_heap) option" where
  "hash_put T h key rec = do {
     (st, _) \<leftarrow> hash_find T h key;
     if st = HASH_STATUS_KEY_NOT_FOUND
     then do { (_, T', h') \<leftarrow> hash_insert T h key rec; Some (T', h') }
     else Some (T, h)
   }"

fun hash_step ::
  "('k, 'v) hash_op \<Rightarrow> 'k hash_type \<times> ('k, 'v) node_heap \<Rightarrow> ('k hash_type \<times> ('k, 'v) node_heap) option"
where
  "hash_step (HPut k v) (T, h) = hash_put T h k v"
| "hash_step (HDelete k) (T, h) = do { (_, T', h') \<leftarrow> hash_delete T h k; Some (T', h') }"
| "hash_step HClear (T, h) = hash_delete_all T h"

fun hash_run ::
  "('k, 'v) hash_op list \<Rightarrow> 'k hash_type \<times> ('k, 'v) node_heap \<Rightarrow> ('k hash_type \<times> ('k, 'v) node_heap) option"
where
  "hash_run [] s = Some s"
| "hash_run (x # xs) s = do { s' \<leftarrow> hash_step x s; hash_run xs s' }"

partial_function (option) hash_walk ::
  "'k hash_type \<Rightarrow> ('k, 'v) node_heap \<Rightarrow> addr option \<Rightarrow> addr list option" where
  "hash_walk T h p =
     Option.bind (hash_next_item T h p) (\<lambda>(st, q).
       if st = HASH_STATUS_OK then
         (case q of None \<Rightarrow> None
          | Some a \<Rightarrow> Option.bind (hash_walk T h q) (\<lambda>as. Some (a # as)))
       else Some [])"

text \<open>The abstract table: a finite map.\<close>

fun map_step :: "('k, 'v) hash_op \<Rightarrow> ('k \<rightharpoonup> 'v) \<Rightarrow> ('k \<rightharpoonup> 'v)" where
  "map_step (HPut k v) m = (if m k = None then m(k \<mapsto> v) else m)"
| "map_step (HDelete k) m = m(k := None)"
| "map_step HClear m = Map.empty"

fun map_run :: "('k, 'v) hash_op list \<Rightarrow> ('k \<rightharpoonup> 'v) \<Rightarrow> ('k \<rightharpoonup> 'v)" where
  "map_run [] m = m"
| "map_run (x # xs) m = map_run xs (map_step x m)"

fun op_key_ok :: "('k \<Rightarrow> bool) \<Rightarrow> ('k, 'v) hash_op \<Rightarrow> bool" where
  "op_key_ok valid (HPut k v) = valid k"
| "op_key_ok valid (HDelete k) = valid k"
| "op_key_ok valid HClear = True"

lemma hash_walk_suffix:
  "hash_ok T h Cs \<Longrightarrow> concat Cs = xs @ a # ys \<Longrightarrow> hash_walk T h (Some a) = Some ys"
proof (induction ys arbitrary: xs a)
  case Nil
  then show ?case by (subst hash_walk.simps) (simp add: hash_next_item_step first_of_def)
next
  case (Cons b ys)
  then have "hash_walk T h (Some b) = Some ys" by (intro Cons.IH [of "xs @ [a]"]) simp_all
  with Cons.prems show ?case
    by (subst hash_walk.simps) (simp add: hash_next_item_step first_of_def)
qed

lemma hash_walk_all: "hash_ok T h Cs \<Longrightarrow> hash_walk T h None = Some (concat Cs)"
  by (subst hash_walk.simps, cases "concat Cs")
    (simp_all add: hash_next_item_first first_of_def hash_walk_suffix [of T h Cs "[]"]
      del: concat_eq_Nil_conv)

text \<open>What the walk yields on a live table: every node is read back as a key and a record.\<close>

definition hash_items ::
  "'k hash_type \<Rightarrow> ('k, 'v) node_heap \<Rightarrow> ('k \<times> 'v) list option" where
  "hash_items T h = map_option (map (\<lambda>a. (key_at h a, rec_at h a))) (hash_walk T h None)"

lemma hash_items_entries: "hash_ok T h Cs \<Longrightarrow> hash_items T h = Some (entries h Cs)"
  by (simp add: hash_items_def hash_walk_all entries_def)

subsection \<open>The contract with the key types\<close>

text \<open>
  What hash.c needs of the functions a table was created with: on the keys the client uses,
  \<open>compare\<close> is equality, \<open>hash\<close> stays inside the table, and \<open>copy_key\<close> copies. Each of
  addr_hash.c, ns_hash.c and serv_hash.c provides them; the interpretations are in their theories.
\<close>

locale hash_keys =
  fixes cmp :: "'k \<Rightarrow> 'k \<Rightarrow> bool"
    and hsh :: "'k \<Rightarrow> int"
    and cpy :: "'k \<Rightarrow> 'k"
    and sz :: nat
    and valid :: "'k \<Rightarrow> bool"
  assumes cmp_eq: "valid a \<Longrightarrow> valid b \<Longrightarrow> cmp a b \<longleftrightarrow> a = b"
    and hsh_bound: "valid a \<Longrightarrow> 0 \<le> hsh a \<and> hsh a < int sz"
    and cpy_id: "cpy a = a"
begin

lemma bucket_of:
  assumes "table_fns T = (cmp, hsh, cpy, sz)" and "hash_ok T h Cs" and "valid k"
  obtains b where "hash_fn T k = int b" "b < length Cs" "length Cs = length (table T)"
  using assms hsh_bound [of k] that [of "nat (hsh k)"]
  by (auto simp: table_fns_def hash_ok_def)

lemma find_map:
  assumes fns: "table_fns T = (cmp, hsh, cpy, sz)" and ok: "hash_ok T h Cs"
    and kv: "keys_ok valid h Cs" and k: "valid k"
  shows "hash_find T h k = Some (case map_of (entries h Cs) k of
     None \<Rightarrow> (HASH_STATUS_KEY_NOT_FOUND, None) | Some v \<Rightarrow> (HASH_STATUS_OK, Some v))"
proof -
  obtain b where b: "hash_fn T k = int b" "b < length Cs" "length Cs = length (table T)"
    using bucket_of [OF fns ok k] .
  have ch: "chain h (table T ! b) (Cs ! b)" using ok b by (simp add: hash_ok_def)
  have "cmp (key_at h a) k \<longleftrightarrow> key_at h a = k" if "a \<in> set (Cs ! b)" for a
    using kv k in_concat_nth [OF b(2) that] by (intro cmp_eq) (auto simp: keys_ok_def)
  then have "find (\<lambda>a. cmp (key_at h a) k) (Cs ! b) = find (\<lambda>a. key_at h a = k) (Cs ! b)"
    by (auto intro: find_cong)
  then have "hash_find T h k = (case find (\<lambda>a. key_at h a = k) (Cs ! b) of
      None \<Rightarrow> Some (HASH_STATUS_KEY_NOT_FOUND, None)
    | Some a \<Rightarrow> Option.bind (hread h a) (\<lambda>n. Some (HASH_STATUS_OK, Some (node_rec n))))"
    using fns b by (simp add: hash_find_def table_get_in find_loop_chain [OF ch] table_fns_def)
  also have "\<dots> = Some (case map_of (map (\<lambda>a. (key_at h a, rec_at h a)) (Cs ! b)) k of
     None \<Rightarrow> (HASH_STATUS_KEY_NOT_FOUND, None) | Some v \<Rightarrow> (HASH_STATUS_OK, Some v))"
    using chain_live [OF ch] by (intro find_rec_map_of) blast
  finally show ?thesis by (simp add: map_of_bucket [OF ok b(2,1)])
qed

lemma insert_map:
  assumes fns: "table_fns T = (cmp, hsh, cpy, sz)" and ok: "hash_ok T h Cs"
    and kv: "keys_ok valid h Cs" and k: "valid k"
  shows "\<exists>T' h' Cs'. hash_insert T h k v = Some (HASH_STATUS_OK, T', h') \<and>
     hash_ok T' h' Cs' \<and> keys_ok valid h' Cs' \<and> table_fns T' = table_fns T \<and>
     map_of (entries h' Cs') = (map_of (entries h Cs))(k \<mapsto> v) \<and>
     mset (entries h' Cs') = add_mset (k, v) (mset (entries h Cs))"
proof -
  obtain b where b: "hash_fn T k = int b" "b < length Cs" "length Cs = length (table T)"
    using bucket_of [OF fns ok k] .
  have cp: "copy_key_fn T k = k" using fns cpy_id by (simp add: table_fns_def)
  let ?Cs' = "Cs[b := brk h # Cs ! b]"
  obtain T' h' where run: "hash_insert T h k v = Some (HASH_STATUS_OK, T', h')"
    and ok': "hash_ok T' h' ?Cs'" and fns': "table_fns T' = table_fns T"
    and h': "cells h' = (cells h)(brk h \<mapsto> \<lparr>node_next = table T ! b, node_key = k, node_rec = v\<rparr>)"
    using hash_insert_spec [OF ok b(1,2) cp] by blast
  have old: "key_at h' a = key_at h a" "rec_at h' a = rec_at h a" if "a \<in> set (concat Cs)" for a
    using hash_ok_less_brk [OF ok that] h' by (auto simp: key_at_def rec_at_def)
  have new: "key_at h' (brk h) = k" "rec_at h' (brk h) = v" using h' by (auto simp: key_at_def rec_at_def)
  have same: "map (\<lambda>a. (key_at h' a, rec_at h' a)) as = map (\<lambda>a. (key_at h a, rec_at h a)) as"
    if "set as \<subseteq> set (concat Cs)" for as
    using that old by (auto simp del: set_concat)
  have parts: "set (concat (take b Cs)) \<subseteq> set (concat Cs)" "set (Cs ! b) \<subseteq> set (concat Cs)"
      "set (concat (drop (Suc b) Cs)) \<subseteq> set (concat Cs)"
    unfolding concat_split_nth [OF b(2)] by auto
  have ents: "entries h' ?Cs' = map (\<lambda>a. (key_at h a, rec_at h a)) (concat (take b Cs)) @
      (k, v) # map (\<lambda>a. (key_at h a, rec_at h a)) (Cs ! b @ concat (drop (Suc b) Cs))"
    unfolding entries_def concat_upd_split [OF b(2)]
    by (simp add: same parts new del: set_concat map_concat)
  have "keys_ok valid h' ?Cs'"
    using kv old new k unfolding keys_ok_def concat_upd_split [OF b(2)] concat_split_nth [OF b(2)]
    by auto
  moreover have "map_of (entries h' ?Cs') k' = ((map_of (entries h Cs))(k \<mapsto> v)) k'" for k'
  proof (cases "k' = k")
    case True
    have "map_of (entries h' ?Cs') k = map_of (map (\<lambda>a. (key_at h' a, rec_at h' a)) (?Cs' ! b)) k"
      using b fns fns' by (intro map_of_bucket [OF ok']) (auto simp: table_fns_def)
    with True b(2) new show ?thesis by simp
  next
    case False
    then show ?thesis
      unfolding ents by (simp add: entries_def concat_split_nth [OF b(2)] map_add_def split: option.split)
  qed
  moreover have "mset (entries h' ?Cs') = add_mset (k, v) (mset (entries h Cs))"
    unfolding ents by (simp add: entries_def concat_split_nth [OF b(2)])
  ultimately show ?thesis using run ok' fns' by blast
qed

lemma delete_node:
  assumes fns: "table_fns T = (cmp, hsh, cpy, sz)" and ok: "hash_ok T h Cs"
    and kv: "keys_ok valid h Cs" and kd: "keys_distinct h Cs" and a: "a \<in> set (concat Cs)"
  shows "\<exists>T' h' Cs'. hash_delete T h (key_at h a) = Some (HASH_STATUS_OK, T', h') \<and>
     hash_ok T' h' Cs' \<and> keys_ok valid h' Cs' \<and> keys_distinct h' Cs' \<and> table_fns T' = table_fns T \<and>
     concat Cs' = remove1 a (concat Cs) \<and> cells h' a = None \<and>
     (\<forall>x. x \<noteq> a \<longrightarrow> key_at h' x = key_at h x \<and> rec_at h' x = rec_at h x)"
proof -
  have ceq: "compare_fn T (key_at h x) (key_at h a) \<longleftrightarrow> key_at h x = key_at h a"
    if "x \<in> set (concat Cs)" for x
    using fns kv a that cmp_eq by (auto simp: table_fns_def keys_ok_def)
  have inj: "x = a" if "x \<in> set (concat Cs)" "key_at h x = key_at h a" for x
    using kd a that unfolding keys_distinct_def distinct_map by (auto dest: inj_onD)
  obtain T' h' Cs' where D: "hash_delete T h (key_at h a) = Some (HASH_STATUS_OK, T', h')"
      "hash_ok T' h' Cs'" "concat Cs' = remove1 a (concat Cs)" "cells h' a = None"
      "table_fns T' = table_fns T"
      "\<forall>x. x \<noteq> a \<longrightarrow> key_at h' x = key_at h x \<and> rec_at h' x = rec_at h x"
    using hash_delete_spec [OF ok a, of "key_at h a"] ceq [OF a] ceq inj by blast
  have dist: "distinct (concat Cs)" using ok by (simp add: hash_ok_def)
  then have sub: "set (concat Cs') = set (concat Cs) - {a}" unfolding D(3) by (rule set_remove1_eq)
  have keys: "map (key_at h') (concat Cs') = map (key_at h) (concat Cs')"
    using sub D(6) by (auto simp del: set_concat)
  have "keys_ok valid h' Cs'" using kv sub D(6) unfolding keys_ok_def by auto
  moreover have "keys_distinct h' Cs'"
  proof -
    have "inj_on (key_at h) (set (concat Cs'))"
      using kd unfolding keys_distinct_def distinct_map sub by (blast intro: inj_on_subset)
    moreover have "distinct (concat Cs')" unfolding D(3) by (rule distinct_remove1 [OF dist])
    ultimately show ?thesis unfolding keys_distinct_def keys distinct_map by blast
  qed
  ultimately show ?thesis using D by blast
qed

lemma delete_absent:
  assumes fns: "table_fns T = (cmp, hsh, cpy, sz)" and ok: "hash_ok T h Cs"
    and kv: "keys_ok valid h Cs" and k: "valid k" and none: "map_of (entries h Cs) k = None"
  shows "hash_delete T h k = Some (HASH_STATUS_KEY_NOT_FOUND, T, h)"
proof -
  obtain b where b: "hash_fn T k = int b" "b < length Cs" "length Cs = length (table T)"
    using bucket_of [OF fns ok k] .
  have ch: "chain h (table T ! b) (Cs ! b)" using ok b by (simp add: hash_ok_def)
  have "\<not> compare_fn T (key_at h a) k" if "a \<in> set (Cs ! b)" for a
  proof -
    have a: "a \<in> set (concat Cs)" by (rule in_concat_nth [OF b(2) that])
    then have "key_at h a \<in> fst ` set (entries h Cs)"
      by (force simp: entries_def simp del: set_concat)
    then have "key_at h a \<noteq> k" using none by (metis map_of_eq_None_iff)
    moreover have "cmp (key_at h a) k \<longleftrightarrow> key_at h a = k"
      using kv k a by (intro cmp_eq) (auto simp: keys_ok_def)
    ultimately show ?thesis using fns by (simp add: table_fns_def)
  qed
  then obtain q where "delete_loop (compare_fn T) h k None (table T ! b) = Some (q, None)"
    using delete_loop_absent [OF ch] by blast
  with b show ?thesis by (simp add: hash_delete_def table_get_in)
qed

text \<open>The invariant a table of the contract keeps, and the refinement of finite maps.\<close>

definition table_inv :: "'k hash_type \<Rightarrow> ('k, 'v) node_heap \<Rightarrow> addr list list \<Rightarrow> bool" where
  "table_inv T h Cs \<longleftrightarrow> table_fns T = (cmp, hsh, cpy, sz) \<and> hash_ok T h Cs \<and>
     keys_ok valid h Cs \<and> keys_distinct h Cs"

lemma find_inv:
  "table_inv T h Cs \<Longrightarrow> valid k \<Longrightarrow> hash_find T h k = Some (case map_of (entries h Cs) k of
     None \<Rightarrow> (HASH_STATUS_KEY_NOT_FOUND, None) | Some v \<Rightarrow> (HASH_STATUS_OK, Some v))"
  unfolding table_inv_def using find_map by blast

lemma keys_distinct_entries: "keys_distinct h Cs \<longleftrightarrow> distinct (map fst (entries h Cs))"
  by (simp add: keys_distinct_def entries_def comp_def)

lemma insert_inv:
  assumes I: "table_inv T h Cs" and k: "valid k" and new: "map_of (entries h Cs) k = None"
  shows "\<exists>T' h' Cs'. hash_insert T h k v = Some (HASH_STATUS_OK, T', h') \<and> table_inv T' h' Cs' \<and>
     map_of (entries h' Cs') = (map_of (entries h Cs))(k \<mapsto> v)"
proof -
  obtain T' h' Cs' where J: "hash_insert T h k v = Some (HASH_STATUS_OK, T', h')"
      "hash_ok T' h' Cs'" "keys_ok valid h' Cs'" "table_fns T' = table_fns T"
      "map_of (entries h' Cs') = (map_of (entries h Cs))(k \<mapsto> v)"
      "mset (entries h' Cs') = add_mset (k, v) (mset (entries h Cs))"
    using insert_map [of T h Cs k v] I k unfolding table_inv_def by blast
  have "mset (map fst (entries h' Cs')) = mset (map fst ((k, v) # entries h Cs))"
    using J(6) by simp
  moreover have "k \<notin> fst ` set (entries h Cs)" using new by (simp add: map_of_eq_None_iff)
  then have "distinct (map fst ((k, v) # entries h Cs))"
    using I by (simp add: table_inv_def keys_distinct_entries)
  ultimately have "keys_distinct h' Cs'"
    unfolding keys_distinct_entries by (metis mset_eq_imp_distinct_iff)
  with I J show ?thesis unfolding table_inv_def by auto
qed

lemma put_inv:
  assumes "table_inv T h Cs" and "valid k"
  shows "\<exists>T' h' Cs'. hash_put T h k v = Some (T', h') \<and> table_inv T' h' Cs' \<and>
     map_of (entries h' Cs') = map_step (HPut k v) (map_of (entries h Cs))"
proof (cases "map_of (entries h Cs) k")
  case None
  with find_inv [OF assms] insert_inv [OF assms None, of v] show ?thesis
    by (auto simp: hash_put_def)
next
  case (Some w)
  with find_inv [OF assms] assms show ?thesis by (auto simp: hash_put_def)
qed

lemma delete_inv:
  assumes I: "table_inv T h Cs" and k: "valid k"
  shows "\<exists>st T' h' Cs'. hash_delete T h k = Some (st, T', h') \<and> table_inv T' h' Cs' \<and>
     st = (if map_of (entries h Cs) k = None then HASH_STATUS_KEY_NOT_FOUND else HASH_STATUS_OK) \<and>
     map_of (entries h' Cs') = (map_of (entries h Cs))(k := None)"
proof (cases "map_of (entries h Cs) k")
  case None
  with I k delete_absent [of T h Cs k] show ?thesis unfolding table_inv_def
    by (auto simp: fun_upd_idem)
next
  case (Some w)
  then have "(k, w) \<in> set (entries h Cs)" by (rule map_of_SomeD)
  then obtain a where a: "a \<in> set (concat Cs)" "key_at h a = k"
    unfolding entries_def by auto
  obtain T' h' Cs' where D: "hash_delete T h (key_at h a) = Some (HASH_STATUS_OK, T', h')"
      "hash_ok T' h' Cs'" "keys_ok valid h' Cs'" "keys_distinct h' Cs'" "table_fns T' = table_fns T"
      "concat Cs' = remove1 a (concat Cs)"
      "\<forall>x. x \<noteq> a \<longrightarrow> key_at h' x = key_at h x \<and> rec_at h' x = rec_at h x"
    using delete_node [of T h Cs a] I a(1) unfolding table_inv_def by blast
  have I': "table_inv T' h' Cs'" using I D unfolding table_inv_def by simp
  obtain xs ys where split: "concat Cs = xs @ a # ys" using split_list [OF a(1)] by blast
  have dist: "distinct (xs @ a # ys)" using I split by (simp add: table_inv_def hash_ok_def)
  have "concat Cs' = xs @ ys" using D(6) dist split by (simp add: remove1_append)
  then have ent: "entries h' Cs' = map (\<lambda>a. (key_at h a, rec_at h a)) (xs @ ys)"
    unfolding entries_def using dist D(7) by auto
  have "distinct (map (key_at h) (xs @ a # ys))"
    using I split by (simp add: table_inv_def keys_distinct_def)
  then have off: "k \<notin> key_at h ` set xs" "k \<notin> key_at h ` set ys" using a(2) by auto
  have "map_of (entries h' Cs') = (map_of (entries h Cs))(k := None)"
    unfolding ent entries_def [of h Cs] split using off a(2)
    by (simp add: image_image map_of_remove_mid [where v = "rec_at h a"] del: map_of_append)
  with D(1) I' a(2) Some show ?thesis by auto
qed

lemma clear_inv:
  assumes "table_inv T h Cs"
  shows "\<exists>T' h' Cs'. hash_delete_all T h = Some (T', h') \<and> table_inv T' h' Cs' \<and> entries h' Cs' = []"
  using hash_delete_all_spec [of T h Cs] assms
  by (force simp: table_inv_def keys_ok_def keys_distinct_def)

lemma step_inv:
  assumes I: "table_inv T h Cs" and x: "op_key_ok valid x"
  shows "\<exists>T' h' Cs'. hash_step x (T, h) = Some (T', h') \<and> table_inv T' h' Cs' \<and>
     map_of (entries h' Cs') = map_step x (map_of (entries h Cs))"
proof (cases x)
  case (HPut k v)
  with x put_inv [OF I, of k v] show ?thesis by auto
next
  case (HDelete k)
  with I x delete_inv [OF I, of k] show ?thesis by auto
next
  case HClear
  with clear_inv [OF I] show ?thesis by auto
qed

lemma run_inv:
  "table_inv T h Cs \<Longrightarrow> list_all (op_key_ok valid) xs \<Longrightarrow>
   \<exists>T' h' Cs'. hash_run xs (T, h) = Some (T', h') \<and> table_inv T' h' Cs' \<and>
     map_of (entries h' Cs') = map_run xs (map_of (entries h Cs))"
proof (induction xs arbitrary: T h Cs)
  case Nil
  then show ?case by auto
next
  case (Cons x xs)
  then obtain T' h' Cs' where "hash_step x (T, h) = Some (T', h')" "table_inv T' h' Cs'"
      "map_of (entries h' Cs') = map_step x (map_of (entries h Cs))"
    using step_inv [of T h Cs x] by auto
  with Cons show ?case by fastforce
qed

lemma create_inv:
  "table_fns T = (cmp, hsh, cpy, sz) \<Longrightarrow> table_inv (hash_initialise T) heap_empty (replicate sz [])"
  using hash_ok_initialise [of T]
  by (auto simp: table_inv_def keys_ok_def keys_distinct_def table_fns_def hash_initialise_def)

text \<open>A fresh table, driven by any sequence of operations on valid keys: no operation faults,
  lookups agree with the finite map, and a walk lists each binding of the map exactly once.\<close>

lemma run_refines:
  assumes "table_fns T = (cmp, hsh, cpy, sz)" and "list_all (op_key_ok valid) xs"
  shows "\<exists>T' h'. hash_run xs (hash_initialise T, heap_empty) = Some (T', h') \<and>
     (\<forall>k. valid k \<longrightarrow> hash_find T' h' k = Some (case map_run xs Map.empty k of
        None \<Rightarrow> (HASH_STATUS_KEY_NOT_FOUND, None) | Some v \<Rightarrow> (HASH_STATUS_OK, Some v))) \<and>
     (\<exists>es. hash_items T' h' = Some es \<and> distinct (map fst es) \<and> map_of es = map_run xs Map.empty)"
proof -
  obtain T' h' Cs' where R: "hash_run xs (hash_initialise T, heap_empty) = Some (T', h')"
      "table_inv T' h' Cs'" "map_of (entries h' Cs') = map_run xs Map.empty"
    using run_inv [OF create_inv [OF assms(1)] assms(2)] by auto
  then have "hash_items T' h' = Some (entries h' Cs')" "distinct (map fst (entries h' Cs'))"
    by (auto simp: table_inv_def hash_items_entries keys_distinct_entries)
  with R find_inv show ?thesis by fastforce
qed

end

end
