(* ===== verification/AddrHash.thy ===== *)
theory AddrHash
  imports Hash "HOL-Library.Signed_Division"
begin

text \<open>
  addr_hash.c and addr_hash.h: the table of traffic histories, keyed by protocol, source and
  destination. Addresses are \<open>s_addr\<close> values as they stand in memory (network byte order read by
  a little-endian host). The key functions satisfy the contract \<open>hash_keys\<close> on every key, so the
  table is a finite map from address pairs.
\<close>

record addr_pair =
  protocol :: u16
  src_port :: u16
  src :: u32
  dst_port :: u16
  dst :: u32

definition addr_hash_table_size :: nat where
  "addr_hash_table_size = 4096"

text \<open>The type is named \<open>compare\<close> in the source.\<close>

definition compare :: "addr_pair \<Rightarrow> addr_pair \<Rightarrow> bool" where
  "compare aa bb \<longleftrightarrow> src aa = src bb
     \<and> src_port aa = src_port bb
     \<and> dst aa = dst bb
     \<and> dst_port aa = dst_port bb
     \<and> protocol aa = protocol bb"

definition hash_uint32 :: "u32 \<Rightarrow> int" where
  "hash_uint32 n = uint ((n AND 0x000000FF)
     + drop_bit 8 (n AND 0x0000FF00)
     + drop_bit 16 (n AND 0x00FF0000)
     + drop_bit 24 (n AND 0xFF000000))"

definition hash :: "addr_pair \<Rightarrow> int" where
  "hash ap =
     (let h = (hash_uint32 (src ap) + uint (src_port ap)) smod 0xFFF
      in (h + hash_uint32 (dst ap) + uint (dst_port ap)) smod 0xFFF)"

definition copy_key :: "addr_pair \<Rightarrow> addr_pair" where
  "copy_key orig = orig"

definition addr_hash_create :: "addr_pair hash_type" where
  "addr_hash_create = hash_initialise
     \<lparr>compare_fn = compare, hash_fn = hash, copy_key_fn = copy_key, table = [], hsize = addr_hash_table_size\<rparr>"

lemma compare_eq: "compare a b \<longleftrightarrow> a = b"
  by (cases a; cases b) (auto simp: compare_def)

lemma hash_uint32_nonneg [simp]: "0 \<le> hash_uint32 n"
  by (simp add: hash_uint32_def)

lemma smod_nonneg_eq: "0 \<le> (a::int) \<Longrightarrow> 0 < b \<Longrightarrow> a smod b = a mod b"
  by (simp add: signed_modulo_int_def sgn_if)

lemma hash_range: "0 \<le> hash ap \<and> hash ap < 0xFFF"
proof -
  define h where "h = (hash_uint32 (src ap) + uint (src_port ap)) smod 0xFFF"
  have "0 \<le> h" unfolding h_def by (subst smod_nonneg_eq) auto
  then have "hash ap = (h + hash_uint32 (dst ap) + uint (dst_port ap)) mod 0xFFF"
    by (simp add: hash_def h_def [symmetric] smod_nonneg_eq)
  then show ?thesis by simp
qed

interpretation addr_table: hash_keys compare hash copy_key addr_hash_table_size "\<lambda>_. True"
proof unfold_locales
  fix a
  show "0 \<le> hash a \<and> hash a < int addr_hash_table_size"
    using hash_range [of a] by (simp add: addr_hash_table_size_def)
qed (simp_all add: compare_eq copy_key_def)

lemma op_key_ok_True [simp]: "op_key_ok (\<lambda>_. True) x"
  by (cases x) auto

lemma addr_hash_create_fns:
  "table_fns \<lparr>compare_fn = compare, hash_fn = hash, copy_key_fn = copy_key, table = [],
     hsize = addr_hash_table_size\<rparr> = (compare, hash, copy_key, addr_hash_table_size)"
  by (simp add: table_fns_def)

lemma addr_hash_create_inv:
  "addr_table.table_inv addr_hash_create heap_empty (replicate addr_hash_table_size [])"
  unfolding addr_hash_create_def by (rule addr_table.create_inv [OF addr_hash_create_fns])

text \<open>C7. The history table is a finite map from address pairs: after any sequence of inserts of
  absent keys, deletions and clearings on a table fresh from \<open>addr_hash_create\<close>, no access has
  faulted, \<open>hash_find\<close> returns what the map holds for every key, and the loop over
  \<open>hash_next_item\<close> visits every binding of the map exactly once.\<close>

theorem addr_hash_refines_map:
  "\<exists>T h. hash_run ops (addr_hash_create, heap_empty) = Some (T, h) \<and>
     (\<forall>k. hash_find T h k = Some (case map_run ops Map.empty k of
        None \<Rightarrow> (HASH_STATUS_KEY_NOT_FOUND, None) | Some v \<Rightarrow> (HASH_STATUS_OK, Some v))) \<and>
     (\<exists>es. hash_items T h = Some es \<and> distinct (map fst es) \<and> map_of es = map_run ops Map.empty)"
  using addr_table.run_refines [OF addr_hash_create_fns, of ops] unfolding addr_hash_create_def
  by (simp add: list_all_iff)

end
