(* ===== verification/Packet.thy ===== *)
theory Packet
  imports AddrHash IftopApi
begin

text \<open>
  The packet side of iftop.c with the headers ip.h, tcp.h, ether.h, ethertype.h, sll.h, llc.h,
  token.h, ppp.h and extract.h. A captured packet is its list of bytes (\<open>caplen\<close> of them); a
  pointer into it is the remaining suffix, and a field read past its end is a fault. The link-layer
  handlers take the function they call, \<open>handle_ip_packet\<close>, as an argument; Iftop instantiates it.
\<close>

subsection \<open>Headers\<close>

record host =
  have_hw_addr :: int
  if_hw_addr :: "byte list"
  have_ip_addr :: int
  if_ip_addr :: u32
  have_ip6_addr :: int
  if_ip6_addr :: "byte list"

text \<open>\<open>struct ip\<close>: the offsets of the fields the code reads.\<close>

definition ip_vhl :: "byte list \<Rightarrow> u8 option" where "ip_vhl iptr = get8 iptr 0"
definition ip_len :: "byte list \<Rightarrow> u16 option" where "ip_len iptr = get16 iptr 2"
definition ip_p :: "byte list \<Rightarrow> u8 option" where "ip_p iptr = get8 iptr 9"
definition ip_src :: "byte list \<Rightarrow> u32 option" where "ip_src iptr = get32 iptr 12"
definition ip_dst :: "byte list \<Rightarrow> u32 option" where "ip_dst iptr = get32 iptr 16"

definition IP_HL :: "u8 \<Rightarrow> nat" where "IP_HL vhl = unat (vhl AND 0x0f)"

definition th_sport :: "byte list \<Rightarrow> u16 option" where "th_sport thdr = get16 thdr 0"
definition th_dport :: "byte list \<Rightarrow> u16 option" where "th_dport thdr = get16 thdr 2"

definition IPPROTO_TCP :: u8 where "IPPROTO_TCP = 6"
definition IPPROTO_UDP :: u8 where "IPPROTO_UDP = 17"

definition IN_MULTICAST :: "u32 \<Rightarrow> bool" where
  "IN_MULTICAST a \<longleftrightarrow> a AND 0xf0000000 = 0xe0000000"

definition EXTRACT_16BITS :: "byte list \<Rightarrow> u16 option" where
  "EXTRACT_16BITS p = map_option ntohs (get16 p 0)"

definition EXTRACT_24BITS :: "byte list \<Rightarrow> u32 option" where
  "EXTRACT_24BITS p = do { a \<leftarrow> get8 p 0; b \<leftarrow> get8 p 1; c \<leftarrow> get8 p 2;
     Some (push_bit 16 (ucast a) OR push_bit 8 (ucast b) OR ucast c) }"

subsection \<open>Direction and connection key\<close>

definition in_filter_net :: "options_t \<Rightarrow> u32 \<Rightarrow> bool" where
  "in_filter_net options addr \<longleftrightarrow> addr AND netfiltermask options = netfilternet options"

definition ip_addr_match :: "host \<Rightarrow> u32 \<Rightarrow> bool" where
  "ip_addr_match host addr \<longleftrightarrow> addr = if_ip_addr host"

definition ip6_addr_match :: "host \<Rightarrow> byte list \<Rightarrow> bool" where
  "ip6_addr_match host addr \<longleftrightarrow> addr = if_ip6_addr host"

definition assign_addr_pair :: "byte list \<Rightarrow> int \<Rightarrow> addr_pair option" where
  "assign_addr_pair iptr flip = do {
     p \<leftarrow> ip_p iptr;
     (sport, dport) \<leftarrow>
       (if p = IPPROTO_TCP \<or> p = IPPROTO_UDP then do {
          vhl \<leftarrow> ip_vhl iptr;
          let thdr = drop (IP_HL vhl * 4) iptr;
          s \<leftarrow> th_sport thdr;
          d \<leftarrow> th_dport thdr;
          Some (ntohs s, ntohs d) }
        else Some (0, 0));
     s \<leftarrow> ip_src iptr;
     d \<leftarrow> ip_dst iptr;
     Some (if flip = 0
       then \<lparr>protocol = 0, src_port = sport, src = s, dst_port = dport, dst = d\<rparr>
       else \<lparr>protocol = 0, src_port = dport, src = d, dst_port = sport, dst = s\<rparr>)
   }"

text \<open>The loop \<open>while (options.block_protocols[i] != -1)\<close> from the element the list starts
  with; running off the array is a fault. The result says whether the packet is blocked.\<close>

fun block_scan :: "int list \<Rightarrow> byte list \<Rightarrow> bool option" where
  "block_scan [] iptr = None"
| "block_scan (b # bs) iptr =
     (if b = -1 then Some False
      else do { p \<leftarrow> ip_p iptr; if uint p = b then Some True else block_scan bs iptr })"

text \<open>The index \<open>i\<close> the loop starts at is an uninitialised local variable.\<close>

definition block_loop :: "int list \<Rightarrow> int \<Rightarrow> byte list \<Rightarrow> bool option" where
  "block_loop blocks i iptr = (if i < 0 then None else block_scan (drop (nat i) blocks) iptr)"

text \<open>The assignment of key and direction: \<open>None\<close> inside is the early return that drops the
  packet; the direction is 1 for outgoing and 0 for incoming.\<close>

definition mac_direction ::
  "options_t \<Rightarrow> host \<Rightarrow> int \<Rightarrow> byte list \<Rightarrow> (addr_pair \<times> int) option option" where
  "mac_direction options host hw_dir iptr =
     (let assign = (\<lambda>flip dir. map_option (\<lambda>ap. Some (ap, dir)) (assign_addr_pair iptr flip))
      in if hw_dir = 1 then assign 0 1
         else if hw_dir = 0 then assign 1 0
         else do {
           s \<leftarrow> ip_src iptr;
           d \<leftarrow> ip_dst iptr;
           if have_ip_addr host \<noteq> 0 \<and> ip_addr_match host s then assign 0 1
           else if have_ip_addr host \<noteq> 0 \<and> ip_addr_match host d then assign 1 0
           else if IN_MULTICAST d then assign 1 0
           else if promiscuous_but_choosy options \<noteq> 0 then Some None
           else if s < d then assign 1 0
           else assign 0 0 })"

definition net_direction ::
  "options_t \<Rightarrow> byte list \<Rightarrow> (addr_pair \<times> int) option option" where
  "net_direction options iptr =
     (let assign = (\<lambda>flip dir. map_option (\<lambda>ap. Some (ap, dir)) (assign_addr_pair iptr flip))
      in do {
        s \<leftarrow> ip_src iptr;
        d \<leftarrow> ip_dst iptr;
        if in_filter_net options s \<and> \<not> in_filter_net options d then assign 0 1
        else if in_filter_net options d \<and> \<not> in_filter_net options s then assign 1 0
        else Some None })"

definition direction_of ::
  "options_t \<Rightarrow> host \<Rightarrow> int \<Rightarrow> byte list \<Rightarrow> (addr_pair \<times> int) option option" where
  "direction_of options host hw_dir iptr =
     (if netfilter options = 0 then mac_direction options host hw_dir iptr
      else net_direction options iptr)"

text \<open>The router rule, the dynamic port rule and the port list; \<open>None\<close> inside drops the
  packet.\<close>

definition port_rules :: "int list \<Rightarrow> addr_pair \<Rightarrow> addr_pair option option" where
  "port_rules port_list ap =
     (if src ap = ROUTER_ADDR then Some None
      else if dst_port ap \<ge> 49152 \<and> dst_port ap \<le> 65535 then Some (Some (ap\<lparr>dst_port := 0\<rparr>))
      else do {
        a \<leftarrow> in_port_list port_list PORT_LIST_LEN (uint (src_port ap));
        if a \<noteq> 0 then Some None
        else do {
          b \<leftarrow> in_port_list port_list PORT_LIST_LEN (uint (dst_port ap));
          if b \<noteq> 0 then Some None else Some (Some ap) } })"

text \<open>Lines 390 to 511 of \<open>handle_ip_packet\<close>: from a packet to its connection and direction.\<close>

definition packet_key ::
  "options_t \<Rightarrow> host \<Rightarrow> int list \<Rightarrow> int \<Rightarrow> byte list \<Rightarrow> int \<Rightarrow> (addr_pair \<times> int) option option" where
  "packet_key options host port_list i iptr hw_dir = do {
     blocked \<leftarrow> block_loop (block_protocols options) i iptr;
     if blocked then Some None
     else do {
       r \<leftarrow> direction_of options host hw_dir iptr;
       (case r of None \<Rightarrow> Some None
        | Some (ap, direction) \<Rightarrow> do {
            p \<leftarrow> ip_p iptr;
            k \<leftarrow> port_rules port_list (ap\<lparr>protocol := ucast p\<rparr>);
            Some (map_option (\<lambda>ap. (ap, direction)) k) })
     }
   }"

subsection \<open>Link-layer handlers\<close>

type_synonym 'w ip_handler = "byte list \<Rightarrow> int \<Rightarrow> 'w \<Rightarrow> 'w option"

definition handle_raw_packet :: "'w ip_handler \<Rightarrow> byte list \<Rightarrow> 'w \<Rightarrow> 'w option" where
  "handle_raw_packet handle_ip packet w = handle_ip packet (-1) w"

text \<open>\<open>BPF_WORDALIGN\<close> is a macro of the pcap library: a parameter.\<close>

definition handle_pflog_packet ::
  "(nat \<Rightarrow> nat) \<Rightarrow> 'w ip_handler \<Rightarrow> byte list \<Rightarrow> 'w \<Rightarrow> 'w option" where
  "handle_pflog_packet BPF_WORDALIGN handle_ip packet w = do {
     len \<leftarrow> get8 packet 0;
     let hdrlen = BPF_WORDALIGN (unat len);
     handle_ip (drop hdrlen packet) (-1) w
   }"

definition handle_null_packet :: "'w ip_handler \<Rightarrow> byte list \<Rightarrow> 'w \<Rightarrow> 'w option" where
  "handle_null_packet handle_ip packet w = handle_ip (drop 4 packet) (-1) w"

definition LLCSAP_SNAP :: u8 where "LLCSAP_SNAP = 0xaa"
definition LLC_UI :: u8 where "LLC_UI = 0x03"
definition OUI_ENCAP_ETHER :: u32 where "OUI_ENCAP_ETHER = 0x000000"
definition OUI_CISCO_90 :: u32 where "OUI_CISCO_90 = 0x0000f8"
definition OUI_APPLETALK :: u32 where "OUI_APPLETALK = 0x080007"
definition ETHERTYPE_ATALK :: u16 where "ETHERTYPE_ATALK = 0x809b"
definition ETHERTYPE_8021Q :: u16 where "ETHERTYPE_8021Q = 0x8100"
definition ETHERTYPE_IPV6 :: u16 where "ETHERTYPE_IPV6 = 0x86dd"
definition ETHERTYPE_IP :: u16 where "ETHERTYPE_IP = 0x0800"

text \<open>\<open>struct llc\<close> is 8 bytes: dsap, ssap, the control byte, 3 bytes of organisation code and 2 of
  ethertype. The \<open>&&\<close> tests ssap first.\<close>

definition handle_llc_packet :: "'w ip_handler \<Rightarrow> byte list \<Rightarrow> int \<Rightarrow> 'w \<Rightarrow> 'w option" where
  "handle_llc_packet handle_ip llc dir w = do {
     let ip = drop 8 llc;
     ssap \<leftarrow> get8 llc 1;
     snap \<leftarrow> (if ssap \<noteq> LLCSAP_SNAP then Some False
       else do {
         dsap \<leftarrow> get8 llc 0;
         if dsap \<noteq> LLCSAP_SNAP then Some False
         else map_option (\<lambda>llcui. llcui = LLC_UI) (get8 llc 2) });
     if snap then do {
       orgcode \<leftarrow> EXTRACT_24BITS (drop 3 llc);
       et0 \<leftarrow> get8 llc 6;
       et1 \<leftarrow> get8 llc 7;
       let et = (push_bit 8 (ucast et0) + ucast et1 :: u16);
       if orgcode = OUI_ENCAP_ETHER \<or> orgcode = OUI_CISCO_90 then handle_ip ip dir w
       else if orgcode = OUI_APPLETALK then
         (if et = ETHERTYPE_ATALK then handle_ip ip dir w else Some w)
       else Some w }
     else Some w
   }"

definition TOKEN_HDRLEN :: nat where "TOKEN_HDRLEN = 14"
definition TOKEN_FC_LLC :: u8 where "TOKEN_FC_LLC = 1"

definition broadcast_mac :: "byte list" where "broadcast_mac = replicate 6 0xFF"

definition handle_tokenring_packet ::
  "host \<Rightarrow> 'w ip_handler \<Rightarrow> byte list \<Rightarrow> 'w \<Rightarrow> 'w option" where
  "handle_tokenring_packet host handle_ip trp w = do {
     shost \<leftarrow> get_bytes trp 8 6;
     s0 \<leftarrow> get8 trp 8;
     rif \<leftarrow> (if s0 AND 0x80 \<noteq> 0
        then map_option (\<lambda>r. unat (drop_bit 8 (ntohs r AND 0x1f00))) (get16 trp 14)
        else Some 0);
     let packet = drop (rif + TOKEN_HDRLEN) trp;
     dhost \<leftarrow> get_bytes trp 2 6;
     let dir = (if shost = if_hw_addr host then 1
                else if dhost = if_hw_addr host \<or> dhost = broadcast_mac then 0 else -1);
     fc \<leftarrow> get8 trp 1;
     if drop_bit 6 (fc AND 0xC0) = TOKEN_FC_LLC then handle_llc_packet handle_ip packet dir w
     else Some w
   }"

definition PPP_ADDRESS :: u8 where "PPP_ADDRESS = 0xff"
definition PPP_IP :: u16 where "PPP_IP = 0x0021"

definition handle_ppp_packet :: "'w ip_handler \<Rightarrow> byte list \<Rightarrow> 'w \<Rightarrow> 'w option" where
  "handle_ppp_packet handle_ip packet w =
     (let caplen = length packet
      in if caplen < 2 then Some w
         else do {
           a \<leftarrow> get8 packet 0;
           if a = PPP_ADDRESS then
             if caplen < 4 then Some w
             else do {
               proto \<leftarrow> EXTRACT_16BITS (drop 2 packet);
               if proto = PPP_IP \<or> proto = ETHERTYPE_IP \<or> proto = ETHERTYPE_IPV6
               then handle_ip (drop 4 packet) (-1) w else Some w }
           else Some w })"

definition SLL_HDR_LEN :: nat where "SLL_HDR_LEN = 16"
definition LINUX_SLL_HOST :: u16 where "LINUX_SLL_HOST = 0"
definition LINUX_SLL_OUTGOING :: u16 where "LINUX_SLL_OUTGOING = 4"

definition handle_cooked_packet :: "'w ip_handler \<Rightarrow> byte list \<Rightarrow> 'w \<Rightarrow> 'w option" where
  "handle_cooked_packet handle_ip packet w = do {
     pkttype \<leftarrow> get16 packet 0;
     let dir = (if ntohs pkttype = LINUX_SLL_HOST then 0
                else if ntohs pkttype = LINUX_SLL_OUTGOING then 1 else -1);
     handle_ip (drop SLL_HDR_LEN packet) dir w
   }"

definition eth_dir :: "host \<Rightarrow> byte list \<Rightarrow> byte list \<Rightarrow> int" where
  "eth_dir host dhost shost =
     (if have_hw_addr host \<noteq> 0 \<and> shost = if_hw_addr host then 1
      else if have_hw_addr host \<noteq> 0 \<and> dhost = if_hw_addr host then 0
      else if dhost = broadcast_mac then 0 else -1)"

definition handle_eth_packet :: "host \<Rightarrow> 'w ip_handler \<Rightarrow> byte list \<Rightarrow> 'w \<Rightarrow> 'w option" where
  "handle_eth_packet host handle_ip packet w = do {
     t0 \<leftarrow> get16 packet 12;
     let payload = drop 14 packet;
     (ether_type, payload) \<leftarrow>
       (if ntohs t0 = ETHERTYPE_8021Q then do {
          t1 \<leftarrow> get16 payload 2;
          Some (ntohs t1, drop 4 payload) }
        else Some (ntohs t0, payload));
     if ether_type = ETHERTYPE_IP then do {
       shost \<leftarrow> get_bytes packet 6 6;
       dhost \<leftarrow> get_bytes packet 0 6;
       handle_ip payload (eth_dir host dhost shost) w }
     else Some w
   }"

definition handle_radiotap_packet :: "'w ip_handler \<Rightarrow> byte list \<Rightarrow> 'w \<Rightarrow> 'w option" where
  "handle_radiotap_packet handle_ip packet w = do {
     it_len \<leftarrow> get16 packet 2;
     handle_ip (drop (unat it_len + 34) packet) (-1) w
   }"

text \<open>The link types of \<open>packet_init\<close>. The DLT numbers belong to the pcap library, so the model
  names them; \<open>None\<close> is the unsupported type, on which the program exits.\<close>

datatype dlt =
    DLT_EN10MB | DLT_PFLOG | DLT_RAW | DLT_NULL | DLT_LOOP | DLT_IEEE802_11_RADIO
  | DLT_IEEE802 | DLT_PPP | DLT_LINUX_SLL | DLT_OTHER int

fun packet_handler ::
  "(nat \<Rightarrow> nat) \<Rightarrow> host \<Rightarrow> 'w ip_handler \<Rightarrow> dlt \<Rightarrow> (byte list \<Rightarrow> 'w \<Rightarrow> 'w option) option" where
  "packet_handler wa host ip DLT_EN10MB = Some (handle_eth_packet host ip)"
| "packet_handler wa host ip DLT_PFLOG = Some (handle_pflog_packet wa ip)"
| "packet_handler wa host ip DLT_RAW = Some (handle_raw_packet ip)"
| "packet_handler wa host ip DLT_NULL = Some (handle_null_packet ip)"
| "packet_handler wa host ip DLT_LOOP = Some (handle_null_packet ip)"
| "packet_handler wa host ip DLT_IEEE802_11_RADIO = Some (handle_radiotap_packet ip)"
| "packet_handler wa host ip DLT_IEEE802 = Some (handle_tokenring_packet host ip)"
| "packet_handler wa host ip DLT_PPP = Some (handle_ppp_packet ip)"
| "packet_handler wa host ip DLT_LINUX_SLL = Some (handle_cooked_packet ip)"
| "packet_handler wa host ip (DLT_OTHER n) = None"

subsection \<open>The header fields the classification depends on\<close>

record ip_hdr =
  h_p :: u8
  h_src :: u32
  h_dst :: u32
  h_sport :: u16
  h_dport :: u16

definition has_ports :: "u8 \<Rightarrow> bool" where
  "has_ports p \<longleftrightarrow> p = IPPROTO_TCP \<or> p = IPPROTO_UDP"

definition decode_ip :: "byte list \<Rightarrow> ip_hdr option" where
  "decode_ip iptr = do {
     p \<leftarrow> ip_p iptr;
     (sport, dport) \<leftarrow>
       (if has_ports p then do {
          vhl \<leftarrow> ip_vhl iptr;
          s \<leftarrow> th_sport (drop (IP_HL vhl * 4) iptr);
          d \<leftarrow> th_dport (drop (IP_HL vhl * 4) iptr);
          Some (ntohs s, ntohs d) }
        else Some (0, 0));
     s \<leftarrow> ip_src iptr;
     d \<leftarrow> ip_dst iptr;
     Some \<lparr>h_p = p, h_src = s, h_dst = d, h_sport = sport, h_dport = dport\<rparr>
   }"

text \<open>The key with the source of the packet first, and the header of the reply.\<close>

definition forward_key :: "ip_hdr \<Rightarrow> addr_pair" where
  "forward_key h = \<lparr>protocol = 0, src_port = h_sport h, src = h_src h, dst_port = h_dport h, dst = h_dst h\<rparr>"

definition reply :: "ip_hdr \<Rightarrow> ip_hdr" where
  "reply h = \<lparr>h_p = h_p h, h_src = h_dst h, h_dst = h_src h, h_sport = h_dport h, h_dport = h_sport h\<rparr>"

lemma reply_simps [simp]:
  "h_p (reply h) = h_p h" "h_src (reply h) = h_dst h" "h_dst (reply h) = h_src h"
  "h_sport (reply h) = h_dport h" "h_dport (reply h) = h_sport h" "reply (reply h) = h"
  by (simp_all add: reply_def)

lemma assign_decode:
  "assign_addr_pair iptr flip =
   map_option (\<lambda>h. forward_key (if flip = 0 then h else reply h)) (decode_ip iptr)"
  unfolding assign_addr_pair_def decode_ip_def has_ports_def
  by (auto simp: forward_key_def reply_def Let_def split: bind_splits)

lemma decode_fields:
  assumes "decode_ip iptr = Some h"
  shows "ip_p iptr = Some (h_p h)" "ip_src iptr = Some (h_src h)" "ip_dst iptr = Some (h_dst h)"
  using assms unfolding decode_ip_def by (auto simp: opt_simps split: if_splits)

definition mac_spec :: "options_t \<Rightarrow> host \<Rightarrow> int \<Rightarrow> ip_hdr \<Rightarrow> (addr_pair \<times> int) option" where
  "mac_spec options host hw_dir h =
     (let ours = (\<lambda>a. have_ip_addr host \<noteq> 0 \<and> ip_addr_match host a)
      in if hw_dir = 1 then Some (forward_key h, 1)
         else if hw_dir = 0 then Some (forward_key (reply h), 0)
         else if ours (h_src h) then Some (forward_key h, 1)
         else if ours (h_dst h) \<or> IN_MULTICAST (h_dst h) then Some (forward_key (reply h), 0)
         else if promiscuous_but_choosy options \<noteq> 0 then None
         else Some (forward_key (if h_src h < h_dst h then reply h else h), 0))"

definition net_spec :: "options_t \<Rightarrow> ip_hdr \<Rightarrow> (addr_pair \<times> int) option" where
  "net_spec options h =
     (if in_filter_net options (h_src h) = in_filter_net options (h_dst h) then None
      else if in_filter_net options (h_src h) then Some (forward_key h, 1)
      else Some (forward_key (reply h), 0))"

definition direction_spec :: "options_t \<Rightarrow> host \<Rightarrow> int \<Rightarrow> ip_hdr \<Rightarrow> (addr_pair \<times> int) option" where
  "direction_spec options host hw_dir h =
     (if netfilter options = 0 then mac_spec options host hw_dir h else net_spec options h)"

lemma direction_of_spec:
  assumes "decode_ip iptr = Some h"
  shows "direction_of options host hw_dir iptr = Some (direction_spec options host hw_dir h)"
  using decode_fields [OF assms] assms
  by (simp add: direction_of_def direction_spec_def mac_direction_def mac_spec_def net_direction_def
      net_spec_def Let_def assign_decode)

definition ports_spec :: "int list \<Rightarrow> addr_pair \<Rightarrow> addr_pair option" where
  "ports_spec port_list ap =
     (if src ap = ROUTER_ADDR then None
      else if dst_port ap \<ge> 49152 then Some (ap\<lparr>dst_port := 0\<rparr>)
      else if (src_port ap \<noteq> 0 \<and> uint (src_port ap) \<in> set (listed port_list)) \<or>
              (dst_port ap \<noteq> 0 \<and> uint (dst_port ap) \<in> set (listed port_list)) then None
      else Some ap)"

lemma u16_max: "(w :: u16) \<le> 65535"
  using uint_lt2p [of w] by (simp add: word_le_def)

lemma port_rules_spec:
  assumes "length port_list = PORT_LIST_LEN"
  shows "port_rules port_list ap = Some (ports_spec port_list ap)"
proof -
  have z: "uint w = 0 \<longleftrightarrow> w = 0" for w :: u16 by (simp add: uint_0_iff)
  show ?thesis using assms
    by (simp add: port_rules_def ports_spec_def u16_max in_port_list_listed z)
qed

lemma block_scan_spec:
  "-1 \<in> set bs \<Longrightarrow> ip_p iptr = Some p \<Longrightarrow> block_scan bs iptr = Some (uint p \<in> set (listed bs))"
proof (induction bs)
  case Nil
  then show ?case by simp
next
  case (Cons b bs)
  then show ?case by (auto simp: listed_def)
qed

text \<open>The conditions under which \<open>handle_ip_packet\<close> reads only its own arrays: the loop variable
  happens to start inside the block list and before its terminator, and the port list has its ten
  entries.\<close>

definition lists_ok :: "options_t \<Rightarrow> int list \<Rightarrow> int \<Rightarrow> bool" where
  "lists_ok options port_list i \<longleftrightarrow>
     0 \<le> i \<and> -1 \<in> set (drop (nat i) (block_protocols options)) \<and> length port_list = PORT_LIST_LEN"

definition key_spec ::
  "options_t \<Rightarrow> host \<Rightarrow> int list \<Rightarrow> int \<Rightarrow> ip_hdr \<Rightarrow> int \<Rightarrow> (addr_pair \<times> int) option" where
  "key_spec options host port_list i h hw_dir =
     (if uint (h_p h) \<in> set (listed (drop (nat i) (block_protocols options))) then None
      else Option.bind (direction_spec options host hw_dir h) (\<lambda>(ap, direction).
        map_option (\<lambda>ap. (ap, direction)) (ports_spec port_list (ap\<lparr>protocol := ucast (h_p h)\<rparr>))))"

lemma packet_key_spec:
  assumes "lists_ok options port_list i" and "decode_ip iptr = Some h"
  shows "packet_key options host port_list i iptr hw_dir = Some (key_spec options host port_list i h hw_dir)"
  using assms decode_fields [OF assms(2)]
  by (auto simp: packet_key_def key_spec_def lists_ok_def block_loop_def block_scan_spec
      direction_of_spec port_rules_spec split: option.split)

subsection \<open>How many bytes are read\<close>

text \<open>The snapshot length given to \<open>pcap_open_live\<close>.\<close>

definition CAPTURE_LENGTH :: nat where "CAPTURE_LENGTH = 72"

lemma decode_defined:
  "decode_ip iptr \<noteq> None \<longleftrightarrow> 20 \<le> length iptr \<and>
     (has_ports (iptr ! 9) \<longrightarrow> 4 * IP_HL (iptr ! 0) + 4 \<le> length iptr)"
proof (cases "20 \<le> length iptr")
  case True
  then have f: "ip_p iptr = Some (iptr ! 9)" "ip_vhl iptr = Some (iptr ! 0)"
    by (auto simp: ip_p_def ip_vhl_def get8_def)
  obtain s d where sd: "ip_src iptr = Some s" "ip_dst iptr = Some d"
    using True get32_defined [of iptr 12] get32_defined [of iptr 16] by (auto simp: ip_src_def ip_dst_def)
  let ?t = "drop (IP_HL (iptr ! 0) * 4) iptr"
  have "th_sport ?t \<noteq> None \<and> th_dport ?t \<noteq> None \<longleftrightarrow> 4 \<le> length ?t"
    unfolding th_sport_def th_dport_def get16_defined by linarith
  then have "th_sport ?t \<noteq> None \<and> th_dport ?t \<noteq> None \<longleftrightarrow> 4 * IP_HL (iptr ! 0) + 4 \<le> length iptr"
    using True by auto
  with True f sd show ?thesis
    by (cases "th_sport ?t"; cases "th_dport ?t") (auto simp: decode_ip_def)
next
  case False
  then have "ip_dst iptr = None" using get32_defined [of iptr 16] by (auto simp: ip_dst_def)
  with False decode_fields(3) [of iptr] show ?thesis by (cases "decode_ip iptr") auto
qed

subsection \<open>A sample packet\<close>

text \<open>A UDP packet from 10.0.1.5 port 8080 to 8.8.8.8 port 50000, and its reply.\<close>

definition udp_packet :: "byte list" where
  "udp_packet = [0x45, 0, 0, 100, 0, 0, 0, 0, 64, 17, 0, 0, 10, 0, 1, 5, 8, 8, 8, 8, 0x1F, 0x90, 0xC3, 0x50]"

definition udp_reply :: "byte list" where
  "udp_reply = [0x45, 0, 0, 100, 0, 0, 0, 0, 64, 17, 0, 0, 8, 8, 8, 8, 10, 0, 1, 5, 0xC3, 0x50, 0x1F, 0x90]"

definition udp_hdr :: ip_hdr where
  "udp_hdr = \<lparr>h_p = 17, h_src = 0x0501000A, h_dst = 0x08080808, h_sport = 8080, h_dport = 50000\<rparr>"

lemma decode_udp_packet: "decode_ip udp_packet = Some udp_hdr"
  by code_simp

lemma decode_udp_reply: "decode_ip udp_reply = Some (reply udp_hdr)"
  by code_simp

definition udp_ports :: "int list" where
  "udp_ports = 22 # replicate 9 (-1)"

definition udp_options :: options_t where
  "udp_options = options_initial\<lparr>block_protocols := replicate 32 (-1)\<rparr>"

definition udp_net_options :: options_t where
  "udp_net_options = udp_options\<lparr>netfilter := 1, netfilternet := 0x0001000A, netfiltermask := 0x00FFFFFF\<rparr>"

definition no_host :: host where
  "no_host = \<lparr>have_hw_addr = 0, if_hw_addr = replicate 6 0, have_ip_addr = 0, if_ip_addr = 0,
     have_ip6_addr = 0, if_ip6_addr = replicate 16 0\<rparr>"

definition udp_key :: addr_pair where
  "udp_key = \<lparr>protocol = 17, src_port = 8080, src = 0x0501000A, dst_port = 0, dst = 0x08080808\<rparr>"

lemma udp_lists_ok: "lists_ok udp_options udp_ports 0" "lists_ok udp_net_options udp_ports 0"
  by (simp_all add: lists_ok_def udp_options_def udp_net_options_def udp_ports_def PORT_LIST_LEN_def)

lemma udp_net_key: "packet_key udp_net_options no_host udp_ports 0 udp_packet (-1) = Some (Some (udp_key, 1))"
  by code_simp

subsection \<open>Properties\<close>

text \<open>The multicast test is applied to an address in network byte order: on a little-endian host it
  looks at the last octet of the dotted address, not at the first.\<close>

lemma le_value4: "le_value [a, b, c, d] = uint a + 256 * uint b + 65536 * uint c + 16777216 * uint d"
  by simp

definition addr_word :: "byte \<Rightarrow> byte \<Rightarrow> byte \<Rightarrow> byte \<Rightarrow> u32" where
  "addr_word a b c d = word_of_int (le_value [a, b, c, d])"

lemma uint_addr_word: "uint (addr_word a b c d) = le_value [a, b, c, d]"
  using le_value_nonneg [of "[a, b, c, d]"] le_value_bound [of "[a, b, c, d]"]
  by (simp only: addr_word_def uint_word_of_int list.size) (simp add: mod_pos_pos_trivial)

lemma IN_MULTICAST_high: "IN_MULTICAST w \<longleftrightarrow> uint w div 2 ^ 28 = 14"
proof -
  have m: "(0xf0000000 :: u32) = NOT (mask 28)" by (simp add: mask_eq_exp_minus_1)
  have split: "w AND NOT (mask 28) = push_bit 28 (drop_bit 28 w)"
    by (rule bit_word_eqI) (auto simp: bit_simps)
  have e: "(0xe0000000 :: u32) = push_bit 28 14" by (simp add: push_bit_eq_mult)
  have "push_bit 28 (drop_bit 28 w) = push_bit 28 (14 :: u32) \<longleftrightarrow> drop_bit 28 w = 14"
  proof
    assume "push_bit 28 (drop_bit 28 w) = push_bit 28 (14 :: u32)"
    then have "drop_bit 28 (push_bit 28 (drop_bit 28 w)) = drop_bit 28 (push_bit 28 (14 :: u32))"
      by (rule arg_cong)
    moreover have "drop_bit 28 (push_bit 28 (drop_bit 28 w)) = drop_bit 28 w"
      by (rule bit_word_eqI) (auto simp: bit_simps dest: bit_imp_le_length)
    moreover have "drop_bit 28 (push_bit 28 (14 :: u32)) = 14"
      by (simp add: push_bit_eq_mult drop_bit_eq_div)
    ultimately show "drop_bit 28 w = 14" by simp
  qed simp
  also have "\<dots> \<longleftrightarrow> uint w div 2 ^ 28 = 14"
    by (simp add: word_uint_eq_iff drop_bit_eq_div uint_div)
  finally show ?thesis unfolding IN_MULTICAST_def m e split .
qed



text \<open>Without a net filter, a packet between two other machines whose direction nothing tells
  and its reply get the same key, and both are accounted as incoming, when neither destination
  reads as multicast and the addresses differ.\<close>

theorem third_party_same_connection:
  assumes "lists_ok options port_list i" and "decode_ip p = Some h" and "decode_ip q = Some (reply h)"
    and "netfilter options = 0" and "hw_dir \<noteq> 0" and "hw_dir \<noteq> 1"
    and "h_src h \<noteq> h_dst h" and "\<not> IN_MULTICAST (h_src h)" and "\<not> IN_MULTICAST (h_dst h)"
    and "\<not> (have_ip_addr host \<noteq> 0 \<and> if_ip_addr host \<in> {h_src h, h_dst h})"
  shows "packet_key options host port_list i p hw_dir = packet_key options host port_list i q hw_dir"
proof -
  have "mac_spec options host hw_dir h = mac_spec options host hw_dir (reply h)"
    using assms(5-10) by (auto simp: mac_spec_def Let_def ip_addr_match_def)
  then have "key_spec options host port_list i h hw_dir = key_spec options host port_list i (reply h) hw_dir"
    using assms(4) by (simp add: key_spec_def direction_spec_def)
  then show ?thesis using packet_key_spec [OF assms(1,2)] packet_key_spec [OF assms(1,3)] by simp
qed

theorem third_party_same_connection_witness:
  "packet_key udp_options no_host udp_ports 0 udp_packet (-1) = packet_key udp_options no_host udp_ports 0 udp_reply (-1)"
proof -
  have "\<not> IN_MULTICAST (h_src udp_hdr)" "\<not> IN_MULTICAST (h_dst udp_hdr)" by code_simp+
  then show ?thesis
    using third_party_same_connection [OF udp_lists_ok(1) decode_udp_packet decode_udp_reply, of "-1" no_host]
    by (simp add: udp_options_def options_initial_def no_host_def udp_hdr_def)
qed



text \<open>The port rules: a key whose destination port is dynamic has it replaced by 0 and is accepted
  whatever the port list says; any other key is accepted unchanged exactly if neither port is on the
  list.\<close>

theorem port_rules_accept:
  assumes "length port_list = PORT_LIST_LEN" and "src ap \<noteq> ROUTER_ADDR"
  shows "port_rules port_list ap =
     (if 49152 \<le> uint (dst_port ap) then Some (Some (ap\<lparr>dst_port := 0\<rparr>))
      else if \<exists>p \<in> {src_port ap, dst_port ap}. p \<noteq> 0 \<and> uint p \<in> set (listed port_list) then Some None
      else Some (Some ap))"
  using assms by (auto simp: port_rules_spec ports_spec_def word_le_def)

theorem port_rules_accept_witness:
  "port_rules udp_ports (udp_key\<lparr>src_port := 22, dst_port := 50000\<rparr>) = Some (Some (udp_key\<lparr>src_port := 22\<rparr>))"
proof -
  have h: "length udp_ports = PORT_LIST_LEN" "src (udp_key\<lparr>src_port := 22, dst_port := 50000\<rparr>) \<noteq> ROUTER_ADDR"
    by (simp_all add: udp_ports_def PORT_LIST_LEN_def udp_key_def ROUTER_ADDR_def)
  from port_rules_accept [OF h] show ?thesis by (simp add: udp_key_def)
qed

text \<open>The fields of an Ethernet frame put together from its parts.\<close>

lemma eth_head: "length m = 12 \<Longrightarrow> get16 (m @ a # b # r) 12 = Some (word_of_int (uint a + 256 * uint b))"
  using get16_here [of a b r] by (simp add: get16_def get_bytes_append0)

lemma eth_tag: "length tci = 2 \<Longrightarrow> get16 (tci @ a # b # r) 2 = Some (word_of_int (uint a + 256 * uint b))"
  using get16_here [of a b r] by (simp add: get16_def get_bytes_append0)

lemma eth_macs:
  assumes "length dhost = 6" and "length shost = 6"
  shows "get_bytes (dhost @ shost @ r) 6 6 = Some shost" and "get_bytes (dhost @ shost @ r) 0 6 = Some dhost"
  using assms by (simp_all add: get_bytes_append0 get_bytes_here)

lemma eth_types:
  "ntohs 129 = ETHERTYPE_8021Q" "ntohs 8 = ETHERTYPE_IP"
  "ETHERTYPE_IP \<noteq> ETHERTYPE_8021Q"
  by (simp_all add: ntohs_def ETHERTYPE_8021Q_def ETHERTYPE_IP_def push_bit_eq_mult drop_bit_eq_div)

text \<open>C32. An IEEE 802.1Q tag is transparent: a tagged IPv4 frame is handled as the same frame
  without the tag, the direction coming from the MAC addresses, whatever the tag's priority and
  VLAN id.\<close>

theorem vlan_tag_transparent:
  assumes "length dhost = 6" and "length shost = 6" and "length tci = 2"
  shows "handle_eth_packet host ip (dhost @ shost @ [0x81, 0x00] @ tci @ [0x08, 0x00] @ payload) w
       = handle_eth_packet host ip (dhost @ shost @ [0x08, 0x00] @ payload) w \<and>
     handle_eth_packet host ip (dhost @ shost @ [0x08, 0x00] @ payload) w
       = ip payload (eth_dir host dhost shost) w"
proof -
  let ?m = "dhost @ shost"
  have m: "length ?m = 12" using assms by simp
  have plain: "handle_eth_packet host ip (?m @ [0x08, 0x00] @ payload) w = ip payload (eth_dir host dhost shost) w"
    using assms(1,2) eth_head [OF m] eth_macs [OF assms(1,2)]
    by (simp add: handle_eth_packet_def eth_types)
  have "handle_eth_packet host ip (?m @ [0x81, 0x00] @ tci @ [0x08, 0x00] @ payload) w = ip payload (eth_dir host dhost shost) w"
    using assms eth_head [OF m] eth_macs [OF assms(1,2)]
    by (simp add: handle_eth_packet_def eth_types eth_tag)
  with plain show ?thesis by simp
qed

theorem vlan_tag_transparent_witness:
  "handle_eth_packet no_host (\<lambda>b dir w. Some (b, dir))
     (broadcast_mac @ replicate 6 1 @ [0x81, 0x00] @ [0x20, 7] @ [0x08, 0x00] @ udp_packet) ([], 5)
   = Some (udp_packet, 0)"
proof -
  have "length broadcast_mac = 6" "length (replicate 6 (1 :: byte)) = 6" "length [0x20, 7 :: byte] = 2"
    by (simp_all add: broadcast_mac_def)
  from vlan_tag_transparent [OF this, of no_host "\<lambda>b dir w. Some (b, dir)" udp_packet "([], 5)"]
  show ?thesis by (simp add: eth_dir_def no_host_def)
qed

text \<open>On a full Ethernet capture of 72 bytes the fields that \<open>handle_ip_packet\<close> reads lie
  inside the capture exactly when the packet has no ports or its IP header is at most 13 words long
  (12 for a tagged frame): a TCP or UDP packet with a longer header is read past its end.\<close>

theorem capture_length_header:
  assumes "length iptr = CAPTURE_LENGTH - 14 - (if tagged then 4 else 0)"
  shows "decode_ip iptr \<noteq> None \<longleftrightarrow>
     (has_ports (iptr ! 9) \<longrightarrow> IP_HL (iptr ! 0) \<le> (if tagged then 12 else 13))"
  using assms unfolding decode_defined by (auto simp: CAPTURE_LENGTH_def)

theorem capture_length_header_witness:
  "decode_ip ([0x4E, 0, 0, 100, 0, 0, 0, 0, 64, 17] @ replicate 48 0) = None"
proof -
  have "length ([0x4E, 0, 0, 100, 0, 0, 0, 0, 64, 17 :: byte] @ replicate 48 0) = CAPTURE_LENGTH - 14 - (if False then 4 else 0)"
    by (simp add: CAPTURE_LENGTH_def)
  from capture_length_header [OF this] show ?thesis
    by (simp add: IP_HL_def has_ports_def IPPROTO_UDP_def)
qed

text \<open>\<open>IN_MULTICAST\<close> is applied to the address \<open>a.b.c.d\<close> as it stands in memory, so on a
  little-endian host it asks whether the last octet \<open>d\<close> is between 224 and 239: 224.0.0.251 passes
  for that reason alone, 239.255.255.250 passes as little as 8.8.8.8 does, and 8.8.8.230 counts as
  multicast.\<close>

theorem multicast_tests_last_octet:
  "IN_MULTICAST (addr_word a b c d) \<longleftrightarrow> 224 \<le> uint d \<and> uint d \<le> 239"
proof -
  have b: "0 \<le> uint x" "uint x < 256" for x :: byte using uint_lt2p [of x] by simp_all
  have "le_value [a, b, c, d] div 2 ^ 28 = 14 \<longleftrightarrow> 224 \<le> uint d \<and> uint d \<le> 239"
  proof -
    have "n div 2 ^ 28 = 14 \<longleftrightarrow> 3758096384 \<le> n \<and> n < 4026531840" for n :: int
      using div_mult_mod_eq [of n "2 ^ 28"] pos_mod_bound [of "2 ^ 28" n] pos_mod_sign [of "2 ^ 28" n]
      by (simp only: power_numeral) (simp, linarith)
    then show ?thesis
      unfolding le_value4 using b [of a] b [of b] b [of c] b [of d] by (simp only:) linarith
  qed
  then show ?thesis unfolding IN_MULTICAST_high uint_addr_word .
qed

end
