(* ===== verification/Simulation.thy ===== *)
theory Simulation
  imports Prelude
begin

text \<open>
  The contract that the machines of the development share. A component driven from outside is a step
  function that may fault; a run is a sequence of events. A machine is safe when an invariant makes
  every enabled event defined and is kept by it, and it refines a specification when the
  specification's functions compute the view of each next state. Runs are treated once, here.
\<close>

fun run_events :: "('e \<Rightarrow> 's \<Rightarrow> 's option) \<Rightarrow> 'e list \<Rightarrow> 's \<Rightarrow> 's option" where
  "run_events step [] s = Some s"
| "run_events step (e # es) s = Option.bind (step e s) (run_events step es)"

text \<open>Which sequences of events the specification allows.\<close>

fun spec_allows :: "('e \<Rightarrow> 'a \<Rightarrow> bool) \<Rightarrow> ('e \<Rightarrow> 'a \<Rightarrow> 'a) \<Rightarrow> 'e list \<Rightarrow> 'a \<Rightarrow> bool" where
  "spec_allows may spec [] a \<longleftrightarrow> True"
| "spec_allows may spec (e # es) a \<longleftrightarrow> may e a \<and> spec_allows may spec es (spec e a)"

lemma run_events_append:
  "run_events step (es @ es') s = Option.bind (run_events step es s) (run_events step es')"
  by (induction es arbitrary: s) (auto intro: Option.bind_cong)

lemma spec_allows_append:
  "spec_allows may spec (es @ es') a \<longleftrightarrow> spec_allows may spec es a \<and> spec_allows may spec es' (fold spec es a)"
  by (induction es arbitrary: a) simp_all

lemma spec_allows_always [simp]: "spec_allows (\<lambda>e a. True) spec es a"
  by (induction es arbitrary: a) simp_all

lemma spec_allows_events: "spec_allows (\<lambda>e a. P e) spec es a \<longleftrightarrow> list_all P es"
  by (induction es arbitrary: a) simp_all

text \<open>A machine with an invariant.\<close>

locale safe_machine =
  fixes step :: "'e \<Rightarrow> 's \<Rightarrow> 's option"
    and ok :: "'s \<Rightarrow> bool"
    and may :: "'e \<Rightarrow> 's \<Rightarrow> bool"
  assumes step_safe: "ok s \<Longrightarrow> may e s \<Longrightarrow> \<exists>s'. step e s = Some s' \<and> ok s'"
begin

lemma run_safe:
  assumes "ok s" and "\<And>e s. e \<in> set es \<Longrightarrow> ok s \<Longrightarrow> may e s"
  shows "\<exists>s'. run_events step es s = Some s' \<and> ok s'"
  using assms
proof (induction es arbitrary: s)
  case (Cons e es)
  then obtain s1 where "step e s = Some s1" "ok s1" using step_safe [of s e] by auto
  with Cons show ?case by auto
qed simp

end

text \<open>A machine that refines a specification through a view of its states.\<close>

locale simulation =
  fixes step :: "'e \<Rightarrow> 's \<Rightarrow> 's option"
    and ok :: "'s \<Rightarrow> bool"
    and view :: "'s \<Rightarrow> 'a"
    and may :: "'e \<Rightarrow> 'a \<Rightarrow> bool"
    and spec :: "'e \<Rightarrow> 'a \<Rightarrow> 'a"
  assumes step_refines: "ok s \<Longrightarrow> may e (view s) \<Longrightarrow> \<exists>s'. step e s = Some s' \<and> ok s' \<and> view s' = spec e (view s)"

sublocale simulation \<subseteq> safe: safe_machine step ok "\<lambda>e s. may e (view s)"
  by unfold_locales (use step_refines in blast)

context simulation
begin

lemma run_refines:
  "ok s \<Longrightarrow> spec_allows may spec es (view s) \<Longrightarrow>
   \<exists>s'. run_events step es s = Some s' \<and> ok s' \<and> view s' = fold spec es (view s)"
proof (induction es arbitrary: s)
  case (Cons e es)
  then obtain s1 where "step e s = Some s1" "ok s1" "view s1 = spec e (view s)"
    using step_refines [of s e] by auto
  with Cons.IH [of s1] Cons.prems(2) show ?case by simp
qed simp

end

end
