(* ===== verification/History.thy ===== *)
theory History
  imports AddrHash IftopTypes Simulation
begin

text \<open>
  The connection history of iftop.c (lines 121 to 237): its creation, the two deletion criteria and
  \<open>history_rotate\<close>, which walks the table while deleting from it. The nodes of the hash table and
  the \<open>history_type\<close> records they point to live in two heaps. The central lemma says that the
  pointer loop computes a filter on the list of connections.
\<close>

record hist =
  htab :: "addr_pair hash_type"
  hnodes :: "(addr_pair, addr) node_heap"
  hrecs :: "history_type heap"

definition history_empty :: history_type where
  "history_empty = \<lparr>total_sent = 0, total_recv = 0, create_time = 0, last_update_time = 0, approval = 0\<rparr>"

text \<open>The variable \<open>last_timestamp\<close> belongs to the capture loop; \<open>init_history\<close> returns it beside
  the table and the cleared totals. \<open>now\<close> is the result of \<open>time(NULL)\<close>.\<close>

definition init_history :: "time_t \<Rightarrow> hist \<times> time_t \<times> history_type" where
  "init_history now =
     (\<lparr>htab = addr_hash_create, hnodes = heap_empty, hrecs = heap_empty\<rparr>, now, history_empty)"

definition history_create :: "time_t \<Rightarrow> history_type heap \<Rightarrow> addr \<times> history_type heap" where
  "history_create now h = xmalloc h (history_empty\<lparr>create_time := now\<rparr>)"

definition is_short_connection :: "options_t \<Rightarrow> history_type \<Rightarrow> time_t \<Rightarrow> bool" where
  "is_short_connection options d t \<longleftrightarrow>
     last_update_time d - create_time d < duration options \<and> t - create_time d > CHECK_AFTER_N_SECS"

text \<open>The sum is \<open>unsigned long long\<close>, so the signed threshold is converted to it.\<close>

definition is_low_traffic_connection :: "options_t \<Rightarrow> history_type \<Rightarrow> time_t \<Rightarrow> bool" where
  "is_low_traffic_connection options d t \<longleftrightarrow>
     total_recv d + total_sent d < word_of_int (threshold options) \<and>
     t - last_update_time d > history_delete_interval options"

definition satisfies_criteria :: "options_t \<Rightarrow> history_type \<Rightarrow> bool" where
  "satisfies_criteria options d \<longleftrightarrow>
     last_update_time d - create_time d \<ge> duration options \<and>
     total_recv d + total_sent d > word_of_int (threshold options)"

text \<open>
  The body of the loop for the node \<open>n\<close>. The last test reads \<open>d->approval\<close> whether or not
  \<open>d\<close> was freed a few lines before; \<open>stale n\<close> stands for the value found at that place in the
  freed record of the node \<open>n\<close>.
\<close>

definition rotate_body ::
  "options_t \<Rightarrow> (addr \<Rightarrow> int) \<Rightarrow> time_t \<Rightarrow> addr \<Rightarrow> hist \<Rightarrow> int \<Rightarrow> (addr option \<times> hist \<times> int) option" where
  "rotate_body options stale t n hs sz = do {
     node \<leftarrow> hread (hnodes hs) n;
     let p = node_rec node;
     (_, next) \<leftarrow> hash_next_item (htab hs) (hnodes hs) (Some n);
     d \<leftarrow> hread (hrecs hs) p;
     hs' \<leftarrow>
       (if approval d = 0 then
          if is_short_connection options d t \<or> is_low_traffic_connection options d t then do {
            (_, T', nodes') \<leftarrow> hash_delete (htab hs) (hnodes hs) (node_key node);
            recs' \<leftarrow> hfree (hrecs hs) p;
            Some \<lparr>htab = T', hnodes = nodes', hrecs = recs'\<rparr> }
          else if satisfies_criteria options d then do {
            recs' \<leftarrow> hwrite (hrecs hs) p (d\<lparr>approval := 1\<rparr>);
            Some (hs\<lparr>hrecs := recs'\<rparr>) }
          else Some hs
        else Some hs);
     let flag = (case hread (hrecs hs') p of Some d' \<Rightarrow> approval d' | None \<Rightarrow> stale n);
     Some (next, hs', if flag \<noteq> 0 then sz + 1 else sz)
   }"

partial_function (option) rotate_loop ::
  "options_t \<Rightarrow> (addr \<Rightarrow> int) \<Rightarrow> time_t \<Rightarrow> addr option \<Rightarrow> hist \<Rightarrow> int \<Rightarrow> (hist \<times> int) option" where
  "rotate_loop options stale t n hs sz =
     (case n of None \<Rightarrow> Some (hs, sz)
      | Some a \<Rightarrow> Option.bind (rotate_body options stale t a hs sz)
          (\<lambda>(next, hs', sz'). rotate_loop options stale t next hs' sz'))"

definition history_rotate ::
  "options_t \<Rightarrow> (addr \<Rightarrow> int) \<Rightarrow> time_t \<Rightarrow> hist \<Rightarrow> (hist \<times> int) option" where
  "history_rotate options stale t hs = do {
     (_, n) \<leftarrow> hash_next_item (htab hs) (hnodes hs) None;
     rotate_loop options stale t n hs 0
   }"

subsection \<open>Well-formed histories and their contents\<close>

definition hist_inv :: "hist \<Rightarrow> addr list list \<Rightarrow> bool" where
  "hist_inv hs Cs \<longleftrightarrow> addr_table.table_inv (htab hs) (hnodes hs) Cs \<and>
     distinct (map (rec_at (hnodes hs)) (concat Cs)) \<and>
     (\<forall>a \<in> set (concat Cs). cells (hrecs hs) (rec_at (hnodes hs) a) \<noteq> None) \<and> heap_ok (hrecs hs)"

definition conn_at :: "hist \<Rightarrow> addr \<Rightarrow> addr_pair \<times> history_type" where
  "conn_at hs a = (key_at (hnodes hs) a, the (cells (hrecs hs) (rec_at (hnodes hs) a)))"

text \<open>The connections of a history in the order the table is walked.\<close>

definition connections :: "hist \<Rightarrow> (addr_pair \<times> history_type) list option" where
  "connections hs = map_option (map (conn_at hs)) (hash_walk (htab hs) (hnodes hs) None)"

definition hist_ok :: "hist \<Rightarrow> bool" where
  "hist_ok hs \<longleftrightarrow> (\<exists>Cs. hist_inv hs Cs)"

text \<open>What one rotation does to one connection: \<open>None\<close> drops it.\<close>

definition rotate_conn :: "options_t \<Rightarrow> time_t \<Rightarrow> history_type \<Rightarrow> history_type option" where
  "rotate_conn options t d =
     (if approval d \<noteq> 0 then Some d
      else if is_short_connection options d t \<or> is_low_traffic_connection options d t then None
      else if satisfies_criteria options d then Some (d\<lparr>approval := 1\<rparr>) else Some d)"

definition rotate_list ::
  "options_t \<Rightarrow> time_t \<Rightarrow> (addr_pair \<times> history_type) list \<Rightarrow> (addr_pair \<times> history_type) list" where
  "rotate_list options t = List.map_filter (\<lambda>(k, d). map_option (Pair k) (rotate_conn options t d))"

definition approved_count :: "(addr_pair \<times> history_type) list \<Rightarrow> int" where
  "approved_count cs = int (length (filter (\<lambda>(k, d). approval d \<noteq> 0) cs))"

lemma rotate_list_simps [simp]:
  "rotate_list options t [] = []"
  "rotate_list options t ((k, d) # cs) =
     (case rotate_conn options t d of None \<Rightarrow> [] | Some d' \<Rightarrow> [(k, d')]) @ rotate_list options t cs"
  by (simp_all add: rotate_list_def List.map_filter_simps split: option.split)

lemma approved_count_simps [simp]:
  "approved_count [] = 0"
  "approved_count ((k, d) # cs) = (if approval d \<noteq> 0 then 1 else 0) + approved_count cs"
  "approved_count (cs @ cs') = approved_count cs + approved_count cs'"
  by (simp_all add: approved_count_def)

lemma connections_inv: "hist_inv hs Cs \<Longrightarrow> connections hs = Some (map (conn_at hs) (concat Cs))"
  using hash_walk_all [of "htab hs" "hnodes hs" Cs]
  by (simp add: connections_def hist_inv_def addr_table.table_inv_def)

subsection \<open>One step of the rotation\<close>

lemma hist_invD:
  assumes "hist_inv hs Cs" and "concat Cs = xs @ a # ys"
  shows "\<exists>n. cells (hnodes hs) a = Some n" and "\<exists>d. cells (hrecs hs) (rec_at (hnodes hs) a) = Some d"
    and "hash_next_item (htab hs) (hnodes hs) (Some a) = Some (first_of ys)"
    and "\<And>x. x \<in> set (xs @ ys) \<Longrightarrow> x \<noteq> a \<and> rec_at (hnodes hs) x \<noteq> rec_at (hnodes hs) a"
proof -
  have ok: "hash_ok (htab hs) (hnodes hs) Cs" and a: "a \<in> set (concat Cs)"
    using assms by (simp_all add: hist_inv_def addr_table.table_inv_def)
  show "\<exists>n. cells (hnodes hs) a = Some n" by (rule hash_ok_live [OF ok a])
  show "\<exists>d. cells (hrecs hs) (rec_at (hnodes hs) a) = Some d"
    using assms(1) a unfolding hist_inv_def by blast
  show "hash_next_item (htab hs) (hnodes hs) (Some a) = Some (first_of ys)"
    by (rule hash_next_item_step [OF ok assms(2)])
  have "distinct (map (rec_at (hnodes hs)) (xs @ a # ys))"
    using assms by (simp add: hist_inv_def)
  then show "x \<noteq> a \<and> rec_at (hnodes hs) x \<noteq> rec_at (hnodes hs) a" if "x \<in> set (xs @ ys)" for x
    using that by (auto simp: image_iff)
qed

text \<open>Deleting the current node and its record.\<close>

lemma hist_delete:
  assumes I: "hist_inv hs Cs" and split: "concat Cs = xs @ a # ys"
  shows "\<exists>T' nodes' recs' Cs'.
     hash_delete (htab hs) (hnodes hs) (key_at (hnodes hs) a) = Some (HASH_STATUS_OK, T', nodes') \<and>
     hfree (hrecs hs) (rec_at (hnodes hs) a) = Some recs' \<and>
     hread recs' (rec_at (hnodes hs) a) = None \<and>
     hist_inv \<lparr>htab = T', hnodes = nodes', hrecs = recs'\<rparr> Cs' \<and> concat Cs' = xs @ ys \<and>
     (\<forall>x \<in> set (xs @ ys). conn_at \<lparr>htab = T', hnodes = nodes', hrecs = recs'\<rparr> x = conn_at hs x)"
proof -
  let ?r = "rec_at (hnodes hs) a"
  let ?recs = "(hrecs hs)\<lparr>cells := (cells (hrecs hs))(?r := None)\<rparr>"
  note live = hist_invD(2) [OF I split] and other = hist_invD(4) [OF I split]
  have T: "addr_table.table_inv (htab hs) (hnodes hs) Cs" using I by (simp add: hist_inv_def)
  then obtain T' nodes' Cs' where D:
      "hash_delete (htab hs) (hnodes hs) (key_at (hnodes hs) a) = Some (HASH_STATUS_OK, T', nodes')"
      "hash_ok T' nodes' Cs'" "keys_ok (\<lambda>_. True) nodes' Cs'" "keys_distinct nodes' Cs'"
      "table_fns T' = table_fns (htab hs)" "concat Cs' = remove1 a (concat Cs)"
      "\<forall>x. x \<noteq> a \<longrightarrow> key_at nodes' x = key_at (hnodes hs) x \<and> rec_at nodes' x = rec_at (hnodes hs) x"
    using addr_table.delete_node [of "htab hs" "hnodes hs" Cs a] split
    unfolding addr_table.table_inv_def by auto
  have "distinct (xs @ a # ys)" using T split by (simp add: addr_table.table_inv_def hash_ok_def)
  then have cc: "concat Cs' = xs @ ys" using D(6) split by (simp add: remove1_append)
  have recs_same: "rec_at nodes' x = rec_at (hnodes hs) x" "key_at nodes' x = key_at (hnodes hs) x"
    if "x \<in> set (xs @ ys)" for x using D(7) other [OF that] by auto
  have "map (rec_at nodes') (xs @ ys) = map (rec_at (hnodes hs)) (xs @ ys)"
    using recs_same by (auto simp del: set_append map_append)
  moreover have "distinct (map (rec_at (hnodes hs)) (xs @ ys))"
    using I split unfolding hist_inv_def by auto
  ultimately have "distinct (map (rec_at nodes') (xs @ ys))" by (simp only:)
  moreover have "heap_ok ?recs" using I live by (auto simp: hist_inv_def intro: heap_ok_upd)
  moreover have "cells ?recs (rec_at nodes' x) \<noteq> None" if "x \<in> set (xs @ ys)" for x
    using that I split other [OF that] recs_same [OF that] unfolding hist_inv_def by auto
  moreover have "addr_table.table_inv T' nodes' Cs'"
    using D T by (simp add: addr_table.table_inv_def)
  ultimately have "hist_inv \<lparr>htab = T', hnodes = nodes', hrecs = ?recs\<rparr> Cs'"
    unfolding hist_inv_def cc by simp
  moreover have "\<forall>x \<in> set (xs @ ys). conn_at \<lparr>htab = T', hnodes = nodes', hrecs = ?recs\<rparr> x = conn_at hs x"
    using other recs_same by (simp add: conn_at_def)
  ultimately show ?thesis using D(1) live cc by (auto simp: heap_simps)
qed

text \<open>Overwriting the record of the current node.\<close>

lemma hist_update:
  assumes I: "hist_inv hs Cs" and split: "concat Cs = xs @ a # ys"
  shows "\<exists>recs'. hwrite (hrecs hs) (rec_at (hnodes hs) a) d = Some recs' \<and>
     hread recs' (rec_at (hnodes hs) a) = Some d \<and>
     hist_inv (hs\<lparr>hrecs := recs'\<rparr>) Cs \<and>
     conn_at (hs\<lparr>hrecs := recs'\<rparr>) a = (key_at (hnodes hs) a, d) \<and>
     (\<forall>x \<in> set (xs @ ys). conn_at (hs\<lparr>hrecs := recs'\<rparr>) x = conn_at hs x)"
proof -
  let ?r = "rec_at (hnodes hs) a"
  let ?recs = "(hrecs hs)\<lparr>cells := (cells (hrecs hs))(?r \<mapsto> d)\<rparr>"
  note live = hist_invD(2) [OF I split] and other = hist_invD(4) [OF I split]
  have "hist_inv (hs\<lparr>hrecs := ?recs\<rparr>) Cs"
    using I live unfolding hist_inv_def by (auto intro: heap_ok_upd)
  moreover have "\<forall>x \<in> set (xs @ ys). conn_at (hs\<lparr>hrecs := ?recs\<rparr>) x = conn_at hs x"
    using other by (auto simp: conn_at_def)
  ultimately show ?thesis using live by (auto simp: heap_simps conn_at_def)
qed

text \<open>The value the loop reads through \<open>d\<close> after the branches.\<close>

definition flag_of :: "options_t \<Rightarrow> (addr \<Rightarrow> int) \<Rightarrow> time_t \<Rightarrow> hist \<Rightarrow> addr \<Rightarrow> int" where
  "flag_of options stale t hs a =
     (case rotate_conn options t (snd (conn_at hs a)) of
        None \<Rightarrow> stale a | Some d' \<Rightarrow> approval d')"

lemma rotate_body_spec:
  assumes I: "hist_inv hs Cs" and split: "concat Cs = xs @ a # ys"
  shows "\<exists>hs' Cs'. rotate_body options stale t a hs sz =
       Some (snd (first_of ys), hs', if flag_of options stale t hs a \<noteq> 0 then sz + 1 else sz) \<and>
     hist_inv hs' Cs' \<and>
     (case rotate_conn options t (snd (conn_at hs a)) of
        None \<Rightarrow> concat Cs' = xs @ ys
      | Some d' \<Rightarrow> concat Cs' = (xs @ [a]) @ ys \<and> conn_at hs' a = (fst (conn_at hs a), d')) \<and>
     (\<forall>x \<in> set (xs @ ys). conn_at hs' x = conn_at hs x)"
proof -
  obtain n where n: "cells (hnodes hs) a = Some n" using hist_invD(1) [OF I split] by blast
  obtain d where d: "cells (hrecs hs) (node_rec n) = Some d"
    using hist_invD(2) [OF I split] n by (auto simp: rec_at_def)
  have ca: "conn_at hs a = (node_key n, d)" "rec_at (hnodes hs) a = node_rec n" "key_at (hnodes hs) a = node_key n"
    using n d by (simp_all add: conn_at_def key_at_def rec_at_def)
  have nx: "hash_next_item (htab hs) (hnodes hs) (Some a) = Some (first_of ys)"
    by (rule hist_invD(3) [OF I split])
  consider (same) "rotate_conn options t d = Some d"
      "approval d \<noteq> 0 \<or> \<not> (is_short_connection options d t \<or> is_low_traffic_connection options d t) \<and> \<not> satisfies_criteria options d"
    | (drop) "approval d = 0" "is_short_connection options d t \<or> is_low_traffic_connection options d t"
      "rotate_conn options t d = None"
    | (mark) "approval d = 0" "\<not> (is_short_connection options d t \<or> is_low_traffic_connection options d t)"
      "satisfies_criteria options d" "rotate_conn options t d = Some (d\<lparr>approval := 1\<rparr>)"
    by (cases "approval d = 0";
        cases "is_short_connection options d t \<or> is_low_traffic_connection options d t";
        cases "satisfies_criteria options d") (simp_all add: rotate_conn_def)
  then show ?thesis
  proof cases
    case same
    then have "rotate_body options stale t a hs sz = Some (snd (first_of ys), hs, if approval d \<noteq> 0 then sz + 1 else sz)"
      using n d nx by (auto simp: rotate_body_def hread_def first_of_def split: list.split)
    with same I split ca show ?thesis by (auto simp: flag_of_def)
  next
    case drop
    obtain T' nodes' recs' Cs' where D:
        "hash_delete (htab hs) (hnodes hs) (node_key n) = Some (HASH_STATUS_OK, T', nodes')"
        "hfree (hrecs hs) (node_rec n) = Some recs'" "hread recs' (node_rec n) = None"
        "hist_inv \<lparr>htab = T', hnodes = nodes', hrecs = recs'\<rparr> Cs'" "concat Cs' = xs @ ys"
        "\<forall>x \<in> set (xs @ ys). conn_at \<lparr>htab = T', hnodes = nodes', hrecs = recs'\<rparr> x = conn_at hs x"
      using hist_delete [OF I split] ca by auto
    have "rotate_body options stale t a hs sz =
        Some (snd (first_of ys), \<lparr>htab = T', hnodes = nodes', hrecs = recs'\<rparr>,
          if stale a \<noteq> 0 then sz + 1 else sz)"
      using n d nx drop D(1-3) unfolding rotate_body_def
      by (cases ys) (simp_all add: first_of_def hread_def)
    with drop D ca show ?thesis by (auto simp: flag_of_def)
  next
    case mark
    obtain recs' where U: "hwrite (hrecs hs) (node_rec n) (d\<lparr>approval := 1\<rparr>) = Some recs'"
        "hread recs' (node_rec n) = Some (d\<lparr>approval := 1\<rparr>)" "hist_inv (hs\<lparr>hrecs := recs'\<rparr>) Cs"
        "conn_at (hs\<lparr>hrecs := recs'\<rparr>) a = (node_key n, d\<lparr>approval := 1\<rparr>)"
        "\<forall>x \<in> set (xs @ ys). conn_at (hs\<lparr>hrecs := recs'\<rparr>) x = conn_at hs x"
      using hist_update [OF I split, of "d\<lparr>approval := 1\<rparr>"] ca by auto
    have "rotate_body options stale t a hs sz = Some (snd (first_of ys), hs\<lparr>hrecs := recs'\<rparr>, sz + 1)"
      using n d nx mark U(1,2) unfolding rotate_body_def
      by (cases ys) (simp_all add: first_of_def hread_def)
    with mark U split ca show ?thesis by (auto simp: flag_of_def)
  qed
qed

subsection \<open>The whole rotation\<close>

lemma flag_of_cong: "conn_at hs' a = conn_at hs a \<Longrightarrow> flag_of options stale t hs' a = flag_of options stale t hs a"
  by (simp add: flag_of_def)

lemma rotate_loop_spec:
  "hist_inv hs Cs \<Longrightarrow> concat Cs = xs @ ys \<Longrightarrow>
   \<exists>hs' Cs'. rotate_loop options stale t (snd (first_of ys)) hs sz =
       Some (hs', sz + (\<Sum>a \<leftarrow> ys. if flag_of options stale t hs a \<noteq> 0 then 1 else 0)) \<and>
     hist_inv hs' Cs' \<and>
     map (conn_at hs') (concat Cs') = map (conn_at hs) xs @ rotate_list options t (map (conn_at hs) ys)"
proof (induction ys arbitrary: hs Cs xs sz)
  case Nil
  then show ?case by (subst rotate_loop.simps) (auto simp: first_of_def)
next
  case (Cons a ys)
  let ?rot = "rotate_conn options t (snd (conn_at hs a))"
  let ?sz = "if flag_of options stale t hs a \<noteq> 0 then sz + 1 else sz"
  obtain hs1 Cs1 where S:
      "rotate_body options stale t a hs sz = Some (snd (first_of ys), hs1, ?sz)"
      "hist_inv hs1 Cs1"
      "case ?rot of None \<Rightarrow> concat Cs1 = xs @ ys
       | Some d' \<Rightarrow> concat Cs1 = (xs @ [a]) @ ys \<and> conn_at hs1 a = (fst (conn_at hs a), d')"
      "\<forall>x \<in> set (xs @ ys). conn_at hs1 x = conn_at hs x"
    using rotate_body_spec [OF Cons.prems] by blast
  define xs1 where "xs1 = (case ?rot of None \<Rightarrow> xs | Some _ \<Rightarrow> xs @ [a])"
  have cc: "concat Cs1 = xs1 @ ys" using S(3) by (auto simp: xs1_def split: option.splits)
  have keep1: "map (conn_at hs1) xs1 =
      map (conn_at hs) xs @ (case ?rot of None \<Rightarrow> [] | Some d' \<Rightarrow> [(fst (conn_at hs a), d')])"
    using S(3,4) by (auto simp: xs1_def split: option.splits)
  have keep2: "map (conn_at hs1) ys = map (conn_at hs) ys"
    using S(4) by simp
  have flags: "(\<Sum>a \<leftarrow> ys. if flag_of options stale t hs1 a \<noteq> 0 then 1 else 0) =
      (\<Sum>a \<leftarrow> ys. if flag_of options stale t hs a \<noteq> 0 then 1 else 0 :: int)"
    using S(4) by (intro arg_cong [of _ _ sum_list] map_cong refl) (simp add: flag_of_cong [of hs1 _ hs])
  obtain hs' Cs' where R:
      "rotate_loop options stale t (snd (first_of ys)) hs1 ?sz =
         Some (hs', ?sz + (\<Sum>a \<leftarrow> ys. if flag_of options stale t hs1 a \<noteq> 0 then 1 else 0))"
      "hist_inv hs' Cs'"
      "map (conn_at hs') (concat Cs') = map (conn_at hs1) xs1 @ rotate_list options t (map (conn_at hs1) ys)"
    using Cons.IH [OF S(2) cc] by blast
  have "rotate_loop options stale t (Some a) hs sz =
      rotate_loop options stale t (snd (first_of ys)) hs1 ?sz"
    by (subst rotate_loop.simps) (simp add: S(1))
  moreover have "map (conn_at hs') (concat Cs') =
      map (conn_at hs) xs @ rotate_list options t (map (conn_at hs) (a # ys))"
    unfolding R(3) keep1 keep2 by (cases "conn_at hs a") (simp split: option.split)
  ultimately show ?case using R(1,2) flags by (force simp: first_of_def)
qed

lemma flag_sum:
  "(\<Sum>a \<leftarrow> as. if flag_of options stale t hs a \<noteq> 0 then 1 else 0) =
   approved_count (rotate_list options t (map (conn_at hs) as)) +
   int (length (filter (\<lambda>a. rotate_conn options t (snd (conn_at hs a)) = None \<and> stale a \<noteq> 0) as))"
proof (induction as)
  case Nil
  show ?case by simp
next
  case (Cons a as)
  then show ?case by (cases "conn_at hs a") (auto simp: flag_of_def split: option.split)
qed

lemma rotate_spec:
  assumes "hist_inv hs Cs"
  shows "\<exists>hs' Cs'. history_rotate options stale t hs = Some (hs',
       approved_count (rotate_list options t (map (conn_at hs) (concat Cs))) +
       int (length (filter (\<lambda>a. rotate_conn options t (snd (conn_at hs a)) = None \<and> stale a \<noteq> 0) (concat Cs)))) \<and>
     hist_inv hs' Cs' \<and>
     map (conn_at hs') (concat Cs') = rotate_list options t (map (conn_at hs) (concat Cs))"
proof -
  have "hash_next_item (htab hs) (hnodes hs) None = Some (first_of (concat Cs))"
    using assms by (intro hash_next_item_first) (simp add: hist_inv_def addr_table.table_inv_def)
  moreover note rotate_loop_spec [OF assms, of "[]" "concat Cs" options stale t 0]
  ultimately show ?thesis
    by (cases "first_of (concat Cs)") (auto simp: history_rotate_def flag_sum)
qed

text \<open>The record of a connection that the rotation drops is freed, and stays so.\<close>

lemma hash_delete_keeps_rec:
  assumes I: "hist_inv hs Cs" and split: "concat Cs = xs @ a # ys" and x: "x \<noteq> a"
    and D: "hash_delete (htab hs) (hnodes hs) (key_at (hnodes hs) a) = Some (st, T', nodes')"
  shows "rec_at nodes' x = rec_at (hnodes hs) x"
proof -
  have "a \<in> set (concat Cs)" unfolding split by simp
  moreover have "addr_table.table_inv (htab hs) (hnodes hs) Cs" using I by (simp add: hist_inv_def)
  ultimately show ?thesis
    using addr_table.delete_node [of "htab hs" "hnodes hs" Cs a] x D unfolding addr_table.table_inv_def by force
qed

lemma rotate_body_recs:
  assumes I: "hist_inv hs Cs" and split: "concat Cs = xs @ a # ys"
    and B: "rotate_body options stale t a hs sz = Some (nx, hs', sz')"
  shows "cells (hrecs hs) p = None \<Longrightarrow> cells (hrecs hs') p = None"
    and "rotate_conn options t (snd (conn_at hs a)) = None \<Longrightarrow> cells (hrecs hs') (rec_at (hnodes hs) a) = None"
    and "x \<noteq> a \<Longrightarrow> rec_at (hnodes hs') x = rec_at (hnodes hs) x"
proof -
  obtain n where n: "cells (hnodes hs) a = Some n" using hist_invD(1) [OF I split] by blast
  obtain d where d: "cells (hrecs hs) (node_rec n) = Some d"
    using hist_invD(2) [OF I split] n by (auto simp: rec_at_def)
  have at: "rec_at (hnodes hs) a = node_rec n" "key_at (hnodes hs) a = node_key n" "snd (conn_at hs a) = d"
    using n d by (simp_all add: conn_at_def key_at_def rec_at_def)
  note keep = hash_delete_keeps_rec [OF I split, unfolded at(2)]
  show "cells (hrecs hs) p = None \<Longrightarrow> cells (hrecs hs') p = None"
    using B n d by (auto simp: rotate_body_def Let_def heap_simps opt_simps split: if_splits)
  show "rotate_conn options t (snd (conn_at hs a)) = None \<Longrightarrow> cells (hrecs hs') (rec_at (hnodes hs) a) = None"
    using B n d by (auto simp: rotate_body_def Let_def heap_simps opt_simps at rotate_conn_def split: if_splits)
  show "x \<noteq> a \<Longrightarrow> rec_at (hnodes hs') x = rec_at (hnodes hs) x"
    using B n d keep by (auto simp: rotate_body_def Let_def heap_simps opt_simps split: if_splits)
qed

lemma rotate_loop_frees:
  "hist_inv hs Cs \<Longrightarrow> concat Cs = xs @ ys \<Longrightarrow>
   rotate_loop options stale t (snd (first_of ys)) hs sz = Some (hs', sz') \<Longrightarrow>
   cells (hrecs hs) p = None \<or> (\<exists>a \<in> set ys. p = rec_at (hnodes hs) a \<and> rotate_conn options t (snd (conn_at hs a)) = None) \<Longrightarrow>
   cells (hrecs hs') p = None"
proof (induction ys arbitrary: hs Cs xs sz)
  case Nil
  then show ?case by (subst (asm) rotate_loop.simps) (simp add: first_of_def)
next
  case (Cons a ys)
  obtain hs1 Cs1 sz1 where S: "rotate_body options stale t a hs sz = Some (snd (first_of ys), hs1, sz1)"
      "hist_inv hs1 Cs1" "\<exists>xs1. concat Cs1 = xs1 @ ys" "\<forall>x \<in> set (xs @ ys). conn_at hs1 x = conn_at hs x"
    using rotate_body_spec [OF Cons.prems(1,2), of options stale t sz] by (fastforce split: option.splits)
  obtain xs1 where xs1: "concat Cs1 = xs1 @ ys" using S(3) by blast
  have L: "rotate_loop options stale t (snd (first_of ys)) hs1 sz1 = Some (hs', sz')"
    using Cons.prems(3) S(1) by (subst (asm) rotate_loop.simps) (simp add: first_of_def)
  note B = rotate_body_recs [OF Cons.prems(1,2) S(1)]
  have "x \<noteq> a" if "x \<in> set ys" for x using hist_invD(4) [OF Cons.prems(1,2)] that by auto
  then have "cells (hrecs hs1) p = None \<or>
      (\<exists>a \<in> set ys. p = rec_at (hnodes hs1) a \<and> rotate_conn options t (snd (conn_at hs1 a)) = None)"
    using Cons.prems(4) B S(4) by fastforce
  from Cons.IH [OF S(2) xs1 L this] show ?case .
qed

lemma rotate_frees:
  assumes I: "hist_inv hs Cs" and a: "a \<in> set (concat Cs)"
    and "rotate_conn options t (snd (conn_at hs a)) = None" and R: "history_rotate options stale t hs = Some (hs', sz)"
  shows "cells (hrecs hs') (rec_at (hnodes hs) a) = None"
proof -
  have "hash_next_item (htab hs) (hnodes hs) None = Some (first_of (concat Cs))"
    using I by (intro hash_next_item_first) (simp add: hist_inv_def addr_table.table_inv_def)
  then have "rotate_loop options stale t (snd (first_of (concat Cs))) hs 0 = Some (hs', sz)"
    using R by (cases "first_of (concat Cs)") (simp add: history_rotate_def)
  from rotate_loop_frees [OF I append_Nil [symmetric] this, of "rec_at (hnodes hs) a"] a assms(3) show ?thesis by blast
qed

subsection \<open>Accounting a packet\<close>

text \<open>
  The end of \<open>handle_ip_packet\<close> (iftop.c lines 513 to 536): look the connection up, create and
  insert it when it is new, and add the packet's length to one of its two totals. \<open>now\<close> is the
  time \<open>history_create\<close> reads and \<open>t\<close> the time read when the packet arrived.
\<close>

definition find_or_create :: "time_t \<Rightarrow> addr_pair \<Rightarrow> hist \<Rightarrow> (addr \<times> hist) option" where
  "find_or_create now ap hs = do {
     (st, r) \<leftarrow> hash_find (htab hs) (hnodes hs) ap;
     if st = HASH_STATUS_KEY_NOT_FOUND then do {
       let (ht, recs) = history_create now (hrecs hs);
       (_, T', nodes') \<leftarrow> hash_insert (htab hs) (hnodes hs) ap ht;
       Some (ht, \<lparr>htab = T', hnodes = nodes', hrecs = recs\<rparr>) }
     else do { ht \<leftarrow> r; Some (ht, hs) }
   }"

definition count_packet :: "time_t \<Rightarrow> bool \<Rightarrow> u16 \<Rightarrow> history_type \<Rightarrow> history_type" where
  "count_packet t sent len ht =
     (let ht = ht\<lparr>last_update_time := t\<rparr>
      in if sent then ht\<lparr>total_sent := total_sent ht + ucast len\<rparr>
         else ht\<lparr>total_recv := total_recv ht + ucast len\<rparr>)"

definition account_packet ::
  "time_t \<Rightarrow> time_t \<Rightarrow> addr_pair \<Rightarrow> bool \<Rightarrow> u16 \<Rightarrow> hist \<Rightarrow> hist option" where
  "account_packet t now ap sent len hs = do {
     (ht, hs') \<leftarrow> find_or_create now ap hs;
     d \<leftarrow> hread (hrecs hs') ht;
     recs \<leftarrow> hwrite (hrecs hs') ht (count_packet t sent len d);
     Some (hs'\<lparr>hrecs := recs\<rparr>)
   }"

definition hist_map :: "hist \<Rightarrow> addr_pair \<rightharpoonup> history_type" where
  "hist_map hs = map_of (case connections hs of Some cs \<Rightarrow> cs | None \<Rightarrow> [])"

lemma hist_map_inv: "hist_inv hs Cs \<Longrightarrow> hist_map hs = map_of (map (conn_at hs) (concat Cs))"
  by (simp add: hist_map_def connections_inv)

lemma map_of_nodes:
  assumes "distinct (map f as)" and "a \<in> set as"
  shows "map_of (map (\<lambda>a. (f a, g a)) as) (f a) = Some (g a)"
  using assms by (intro map_of_is_SomeI) (simp_all add: comp_def)

lemma map_of_map_cong:
  "distinct (map f as) \<Longrightarrow> a \<in> set as \<Longrightarrow> (\<And>x. x \<in> set as \<Longrightarrow> x \<noteq> a \<Longrightarrow> g' x = g x) \<Longrightarrow>
   map_of (map (\<lambda>x. (f x, g' x)) as) = (map_of (map (\<lambda>x. (f x, g x)) as))(f a \<mapsto> g' a)"
proof (induction as)
  case Nil
  then show ?case by simp
next
  case (Cons x as)
  show ?case
  proof (cases "x = a")
    case True
    then have "y \<noteq> a" if "y \<in> set as" for y using Cons.prems(1) that by auto
    then have "map (\<lambda>x. (f x, g' x)) as = map (\<lambda>x. (f x, g x)) as" using Cons.prems(3) by simp
    then have "map_of (map (\<lambda>x. (f x, g' x)) as) = map_of (map (\<lambda>x. (f x, g x)) as)" by (rule arg_cong)
    with True show ?thesis by (simp add: fun_eq_iff del: map_eq_conv)
  next
    case False
    then have "f x \<noteq> f a" "a \<in> set as" using Cons.prems(1,2) by auto
    with Cons False show ?thesis by (auto simp: fun_eq_iff)
  qed
qed

lemma hist_keys_distinct:
  "hist_inv hs Cs \<Longrightarrow> distinct (map (key_at (hnodes hs)) (concat Cs))"
  by (simp add: hist_inv_def addr_table.table_inv_def keys_distinct_def)

lemma hist_map_None:
  assumes I: "hist_inv hs Cs"
  shows "map_of (entries (hnodes hs) Cs) k = None \<longleftrightarrow> hist_map hs k = None"
  unfolding hist_map_inv [OF I] entries_def map_of_eq_None_iff conn_at_def by (auto simp: image_iff)

lemma find_or_create_old:
  assumes I: "hist_inv hs Cs" and k: "hist_map hs ap \<noteq> None"
  obtains a where "a \<in> set (concat Cs)" "key_at (hnodes hs) a = ap"
    "find_or_create now ap hs = Some (rec_at (hnodes hs) a, hs)"
proof -
  have "map_of (entries (hnodes hs) Cs) ap \<noteq> None" using hist_map_None [OF I] k by simp
  then obtain p where p: "map_of (entries (hnodes hs) Cs) ap = Some p" by blast
  then have "(ap, p) \<in> set (entries (hnodes hs) Cs)" by (rule map_of_SomeD)
  then obtain a where a: "a \<in> set (concat Cs)" "key_at (hnodes hs) a = ap" "rec_at (hnodes hs) a = p"
    unfolding entries_def by auto
  have "hash_find (htab hs) (hnodes hs) ap = Some (HASH_STATUS_OK, Some p)"
    using addr_table.find_inv [of "htab hs" "hnodes hs" Cs ap] I p by (simp add: hist_inv_def)
  with a that show thesis by (simp add: find_or_create_def)
qed

text \<open>A new connection: the table and the record heap both grow by one object.\<close>

lemma find_or_create_new:
  assumes I: "hist_inv hs Cs" and k: "hist_map hs ap = None"
  shows "\<exists>hs' Cs' a. find_or_create now ap hs = Some (rec_at (hnodes hs') a, hs') \<and> hist_inv hs' Cs' \<and>
     a \<in> set (concat Cs') \<and> key_at (hnodes hs') a = ap \<and>
     hist_map hs' = (hist_map hs)(ap \<mapsto> history_empty\<lparr>create_time := now\<rparr>)"
proof -
  let ?N = "hnodes hs" and ?a = "brk (hnodes hs)" and ?r = "brk (hrecs hs)"
  let ?recs = "snd (history_create now (hrecs hs))"
  have T: "addr_table.table_inv (htab hs) ?N Cs" using I by (simp add: hist_inv_def)
  have new: "map_of (entries ?N Cs) ap = None" using hist_map_None [OF I] k by simp
  have fnd: "hash_find (htab hs) ?N ap = Some (HASH_STATUS_KEY_NOT_FOUND, None)"
    using addr_table.find_inv [OF T, of ap] new by simp
  have fns: "table_fns (htab hs) = (compare, hash, copy_key, addr_hash_table_size)"
    and ok: "hash_ok (htab hs) ?N Cs" using T by (simp_all add: addr_table.table_inv_def)
  obtain b where b: "hash_fn (htab hs) ap = int b" "b < length Cs"
    using addr_table.bucket_of [OF fns ok, of ap] by blast
  have cp: "copy_key_fn (htab hs) ap = ap" using fns by (simp add: table_fns_def copy_key_def)
  obtain T' N' where J: "hash_insert (htab hs) ?N ap ?r = Some (HASH_STATUS_OK, T', N')"
      "hash_ok T' N' (Cs[b := ?a # Cs ! b])"
      "cells N' = (cells ?N)(?a \<mapsto> \<lparr>node_next = table (htab hs) ! b, node_key = ap, node_rec = ?r\<rparr>)"
      "table_fns T' = table_fns (htab hs)"
    using hash_insert_spec [OF ok b cp] by blast
  let ?Cs = "Cs[b := ?a # Cs ! b]" and ?hs = "\<lparr>htab = T', hnodes = N', hrecs = ?recs\<rparr>"
  obtain us vs where uv: "concat ?Cs = us @ ?a # vs" "concat Cs = us @ vs"
    using concat_split_nth [OF b(2)] concat_upd_split [OF b(2), of "?a # Cs ! b"]
    by (metis append.assoc append_Cons)
  have less: "x \<noteq> ?a" if "x \<in> set (us @ vs)" for x
    using hash_ok_less_brk [OF ok, of x] that uv(2) by auto
  have old: "key_at N' x = key_at ?N x" "rec_at N' x = rec_at ?N x" if "x \<in> set (us @ vs)" for x
    using less [OF that] J(3) by (simp_all add: key_at_def rec_at_def)
  have at_a: "key_at N' ?a = ap" "rec_at N' ?a = ?r" using J(3) by (simp_all add: key_at_def rec_at_def)
  have live: "cells (hrecs hs) (rec_at ?N x) \<noteq> None" if "x \<in> set (us @ vs)" for x
    using I that uv(2) by (simp add: hist_inv_def)
  have fresh: "cells (hrecs hs) ?r = None" using I by (simp add: hist_inv_def heap_ok_fresh)
  then have nr: "rec_at ?N x \<noteq> ?r" if "x \<in> set (us @ vs)" for x
    using live [OF that] by metis
  then have nr': "?r \<notin> rec_at ?N ` set (us @ vs)" by fastforce
  have recs: "cells ?recs = (cells (hrecs hs))(?r \<mapsto> history_empty\<lparr>create_time := now\<rparr>)"
    by (simp add: history_create_def xmalloc_def)
  have absent: "ap \<noteq> key_at ?N x" if "x \<in> set (us @ vs)" for x
    using new that uv(2) by (auto simp: entries_def map_of_eq_None_iff image_iff)
  have dk: "distinct (map (key_at ?N) (us @ vs))" and dr: "distinct (map (rec_at ?N) (us @ vs))"
    using I hist_keys_distinct [OF I] uv(2) by (simp_all add: hist_inv_def)
  have mk: "map (key_at N') (us @ ?a # vs) = map (key_at ?N) us @ ap # map (key_at ?N) vs"
    and mr: "map (rec_at N') (us @ ?a # vs) = map (rec_at ?N) us @ ?r # map (rec_at ?N) vs"
    using old at_a by auto
  have "keys_distinct N' ?Cs"
    unfolding keys_distinct_def uv(1) mk using dk absent by (auto simp: image_iff)
  moreover have "distinct (map (rec_at N') (concat ?Cs))"
    unfolding uv(1) mr using dr nr' by auto
  moreover have "cells ?recs (rec_at N' x) \<noteq> None" if "x \<in> set (concat ?Cs)" for x
    using that live old at_a unfolding uv(1) recs by auto
  moreover have "heap_ok ?recs" using I by (simp add: hist_inv_def history_create_def heap_ok_malloc)
  ultimately have inv: "hist_inv ?hs ?Cs"
    using J(2,4) fns by (simp add: hist_inv_def addr_table.table_inv_def keys_ok_def del: set_concat)
  have "conn_at ?hs x = conn_at hs x" if "x \<in> set (us @ vs)" for x
    using old [OF that] nr [OF that] recs by (simp add: conn_at_def)
  then have maps: "map (conn_at ?hs) (us @ ?a # vs) =
      map (conn_at hs) us @ (ap, history_empty\<lparr>create_time := now\<rparr>) # map (conn_at hs) vs"
    using at_a recs by (auto simp: conn_at_def [of ?hs ?a])
  have "map_of (map (conn_at hs) us @ map (conn_at hs) vs) ap = None"
    using k uv(2) hist_map_inv [OF I] by simp
  from map_of_insert_mid [OF this]
  have "hist_map ?hs = (hist_map hs)(ap \<mapsto> history_empty\<lparr>create_time := now\<rparr>)"
    unfolding hist_map_inv [OF inv] hist_map_inv [OF I] uv maps by simp
  moreover have "find_or_create now ap hs = Some (rec_at (hnodes ?hs) ?a, ?hs)"
    using fnd J(1) at_a by (simp add: find_or_create_def history_create_def xmalloc_def)
  moreover have "?a \<in> set (concat ?Cs)" unfolding uv(1) by simp
  ultimately show ?thesis using inv at_a by (metis hist.select_convs(2))
qed

text \<open>Storing a record back through the pointer of the node \<open>a\<close>.\<close>

lemma hist_write:
  assumes I: "hist_inv hs Cs" and a: "a \<in> set (concat Cs)"
  shows "\<exists>d recs'. hread (hrecs hs) (rec_at (hnodes hs) a) = Some d \<and>
     hist_map hs (key_at (hnodes hs) a) = Some d \<and>
     hwrite (hrecs hs) (rec_at (hnodes hs) a) d' = Some recs' \<and> hist_inv (hs\<lparr>hrecs := recs'\<rparr>) Cs \<and>
     hist_map (hs\<lparr>hrecs := recs'\<rparr>) = (hist_map hs)(key_at (hnodes hs) a \<mapsto> d')"
proof -
  obtain xs ys where split: "concat Cs = xs @ a # ys" using split_list [OF a] by blast
  obtain d where d: "cells (hrecs hs) (rec_at (hnodes hs) a) = Some d"
    using hist_invD(2) [OF I split] by blast
  obtain recs' where U: "hwrite (hrecs hs) (rec_at (hnodes hs) a) d' = Some recs'"
      "hist_inv (hs\<lparr>hrecs := recs'\<rparr>) Cs"
      "conn_at (hs\<lparr>hrecs := recs'\<rparr>) a = (key_at (hnodes hs) a, d')"
      "\<forall>x \<in> set (xs @ ys). conn_at (hs\<lparr>hrecs := recs'\<rparr>) x = conn_at hs x"
    using hist_update [OF I split, of d'] by blast
  note dk = hist_keys_distinct [OF I]
  let ?g = "\<lambda>h x. the (cells (hrecs h) (rec_at (hnodes hs) x))"
  have view: "map_of (map (conn_at h) (concat Cs)) = map_of (map (\<lambda>x. (key_at (hnodes hs) x, ?g h x)) (concat Cs))"
    if "hnodes h = hnodes hs" for h
    using that by (simp add: conn_at_def [abs_def])
  have "?g (hs\<lparr>hrecs := recs'\<rparr>) x = ?g hs x" if "x \<in> set (concat Cs)" "x \<noteq> a" for x
    using U(4) that unfolding split by (auto simp: conn_at_def)
  from map_of_map_cong [of "key_at (hnodes hs)" "concat Cs" a "?g (hs\<lparr>hrecs := recs'\<rparr>)" "?g hs", OF dk a this]
  have "hist_map (hs\<lparr>hrecs := recs'\<rparr>) = (hist_map hs)(key_at (hnodes hs) a \<mapsto> d')"
    unfolding hist_map_inv [OF U(2)] hist_map_inv [OF I] using U(3)
    by (simp add: view conn_at_def)
  moreover have "hist_map hs (key_at (hnodes hs) a) = Some d"
    unfolding hist_map_inv [OF I] view [OF refl] using map_of_nodes [OF dk a, of "?g hs"] d by simp
  ultimately show ?thesis using U d by (auto simp: hread_def)
qed

lemma account_packet_spec:
  assumes I: "hist_inv hs Cs"
  shows "\<exists>hs' Cs'. account_packet t now ap sent len hs = Some hs' \<and> hist_inv hs' Cs' \<and>
     hist_map hs' = (hist_map hs)(ap \<mapsto> count_packet t sent len
       (case hist_map hs ap of Some d \<Rightarrow> d | None \<Rightarrow> history_empty\<lparr>create_time := now\<rparr>))"
proof (cases "hist_map hs ap")
  case None
  obtain h1 C1 a where F: "find_or_create now ap hs = Some (rec_at (hnodes h1) a, h1)" "hist_inv h1 C1"
      "a \<in> set (concat C1)" "key_at (hnodes h1) a = ap"
      "hist_map h1 = (hist_map hs)(ap \<mapsto> history_empty\<lparr>create_time := now\<rparr>)"
    using find_or_create_new [OF I None, of now] by auto
  with hist_write [OF F(2,3), of "count_packet t sent len (history_empty\<lparr>create_time := now\<rparr>)"] None
  show ?thesis by (auto simp: account_packet_def)
next
  case (Some d)
  then obtain a where F: "a \<in> set (concat Cs)" "key_at (hnodes hs) a = ap"
      "find_or_create now ap hs = Some (rec_at (hnodes hs) a, hs)"
    using find_or_create_old [OF I, of ap now] by auto
  with hist_write [OF I F(1), of "count_packet t sent len d"] Some
  show ?thesis by (auto simp: account_packet_def)
qed

lemma init_history_inv: "hist_inv (fst (init_history now)) (replicate addr_hash_table_size [])"
  using addr_hash_create_inv by (simp add: hist_inv_def init_history_def)

lemma init_history_ok: "hist_ok (fst (init_history now))"
  unfolding hist_ok_def using init_history_inv by blast

lemma init_history_connections: "connections (fst (init_history now)) = Some []"
  using connections_inv [OF init_history_inv] by simp

lemma init_history_map: "hist_map (fst (init_history now)) = Map.empty"
  by (simp add: hist_map_def init_history_connections)

lemma account_packet_ok:
  "hist_ok hs \<Longrightarrow> \<exists>hs'. account_packet t now ap sent len hs = Some hs' \<and> hist_ok hs' \<and>
     hist_map hs' = (hist_map hs)(ap \<mapsto> count_packet t sent len
       (case hist_map hs ap of Some d \<Rightarrow> d | None \<Rightarrow> history_empty\<lparr>create_time := now\<rparr>))"
  unfolding hist_ok_def using account_packet_spec by blast

text \<open>A one-connection history, for the examples: the first packet of a fresh table.\<close>

definition one_conn :: "addr_pair \<Rightarrow> history_type \<Rightarrow> hist \<Rightarrow> bool" where
  "one_conn k d hs \<longleftrightarrow> hist_ok hs \<and> connections hs = Some [(k, d)]"

lemma map_of_single_list:
  assumes "distinct (map fst cs)" and "map_of cs = [k \<mapsto> d]"
  shows "cs = [(k, d)]"
proof (cases cs)
  case Nil
  with assms(2) show ?thesis by (simp add: fun_eq_iff) (metis option.distinct(1))
next
  case (Cons c cs')
  have "(k', d') = (k, d)" if "(k', d') \<in> set cs" for k' d'
    using assms that map_of_is_SomeI [of cs k' d'] by (auto split: if_splits)
  then have "\<forall>x \<in> set cs. x = (k, d)" by auto
  with Cons assms(1) show ?thesis by (cases cs') auto
qed

lemma hist_connections:
  "hist_ok hs \<Longrightarrow> \<exists>cs. connections hs = Some cs \<and> distinct (map fst cs) \<and> map_of cs = hist_map hs"
  using hist_keys_distinct connections_inv
  by (fastforce simp: hist_ok_def hist_map_def comp_def conn_at_def)

lemma one_conn_exists:
  "\<exists>hs. account_packet t now k sent len (fst (init_history now)) = Some hs \<and>
     one_conn k (count_packet t sent len (history_empty\<lparr>create_time := now\<rparr>)) hs"
proof -
  obtain hs where A: "account_packet t now k sent len (fst (init_history now)) = Some hs" "hist_ok hs"
      "hist_map hs = [k \<mapsto> count_packet t sent len (history_empty\<lparr>create_time := now\<rparr>)]"
    using account_packet_ok [OF init_history_ok] by (force simp: init_history_map)
  with hist_connections [OF A(2)] show ?thesis
    by (auto simp: one_conn_def dest!: map_of_single_list)
qed

subsection \<open>Histories as maps\<close>

lemma map_of_map_filter:
  "distinct (map fst cs) \<Longrightarrow>
   map_of (List.map_filter (\<lambda>(k, d). map_option (Pair k) (f d)) cs) k = Option.bind (map_of cs k) f"
proof (induction cs)
  case Nil
  show ?case by (simp add: List.map_filter_simps)
next
  case (Cons c cs)
  obtain k' d where c: "c = (k', d)" by (cases c)
  show ?case
  proof (cases "k' = k")
    case True
    then have "map_of cs k = None" using Cons.prems c by (simp add: map_of_eq_None_iff)
    with True Cons c show ?thesis by (cases "f d") (simp_all add: List.map_filter_simps)
  next
    case False
    with Cons c show ?thesis by (cases "f d") (simp_all add: List.map_filter_simps)
  qed
qed

lemma rotate_map:
  assumes "hist_ok hs"
  shows "\<exists>hs' sz. history_rotate options stale t hs = Some (hs', sz) \<and> hist_ok hs' \<and>
     hist_map hs' = (\<lambda>k. Option.bind (hist_map hs k) (rotate_conn options t))"
proof -
  obtain Cs where I: "hist_inv hs Cs" using assms by (auto simp: hist_ok_def)
  obtain hs' sz Cs' where R: "history_rotate options stale t hs = Some (hs', sz)" "hist_inv hs' Cs'"
      "map (conn_at hs') (concat Cs') = rotate_list options t (map (conn_at hs) (concat Cs))"
    using rotate_spec [OF I] by blast
  have "distinct (map fst (map (conn_at hs) (concat Cs)))"
    using hist_keys_distinct [OF I] by (simp add: comp_def conn_at_def)
  then have "hist_map hs' = (\<lambda>k. Option.bind (hist_map hs k) (rotate_conn options t))"
    unfolding hist_map_inv [OF R(2)] hist_map_inv [OF I] R(3) rotate_list_def
    by (intro ext map_of_map_filter)
  with R show ?thesis by (auto simp: hist_ok_def)
qed

text \<open>The life of a history: packets are accounted and rotations happen, in any order. The
  arguments of \<open>Account\<close> are those of \<open>account_packet\<close>.\<close>

datatype hist_op = Account time_t time_t addr_pair bool u16 | Rotate time_t

fun hist_step :: "options_t \<Rightarrow> (addr \<Rightarrow> int) \<Rightarrow> hist_op \<Rightarrow> hist \<Rightarrow> hist option" where
  "hist_step options stale (Account t now ap sent len) hs = account_packet t now ap sent len hs"
| "hist_step options stale (Rotate t) hs = map_option fst (history_rotate options stale t hs)"

abbreviation hist_run :: "options_t \<Rightarrow> (addr \<Rightarrow> int) \<Rightarrow> hist_op list \<Rightarrow> hist \<Rightarrow> hist option" where
  "hist_run options stale \<equiv> run_events (hist_step options stale)"

text \<open>The specification: a finite map from connections to their totals and times.\<close>

fun spec_step :: "options_t \<Rightarrow> hist_op \<Rightarrow> (addr_pair \<rightharpoonup> history_type) \<Rightarrow> (addr_pair \<rightharpoonup> history_type)" where
  "spec_step options (Account t now ap sent len) m = m(ap \<mapsto> count_packet t sent len
     (case m ap of Some d \<Rightarrow> d | None \<Rightarrow> history_empty\<lparr>create_time := now\<rparr>))"
| "spec_step options (Rotate t) m = (\<lambda>k. Option.bind (m k) (rotate_conn options t))"

lemma hist_step_refines:
  assumes "hist_ok hs"
  shows "\<exists>hs'. hist_step options stale x hs = Some hs' \<and> hist_ok hs' \<and>
     hist_map hs' = spec_step options x (hist_map hs)"
proof (cases x)
  case (Account t now ap sent len)
  with account_packet_ok [OF assms] show ?thesis by simp
next
  case (Rotate t)
  with rotate_map [OF assms, of options stale t] show ?thesis by auto
qed

interpretation hist_sim: simulation "hist_step options stale" hist_ok hist_map "\<lambda>x m. True" "spec_step options"
  for options stale
  by unfold_locales (rule hist_step_refines)

lemma hist_run_step:
  "hist_ok hs \<Longrightarrow> \<exists>hs'. hist_run options stale xs hs = Some hs' \<and> hist_ok hs' \<and>
     hist_map hs' = fold (spec_step options) xs (hist_map hs)"
  by (rule hist_sim.run_refines) simp_all

text \<open>A history with one approved connection, for the examples.\<close>

definition sample_key :: addr_pair where
  "sample_key = \<lparr>protocol = 6, src_port = 443, src = 0x0501000A, dst_port = 0, dst = 0x08080808\<rparr>"

definition sample_rec :: history_type where
  "sample_rec = \<lparr>total_sent = 100, total_recv = 0, create_time = 10, last_update_time = 10, approval = 1\<rparr>"

definition sample_options :: options_t where
  "sample_options = options_initial\<lparr>threshold := 0, duration := 0\<rparr>"

lemma sample_history: "\<exists>hs. one_conn sample_key sample_rec hs"
proof -
  let ?ops = "[Account 10 10 sample_key True 100, Rotate 11]"
  obtain hs where h: "hist_ok hs" "hist_map hs = fold (spec_step sample_options) ?ops Map.empty"
    using hist_run_step [OF init_history_ok, of sample_options "\<lambda>_. 0" ?ops 0] by (auto simp: init_history_map)
  have "fold (spec_step sample_options) ?ops Map.empty = [sample_key \<mapsto> sample_rec]"
    by (rule ext) (simp add: sample_rec_def count_packet_def history_empty_def rotate_conn_def
        is_short_connection_def is_low_traffic_connection_def satisfies_criteria_def sample_options_def)
  with h hist_connections [OF h(1)] show ?thesis
    by (auto simp: one_conn_def dest!: map_of_single_list)
qed

subsection \<open>Properties\<close>

text \<open>C8. \<open>history_rotate\<close>, which deletes nodes and frees records while it walks the table,
  computes a filter: on a well-formed history it never follows a dangling node, it leaves a
  well-formed history whose connections are the old ones, in the same order, with every unapproved
  connection that is short or has low traffic removed and every unapproved connection that meets
  the criteria approved. The size it returns is the number of approved connections that remain,
  plus one for each removed connection whose freed record still reads as approved.\<close>

theorem history_rotate_filters:
  assumes "hist_ok hs" and "connections hs = Some cs"
  shows "\<exists>hs' sz. history_rotate options stale t hs = Some (hs', sz) \<and> hist_ok hs' \<and>
     connections hs' = Some (rotate_list options t cs) \<and>
     approved_count (rotate_list options t cs) \<le> sz \<and>
     sz \<le> approved_count (rotate_list options t cs)
       + int (length (filter (\<lambda>(k, d). rotate_conn options t d = None) cs)) \<and>
     ((\<forall>a. stale a = 0) \<longrightarrow> sz = approved_count (rotate_list options t cs))"
proof -
  obtain Cs where I: "hist_inv hs Cs" using assms(1) by (auto simp: hist_ok_def)
  then have cs: "cs = map (conn_at hs) (concat Cs)" using assms(2) connections_inv by simp
  have "length (filter (\<lambda>a. rotate_conn options t (snd (conn_at hs a)) = None \<and> stale a \<noteq> 0) as) \<le>
      length (filter (\<lambda>(k, d). rotate_conn options t d = None) (map (conn_at hs) as))" for as
    by (induction as) (auto split: prod.splits)
  from this [of "concat Cs"] rotate_spec [OF I, of options stale t] show ?thesis
    unfolding cs hist_ok_def using connections_inv by fastforce
qed

theorem history_rotate_filters_witness:
  "\<exists>hs hs' k d. connections hs = Some [(k, d)] \<and> total_sent d = 100 \<and>
     history_rotate (options_initial\<lparr>threshold := 1000, history_delete_interval := 60\<rparr>) (\<lambda>_. 0) 500 hs
       = Some (hs', 0) \<and>
     connections hs' = Some []"
proof -
  let ?o = "options_initial\<lparr>threshold := 1000, history_delete_interval := 60\<rparr>"
  let ?k = "\<lparr>protocol = 6, src_port = 1, src = 2, dst_port = 3, dst = 4\<rparr>"
  let ?d = "count_packet 10 True 100 (history_empty\<lparr>create_time := 10\<rparr>)"
  obtain hs where "one_conn ?k ?d hs" using one_conn_exists by blast
  then have h: "hist_ok hs" "connections hs = Some [(?k, ?d)]" by (simp_all add: one_conn_def)
  have "rotate_list ?o 500 [(?k, ?d)] = []"
    by (simp add: rotate_conn_def is_low_traffic_connection_def count_packet_def history_empty_def)
  with history_rotate_filters [OF h, of ?o "\<lambda>_. 0" 500]
  obtain hs' where "history_rotate ?o (\<lambda>_. 0) 500 hs = Some (hs', 0)" "connections hs' = Some []"
    by auto
  moreover have "total_sent ?d = 100" by (simp add: count_packet_def history_empty_def)
  ultimately show ?thesis using h(2) by blast
qed


definition sent_bytes :: "addr_pair \<Rightarrow> hist_op list \<Rightarrow> u64" where
  "sent_bytes k ops = (\<Sum>x \<leftarrow> ops. case x of
     Account t now ap sent len \<Rightarrow> if ap = k \<and> sent then ucast len else 0 | Rotate t \<Rightarrow> 0)"

definition recv_bytes :: "addr_pair \<Rightarrow> hist_op list \<Rightarrow> u64" where
  "recv_bytes k ops = (\<Sum>x \<leftarrow> ops. case x of
     Account t now ap sent len \<Rightarrow> if ap = k \<and> \<not> sent then ucast len else 0 | Rotate t \<Rightarrow> 0)"

lemma approved_spec_run:
  assumes "m k = Some d" and "approval d \<noteq> 0"
  shows "\<exists>d'. fold (spec_step options) ops m k = Some d' \<and> approval d' = approval d \<and>
     total_sent d' = total_sent d + sent_bytes k ops \<and> total_recv d' = total_recv d + recv_bytes k ops \<and>
     create_time d' = create_time d"
  using assms
proof (induction ops arbitrary: m d)
  case Nil
  then show ?case by (simp add: sent_bytes_def recv_bytes_def)
next
  case (Cons x ops)
  have "\<exists>d1. spec_step options x m k = Some d1 \<and> approval d1 = approval d \<and>
      total_sent d1 = total_sent d + sent_bytes k [x] \<and> total_recv d1 = total_recv d + recv_bytes k [x] \<and>
      create_time d1 = create_time d"
    using Cons.prems
    by (cases x) (auto simp: sent_bytes_def recv_bytes_def count_packet_def rotate_conn_def Let_def)
  then obtain d1 where d1: "spec_step options x m k = Some d1" "approval d1 = approval d"
      "total_sent d1 = total_sent d + sent_bytes k [x]" "total_recv d1 = total_recv d + recv_bytes k [x]"
      "create_time d1 = create_time d" by blast
  from Cons.IH [of "spec_step options x m" d1] d1 Cons.prems(2) show ?case
    by (auto simp: sent_bytes_def recv_bytes_def add.assoc)
qed

text \<open>C33. Approval is permanent: a connection once approved survives every later sequence of
  packets and rotations, its totals only growing by the packets accounted to it (modulo the width
  of the counters).\<close>

theorem approved_connection_stays:
  assumes "hist_ok hs" and "hist_map hs k = Some d" and "approval d \<noteq> 0"
  shows "\<exists>hs' d'. hist_run options stale ops hs = Some hs' \<and> hist_map hs' k = Some d' \<and>
     approval d' = approval d \<and> create_time d' = create_time d \<and>
     total_sent d' = total_sent d + sent_bytes k ops \<and> total_recv d' = total_recv d + recv_bytes k ops"
  using hist_run_step [OF assms(1), of options stale ops] approved_spec_run [where m = "hist_map hs", OF assms(2,3), of options ops]
  by auto

theorem approved_connection_stays_witness:
  "\<exists>hs hs' d'. hist_map hs sample_key = Some sample_rec \<and>
     hist_run sample_options (\<lambda>_. 0) [Rotate 500, Account 600 600 sample_key False 40] hs = Some hs' \<and>
     hist_map hs' sample_key = Some d' \<and> total_recv d' = total_recv sample_rec + 40"
proof -
  obtain hs where hs: "one_conn sample_key sample_rec hs" using sample_history by blast
  then have h: "hist_ok hs" "hist_map hs sample_key = Some sample_rec"
    by (simp_all add: one_conn_def hist_map_def)
  moreover have "approval sample_rec \<noteq> 0" by (simp add: sample_rec_def)
  moreover have "recv_bytes sample_key [Rotate 500, Account 600 600 sample_key False 40] = 40"
    by (simp add: recv_bytes_def)
  ultimately show ?thesis
    using approved_connection_stays [of hs sample_key sample_rec sample_options "\<lambda>_. 0"
        "[Rotate 500, Account 600 600 sample_key False 40]"]
    by metis
qed

end
