(* ===== verification/Mqtt.thy ===== *)
theory Mqtt
  imports History
begin

text \<open>
  mqtt.c: the message built from the approved connections, its compression, and the state machine of
  sending it. The heap \<open>bufs\<close> holds the buffers \<open>data\<close> and \<open>out\<close>, so that a double free
  is a fault. The Paho client and zlib are outside the repository: whether a connect succeeds, which
  token a publish is given and the compressed form of a string are arguments. \<open>abi\<close> is the size
  of \<open>long\<close> and of \<open>time_t\<close> on the target; \<open>short\<close> has 2 bytes and
  \<open>unsigned long long\<close> 8.
\<close>

subsection \<open>State\<close>

datatype mqtt_status_enum =
  MQTT_STATUS_INIT | MQTT_STATUS_LOST | MQTT_STATUS_PENDING | MQTT_STATUS_COMPLETE

datatype mqtt_connect_enum = MQTT_CONNECT_ON | MQTT_CONNECT_OFF

definition SEND_TOPIC :: string where "SEND_TOPIC = ''NWSTAT/AUTO/''"
definition RETRIEVE :: string where "RETRIEVE = ''NWSTAT/RETV/''"
definition BROADCST :: string where "BROADCST = ''NWSTAT/BROADCAST''"
definition RECONNECT_INTERVAL :: int where "RECONNECT_INTERVAL = 120"

record abi =
  sizeof_long :: nat
  sizeof_time_t :: nat

record mqtt =
  status :: mqtt_status_enum
  connection :: mqtt_connect_enum
  data_p :: "addr option"
  out_p :: "addr option"
  bufs :: "byte list heap"
  struct_size :: nat
  msg_len :: nat
  device_id :: string
  my_send_topic :: string
  my_retrieve_topic :: string
  last_try :: time_t
  token :: int
  deliveredtoken :: int
  compressed_size :: nat
  subscribed :: "string list"
  published :: "(string \<times> byte list) list"

text \<open>The globals before \<open>init_MQTT\<close>.\<close>

definition mqtt_initial :: mqtt where
  "mqtt_initial = \<lparr>status = MQTT_STATUS_INIT, connection = MQTT_CONNECT_ON, data_p = None, out_p = None,
     bufs = heap_empty, struct_size = 0, msg_len = 0, device_id = [], my_send_topic = [],
     my_retrieve_topic = [], last_try = 0, token = -1, deliveredtoken = 0, compressed_size = 0,
     subscribed = [], published = []\<rparr>"

subsection \<open>Connecting\<close>

definition delivered :: "int \<Rightarrow> mqtt \<Rightarrow> mqtt" where
  "delivered dt m = m\<lparr>deliveredtoken := dt\<rparr>"

definition connect_and_subscribe :: "bool \<Rightarrow> mqtt \<Rightarrow> (int \<times> mqtt) option" where
  "connect_and_subscribe connect_ok m = do {
     m1 \<leftarrow> (if status m = MQTT_STATUS_PENDING then do {
              b \<leftarrow> xfree (bufs m) (data_p m);
              Some (m\<lparr>bufs := b, status := MQTT_STATUS_INIT\<rparr>) }
            else Some m);
     if \<not> connect_ok then Some (1, m1)
     else Some (0, m1\<lparr>subscribed := subscribed m1 @ [BROADCST, my_retrieve_topic m1],
                      connection := MQTT_CONNECT_ON\<rparr>)
   }"

definition connlost :: "time_t \<Rightarrow> bool \<Rightarrow> mqtt \<Rightarrow> mqtt option" where
  "connlost now connect_ok m = do {
     (_, m') \<leftarrow> connect_and_subscribe connect_ok (m\<lparr>connection := MQTT_CONNECT_OFF, last_try := now\<rparr>);
     Some m'
   }"

definition check_MQTT_connection :: "time_t \<Rightarrow> bool \<Rightarrow> mqtt \<Rightarrow> mqtt option" where
  "check_MQTT_connection t connect_ok m =
     (if connection m = MQTT_CONNECT_OFF \<and> t - last_try m > RECONNECT_INTERVAL then do {
        (_, m') \<leftarrow> connect_and_subscribe connect_ok (m\<lparr>last_try := t\<rparr>);
        Some m' }
      else Some m)"

text \<open>\<open>get_device_id\<close> on the output of the command \<open>boxid\<close>; the result \<open>None\<close> is the exit of the
  program (the command could not be run, or printed nothing). \<open>fgets\<close> into \<open>id[32]\<close> reads at
  most 31 characters of the first line.\<close>

definition get_device_id :: "string option \<Rightarrow> string option" where
  "get_device_id output =
     (case output of None \<Rightarrow> None
      | Some s \<Rightarrow> if s = [] then None else Some (takeWhile (\<lambda>c. c \<noteq> CHR 0x0A) (take 31 s)))"

text \<open>\<open>strcpy\<close> of the prefix and the identifier into an array of 32 characters, with the
  terminating NUL.\<close>

definition topic_into :: "string \<Rightarrow> string \<Rightarrow> string option" where
  "topic_into prefix dev = (if length prefix + length dev + 1 \<le> 32 then Some (prefix @ dev) else None)"

definition construct_topic :: "mqtt \<Rightarrow> mqtt option" where
  "construct_topic m = do {
     s \<leftarrow> topic_into SEND_TOPIC (device_id m);
     r \<leftarrow> topic_into RETRIEVE (device_id m);
     Some (m\<lparr>my_send_topic := s, my_retrieve_topic := r\<rparr>)
   }"

definition msg_struct_size :: "abi \<Rightarrow> nat" where
  "msg_struct_size abi = sizeof_long abi * 2 + 2 * 3 + 8 * 2 + sizeof_time_t abi * 2"

definition init_MQTT :: "abi \<Rightarrow> string \<Rightarrow> bool \<Rightarrow> time_t \<Rightarrow> mqtt \<Rightarrow> mqtt option" where
  "init_MQTT abi dev connect_ok now m = do {
     m1 \<leftarrow> construct_topic (m\<lparr>struct_size := msg_struct_size abi, status := MQTT_STATUS_INIT,
              connection := MQTT_CONNECT_OFF, device_id := dev\<rparr>);
     (_, m2) \<leftarrow> connect_and_subscribe connect_ok m1;
     Some (m2\<lparr>last_try := now\<rparr>)
   }"

subsection \<open>The message\<close>

text \<open>The memory image of an \<open>addr_pair\<close>: 16 bytes, with two bytes of padding after
  \<open>dst_port\<close>.\<close>

definition addr_pair_bytes :: "addr_pair \<Rightarrow> byte list" where
  "addr_pair_bytes k = le_bytes 2 (uint (protocol k)) @ le_bytes 2 (uint (src_port k)) @
     le_bytes 4 (uint (src k)) @ le_bytes 2 (uint (dst_port k)) @ [0, 0] @ le_bytes 4 (uint (dst k))"

text \<open>\<open>memcpy\<close> of \<open>n\<close> bytes from offset \<open>i\<close> of an object to offset \<open>o\<close> of a buffer.\<close>

definition store :: "byte list \<Rightarrow> nat \<Rightarrow> byte list \<Rightarrow> byte list option" where
  "store buf off bs =
     (if off + length bs \<le> length buf then Some (take off buf @ bs @ drop (off + length bs) buf) else None)"

definition memcpy :: "byte list \<times> nat \<Rightarrow> byte list \<Rightarrow> nat \<Rightarrow> nat \<Rightarrow> (byte list \<times> nat) option" where
  "memcpy = (\<lambda>(buf, off) obj i n. do {
     bs \<leftarrow> get_bytes obj i n;
     buf' \<leftarrow> store buf off bs;
     Some (buf', off + n) })"

text \<open>The copies for one approved connection, in the order of the code. The two addresses are copied
  with \<open>sizeof(long)\<close> bytes from a field of 4.\<close>

definition pack_conn :: "abi \<Rightarrow> addr_pair \<Rightarrow> history_type \<Rightarrow> byte list \<times> nat \<Rightarrow> (byte list \<times> nat) option" where
  "pack_conn abi k d cur = (let ap = addr_pair_bytes k in do {
     cur \<leftarrow> memcpy cur ap 4 (sizeof_long abi);
     cur \<leftarrow> memcpy cur ap 2 2;
     cur \<leftarrow> memcpy cur ap 12 (sizeof_long abi);
     cur \<leftarrow> memcpy cur ap 8 2;
     cur \<leftarrow> memcpy cur ap 0 2;
     cur \<leftarrow> memcpy cur (le_bytes 8 (uint (total_sent d))) 0 8;
     cur \<leftarrow> memcpy cur (le_bytes 8 (uint (total_recv d))) 0 8;
     cur \<leftarrow> memcpy cur (le_bytes (sizeof_time_t abi) (create_time d)) 0 (sizeof_time_t abi);
     memcpy cur (le_bytes (sizeof_time_t abi) (last_update_time d)) 0 (sizeof_time_t abi)
   })"

partial_function (option) pack_loop ::
  "abi \<Rightarrow> hist \<Rightarrow> addr option \<Rightarrow> byte list \<times> nat \<Rightarrow> (byte list \<times> nat) option" where
  "pack_loop abi hs n cur =
     (case n of None \<Rightarrow> Some cur
      | Some a \<Rightarrow>
          Option.bind (hread (hnodes hs) a) (\<lambda>node.
          Option.bind (hash_next_item (htab hs) (hnodes hs) (Some a)) (\<lambda>(_, next).
          Option.bind (hread (hrecs hs) (node_rec node)) (\<lambda>d.
          Option.bind (if approval d \<noteq> 0 then pack_conn abi (node_key node) d cur else Some cur) (\<lambda>cur'.
            pack_loop abi hs next cur')))))"

text \<open>\<open>deflate(&strm, Z_FINISH)\<close> with \<open>msg_len\<close> bytes of output space: the part of the
  compressed string that fits, whatever its status says, which the code does not look at.\<close>

definition compress_msg :: "(byte list \<Rightarrow> byte list) \<Rightarrow> mqtt \<Rightarrow> mqtt option" where
  "compress_msg deflate m = do {
     a \<leftarrow> data_p m;
     buf \<leftarrow> hread (bufs m) a;
     let z = take (msg_len m) (deflate buf);
     let (p, b) = xmalloc (bufs m) (z @ replicate (msg_len m - length z) 0);
     Some (m\<lparr>bufs := b, out_p := Some p, compressed_size := length z\<rparr>)
   }"

definition construct_MQTT_msg ::
  "abi \<Rightarrow> (byte list \<Rightarrow> byte list) \<Rightarrow> nat \<Rightarrow> hist \<Rightarrow> mqtt \<Rightarrow> (int \<times> mqtt) option" where
  "construct_MQTT_msg abi deflate n hs m =
     (if status m = MQTT_STATUS_PENDING \<or> connection m = MQTT_CONNECT_OFF then Some (1, m)
      else if n = 0 then Some (1, m)
      else do {
        let (p, b) = xmalloc (bufs m) (replicate (struct_size m * n) 0);
        let m1 = m\<lparr>data_p := Some p, bufs := b, status := MQTT_STATUS_PENDING\<rparr>;
        (_, node) \<leftarrow> hash_next_item (htab hs) (hnodes hs) None;
        buf0 \<leftarrow> hread b p;
        (buf, _) \<leftarrow> pack_loop abi hs node (buf0, 0);
        b' \<leftarrow> hwrite b p buf;
        m2 \<leftarrow> compress_msg deflate (m1\<lparr>bufs := b', msg_len := struct_size m * n\<rparr>);
        Some (0, m2) })"

subsection \<open>Sending\<close>

text \<open>\<open>pub\<close> is what the publish does: \<open>Some k\<close> sets the token to \<open>k\<close>, \<open>None\<close> is an error,
  which the code does not look at.\<close>

definition free_buffers :: "mqtt \<Rightarrow> mqtt option" where
  "free_buffers m = do {
     b \<leftarrow> xfree (bufs m) (data_p m);
     b' \<leftarrow> xfree b (out_p m);
     Some (m\<lparr>bufs := b'\<rparr>)
   }"

definition send_MQTT_msg :: "int option \<Rightarrow> mqtt \<Rightarrow> mqtt option" where
  "send_MQTT_msg pub m =
     (if connection m = MQTT_CONNECT_OFF then free_buffers (m\<lparr>status := MQTT_STATUS_COMPLETE\<rparr>)
      else do {
        payload \<leftarrow> (case out_p m of None \<Rightarrow> Some [] | Some a \<Rightarrow> hread (bufs m) a);
        Some (m\<lparr>deliveredtoken := 0,
               token := (case pub of Some k \<Rightarrow> k | None \<Rightarrow> token m),
               published := (if pub = None then published m
                 else published m @ [(my_send_topic m, take (compressed_size m) payload)])\<rparr>) })"

definition check_status :: "mqtt \<Rightarrow> mqtt option" where
  "check_status m =
     (if deliveredtoken m = token m then do {
        m' \<leftarrow> free_buffers (m\<lparr>deliveredtoken := 0\<rparr>);
        Some (m'\<lparr>status := MQTT_STATUS_COMPLETE\<rparr>) }
      else Some m)"

text \<open>The waiting loop of \<open>destory_MQTT\<close>, against the delivery confirmations that arrive while it
  spins (one list element per iteration). The inner \<open>None\<close> means that it is still spinning
  when the list ends.\<close>

fun destory_wait :: "int option list \<Rightarrow> mqtt \<Rightarrow> mqtt option option" where
  "destory_wait cbs m =
     (if status m \<noteq> MQTT_STATUS_PENDING then Some (Some m)
      else case cbs of
        [] \<Rightarrow> Some None
      | c # cs \<Rightarrow> Option.bind (check_status (case c of Some dt \<Rightarrow> delivered dt m | None \<Rightarrow> m)) (destory_wait cs))"

declare destory_wait.simps [simp del]

subsection \<open>What the copies write\<close>

fun store_all :: "byte list \<times> nat \<Rightarrow> byte list list \<Rightarrow> (byte list \<times> nat) option" where
  "store_all cur [] = Some cur"
| "store_all cur (bs # bss) = Option.bind (memcpy cur bs 0 (length bs)) (\<lambda>cur'. store_all cur' bss)"

lemma memcpy_get: "get_bytes obj i n = Some bs \<Longrightarrow> memcpy cur obj i n = memcpy cur bs 0 (length bs)"
  by (cases cur) (auto simp: memcpy_def get_bytes_def split: if_splits)

lemma memcpy_here:
  "memcpy (pre @ rest, length pre) bs 0 (length bs) =
   (if length bs \<le> length rest then Some ((pre @ bs) @ drop (length bs) rest, length (pre @ bs)) else None)"
  by (simp add: memcpy_def get_bytes_def store_def)

lemma store_all_spec:
  "store_all (pre @ rest, length pre) bss =
   (if length (concat bss) \<le> length rest
    then Some ((pre @ concat bss) @ drop (length (concat bss)) rest, length (pre @ concat bss)) else None)"
proof (induction bss arbitrary: pre rest)
  case Nil
  show ?case by simp
next
  case (Cons bs bss)
  show ?case
  proof (cases "length bs \<le> length rest")
    case True
    then have "store_all (pre @ rest, length pre) (bs # bss) =
        store_all ((pre @ bs) @ drop (length bs) rest, length (pre @ bs)) bss"
      using memcpy_here [of pre rest bs] by simp
    also have "\<dots> = (if length (concat bss) \<le> length (drop (length bs) rest)
        then Some (((pre @ bs) @ concat bss) @ drop (length (concat bss)) (drop (length bs) rest),
               length ((pre @ bs) @ concat bss)) else None)"
      by (rule Cons.IH)
    finally show ?thesis using True by (simp add: le_diff_conv2 add.commute)
  next
    case False
    then show ?thesis using memcpy_here [of pre rest bs] by simp
  qed
qed

text \<open>The bytes of one connection on a target where \<open>long\<close> has 4 bytes.\<close>

definition conn_pieces :: "abi \<Rightarrow> addr_pair \<Rightarrow> history_type \<Rightarrow> byte list list" where
  "conn_pieces abi k d =
     [le_bytes 4 (uint (src k)), le_bytes 2 (uint (src_port k)), le_bytes 4 (uint (dst k)),
      le_bytes 2 (uint (dst_port k)), le_bytes 2 (uint (protocol k)),
      le_bytes 8 (uint (total_sent d)), le_bytes 8 (uint (total_recv d)),
      le_bytes (sizeof_time_t abi) (create_time d), le_bytes (sizeof_time_t abi) (last_update_time d)]"

definition conn_bytes :: "abi \<Rightarrow> addr_pair \<Rightarrow> history_type \<Rightarrow> byte list" where
  "conn_bytes abi k d = concat (conn_pieces abi k d)"

lemma length_conn_bytes: "sizeof_long abi = 4 \<Longrightarrow> length (conn_bytes abi k d) = msg_struct_size abi"
  by (simp add: conn_bytes_def conn_pieces_def msg_struct_size_def)

lemma addr_pair_fields:
  "get_bytes (addr_pair_bytes k) 4 4 = Some (le_bytes 4 (uint (src k)))"
  "get_bytes (addr_pair_bytes k) 2 2 = Some (le_bytes 2 (uint (src_port k)))"
  "get_bytes (addr_pair_bytes k) 12 4 = Some (le_bytes 4 (uint (dst k)))"
  "get_bytes (addr_pair_bytes k) 8 2 = Some (le_bytes 2 (uint (dst_port k)))"
  "get_bytes (addr_pair_bytes k) 0 2 = Some (le_bytes 2 (uint (protocol k)))"
  "get_bytes (addr_pair_bytes k) 12 8 = None"
  by (simp_all add: get_bytes_def addr_pair_bytes_def)

lemma pack_conn_store:
  assumes "sizeof_long abi = 4"
  shows "pack_conn abi k d cur = store_all cur (conn_pieces abi k d)"
  using assms addr_pair_fields(1-5) [of k, THEN memcpy_get]
  by (simp add: pack_conn_def conn_pieces_def Let_def)

lemma pack_conn_spec:
  assumes "sizeof_long abi = 4"
  shows "pack_conn abi k d (pre @ rest, length pre) =
   (if msg_struct_size abi \<le> length rest
    then Some ((pre @ conn_bytes abi k d) @ drop (msg_struct_size abi) rest, length (pre @ conn_bytes abi k d))
    else None)"
  unfolding pack_conn_store [OF assms] store_all_spec
  by (simp only: conn_bytes_def [symmetric] length_conn_bytes [OF assms])

text \<open>Where \<open>long\<close> has 8 bytes, the copy of the destination address reads past the key object.\<close>

lemma pack_conn_lp64: "sizeof_long abi = 8 \<Longrightarrow> pack_conn abi k d cur = None"
  by (cases cur) (auto simp: pack_conn_def Let_def opt_simps memcpy_def addr_pair_fields)

subsection \<open>What the loop writes\<close>

fun pack_list ::
  "abi \<Rightarrow> (addr_pair \<times> history_type) list \<Rightarrow> byte list \<times> nat \<Rightarrow> (byte list \<times> nat) option" where
  "pack_list abi [] cur = Some cur"
| "pack_list abi ((k, d) # cs) cur =
     Option.bind (if approval d \<noteq> 0 then pack_conn abi k d cur else Some cur) (pack_list abi cs)"

lemma pack_loop_list:
  "hist_inv hs Cs \<Longrightarrow> concat Cs = xs @ ys \<Longrightarrow>
   pack_loop abi hs (snd (first_of ys)) cur = pack_list abi (map (conn_at hs) ys) cur"
proof (induction ys arbitrary: xs cur)
  case Nil
  then show ?case by (subst pack_loop.simps) (simp add: first_of_def)
next
  case (Cons a ys)
  obtain n where n: "cells (hnodes hs) a = Some n" using hist_invD(1) [OF Cons.prems] by blast
  obtain d where d: "cells (hrecs hs) (node_rec n) = Some d"
    using hist_invD(2) [OF Cons.prems] n by (auto simp: rec_at_def)
  have ca: "conn_at hs a = (node_key n, d)" using n d by (simp add: conn_at_def key_at_def rec_at_def)
  have "pack_loop abi hs (snd (first_of ys)) cur' = pack_list abi (map (conn_at hs) ys) cur'" for cur'
    by (rule Cons.IH [of "xs @ [a]"]) (use Cons.prems in simp_all)
  then have IH: "pack_loop abi hs (snd (first_of ys)) = pack_list abi (map (conn_at hs) ys)" by (rule ext)
  have "snd (first_of (a # ys)) = Some a" by (simp add: first_of_def)
  then show ?case
    using n d ca hist_invD(3) [OF Cons.prems] IH
    by (subst pack_loop.simps) (cases "first_of ys"; simp add: hread_def)
qed

definition approved :: "(addr_pair \<times> history_type) list \<Rightarrow> (addr_pair \<times> history_type) list" where
  "approved cs = filter (\<lambda>(k, d). approval d \<noteq> 0) cs"

definition message :: "abi \<Rightarrow> (addr_pair \<times> history_type) list \<Rightarrow> byte list" where
  "message abi cs = concat (map (\<lambda>(k, d). conn_bytes abi k d) (approved cs))"

lemma approved_simps [simp]:
  "approved [] = []"
  "approved ((k, d) # cs) = (if approval d \<noteq> 0 then (k, d) # approved cs else approved cs)"
  by (simp_all add: approved_def)

lemma message_simps [simp]:
  "message abi [] = []"
  "message abi ((k, d) # cs) = (if approval d \<noteq> 0 then conn_bytes abi k d @ message abi cs else message abi cs)"
  by (simp_all add: message_def)

lemma length_message:
  "sizeof_long abi = 4 \<Longrightarrow> length (message abi cs) = msg_struct_size abi * length (approved cs)"
  by (induction cs) (auto simp: length_conn_bytes)

lemma pack_list_spec:
  assumes "sizeof_long abi = 4"
  shows "pack_list abi cs (pre @ rest, length pre) =
   (if length (message abi cs) \<le> length rest
    then Some ((pre @ message abi cs) @ drop (length (message abi cs)) rest, length (pre @ message abi cs))
    else None)"
proof (induction cs arbitrary: pre rest)
  case Nil
  show ?case by simp
next
  case (Cons c cs)
  obtain k d where c: "c = (k, d)" by (cases c)
  show ?case
  proof (cases "approval d = 0 \<or> \<not> msg_struct_size abi \<le> length rest")
    case True
    with c Cons show ?thesis
      by (auto simp: pack_conn_spec [OF assms] length_conn_bytes [OF assms])
  next
    case False
    then have "pack_list abi (c # cs) (pre @ rest, length pre) =
        pack_list abi cs ((pre @ conn_bytes abi k d) @ drop (msg_struct_size abi) rest, length (pre @ conn_bytes abi k d))"
      using c by (simp add: pack_conn_spec [OF assms])
    also note Cons.IH
    finally show ?thesis using False c
      by (simp add: length_conn_bytes [OF assms] le_diff_conv2 add.commute)
  qed
qed

definition msg_data :: "abi \<Rightarrow> nat \<Rightarrow> (addr_pair \<times> history_type) list \<Rightarrow> byte list" where
  "msg_data abi n cs = message abi cs @ replicate (msg_struct_size abi * n - length (message abi cs)) 0"

text \<open>The state after a successful construction: the two buffers, their contents and the sizes.\<close>

definition constructed ::
  "abi \<Rightarrow> (byte list \<Rightarrow> byte list) \<Rightarrow> nat \<Rightarrow> (addr_pair \<times> history_type) list \<Rightarrow> mqtt \<Rightarrow> mqtt \<Rightarrow> bool" where
  "constructed abi deflate n cs m m' \<longleftrightarrow>
     (let d = msg_data abi n cs; len = msg_struct_size abi * n; z = take len (deflate d); p = brk (bufs m)
      in m' = m\<lparr>data_p := Some p, out_p := Some (Suc p), status := MQTT_STATUS_PENDING,
            bufs := \<lparr>cells = (cells (bufs m))(p \<mapsto> d, Suc p \<mapsto> z @ replicate (len - length z) 0), brk = Suc (Suc p)\<rparr>,
            msg_len := len, compressed_size := length z\<rparr>)"

lemma construct_pack:
  assumes "hist_inv hs Cs" and "status m \<noteq> MQTT_STATUS_PENDING" and "connection m = MQTT_CONNECT_ON" and "0 < n"
  shows "construct_MQTT_msg abi deflate n hs m =
     (let (p, b) = xmalloc (bufs m) (replicate (struct_size m * n) 0) in
      Option.bind (pack_list abi (map (conn_at hs) (concat Cs)) (replicate (struct_size m * n) 0, 0))
        (\<lambda>(buf, _). Option.bind (hwrite b p buf)
          (\<lambda>b'. Option.bind (compress_msg deflate (m\<lparr>data_p := Some p, status := MQTT_STATUS_PENDING,
                    bufs := b', msg_len := struct_size m * n\<rparr>))
            (\<lambda>m2. Some (0, m2)))))"
proof -
  have nx: "hash_next_item (htab hs) (hnodes hs) None = Some (first_of (concat Cs))"
    using assms(1) by (intro hash_next_item_first) (simp add: hist_inv_def addr_table.table_inv_def)
  have loop: "pack_loop abi hs (snd (first_of (concat Cs))) = pack_list abi (map (conn_at hs) (concat Cs))"
    by (rule ext, rule pack_loop_list [OF assms(1), of "[]"]) simp
  show ?thesis using assms(2-4) loop
    by (cases "first_of (concat Cs)") (simp add: construct_MQTT_msg_def nx xmalloc_def Let_def hread_def)
qed

lemma construct_spec:
  assumes "hist_inv hs Cs" and "cs = map (conn_at hs) (concat Cs)"
    and "status m \<noteq> MQTT_STATUS_PENDING" and "connection m = MQTT_CONNECT_ON" and "0 < n"
    and long: "sizeof_long abi = 4" and ss: "struct_size m = msg_struct_size abi"
  shows "if length (approved cs) \<le> n
     then \<exists>m'. construct_MQTT_msg abi deflate n hs m = Some (0, m') \<and> constructed abi deflate n cs m m'
     else construct_MQTT_msg abi deflate n hs m = None"
proof -
  have pos: "0 < msg_struct_size abi" by (simp add: msg_struct_size_def)
  let ?len = "msg_struct_size abi * n"
  have fits: "length (message abi cs) \<le> ?len \<longleftrightarrow> length (approved cs) \<le> n"
    using pos by (simp add: length_message [OF long])
  have pl: "pack_list abi cs (replicate ?len 0, 0) =
      (if length (approved cs) \<le> n then Some (msg_data abi n cs, length (message abi cs)) else None)"
    using pack_list_spec [OF long, of cs "[]" "replicate ?len 0"]
    by (simp add: fits msg_data_def drop_replicate)
  show ?thesis
  proof (cases "length (approved cs) \<le> n")
    case True
    then show ?thesis
      using pl unfolding construct_pack [OF assms(1,3,4,5)] assms(2) [symmetric] ss
      by (simp add: xmalloc_def hwrite_def compress_msg_def hread_def Let_def constructed_def)
  next
    case False
    then show ?thesis
      using pl unfolding construct_pack [OF assms(1,3,4,5)] assms(2) [symmetric] ss
      by (simp add: xmalloc_def Let_def)
  qed
qed

lemma approved_count_length: "approved_count cs = int (length (approved cs))"
  by (simp add: approved_count_def approved_def)

subsection \<open>The receiver\<close>

text \<open>The part of \<open>save_data\<close> in Python_Client/mqtt_client.py that unpacks the message: records of
  \<open>struct\<close> type \<open>=LHLHHQQLL\<close>, 38 bytes, and the byte order of the two addresses reversed. A
  piece shorter than a record is an error.\<close>

record py_row =
  outer_ip :: int
  outer_port :: int
  inner_ip :: int
  inner_port :: int
  row_protocol :: int
  row_recv :: int
  row_send :: int
  row_create :: int
  row_end :: int

definition STRUCT_SIZE :: nat where "STRUCT_SIZE = 38"

definition field :: "byte list \<Rightarrow> nat \<Rightarrow> nat \<Rightarrow> int" where
  "field bs i n = le_value (take n (drop i bs))"

definition swap_u32 :: "int \<Rightarrow> int" where
  "swap_u32 x = uint (ntohl (word_of_int x))"

definition unpack :: "byte list \<Rightarrow> py_row option" where
  "unpack bs = (if length bs = STRUCT_SIZE then Some
     \<lparr>outer_ip = swap_u32 (field bs 0 4), outer_port = field bs 4 2,
      inner_ip = swap_u32 (field bs 6 4), inner_port = field bs 10 2,
      row_protocol = field bs 12 2, row_recv = field bs 14 8, row_send = field bs 22 8,
      row_create = field bs 30 4, row_end = field bs 34 4\<rparr> else None)"

function save_data_rows :: "byte list \<Rightarrow> py_row list option" where
  "save_data_rows bs =
     (if bs = [] then Some []
      else do { r \<leftarrow> unpack (take STRUCT_SIZE bs);
                rs \<leftarrow> save_data_rows (drop STRUCT_SIZE bs);
                Some (r # rs) })"
  by pat_completeness auto
termination
  by (relation "measure length") (auto simp: STRUCT_SIZE_def)

declare save_data_rows.simps [simp del]

text \<open>The row the receiver should get for a connection.\<close>

definition row_of :: "addr_pair \<times> history_type \<Rightarrow> py_row" where
  "row_of = (\<lambda>(k, d).
     \<lparr>outer_ip = uint (ntohl (src k)), outer_port = uint (src_port k),
      inner_ip = uint (ntohl (dst k)), inner_port = uint (dst_port k),
      row_protocol = uint (protocol k), row_recv = uint (total_sent d), row_send = uint (total_recv d),
      row_create = create_time d, row_end = last_update_time d\<rparr>)"

definition ilp32 :: abi where "ilp32 = \<lparr>sizeof_long = 4, sizeof_time_t = 4\<rparr>"

definition times_fit :: "history_type \<Rightarrow> bool" where
  "times_fit d \<longleftrightarrow> 0 \<le> create_time d \<and> create_time d < 2 ^ 32 \<and>
     0 \<le> last_update_time d \<and> last_update_time d < 2 ^ 32"

lemma msg_struct_size_ilp32: "msg_struct_size ilp32 = STRUCT_SIZE"
  by (simp add: msg_struct_size_def ilp32_def STRUCT_SIZE_def)

lemma le_value_u16: "le_value (le_bytes 2 (uint (w :: u16))) = uint w"
  and le_value_u32: "le_value (le_bytes 4 (uint (v :: u32))) = uint v"
  and le_value_u64: "le_value (le_bytes 8 (uint (x :: u64))) = uint x"
  by (rule le_value_word; simp)+

lemma unpack_conn:
  assumes "times_fit d"
  shows "unpack (conn_bytes ilp32 k d) = Some (row_of (k, d))"
proof -
  have len: "length (conn_bytes ilp32 k d) = STRUCT_SIZE"
    using length_conn_bytes [of ilp32 k d] msg_struct_size_ilp32 by (simp add: ilp32_def)
  have t: "le_value (le_bytes 4 (create_time d)) = create_time d"
      "le_value (le_bytes 4 (last_update_time d)) = last_update_time d"
    using assms by (simp_all add: times_fit_def le_value_le_bytes)
  have "conn_bytes ilp32 k d = le_bytes 4 (uint (src k)) @ le_bytes 2 (uint (src_port k)) @
      le_bytes 4 (uint (dst k)) @ le_bytes 2 (uint (dst_port k)) @ le_bytes 2 (uint (protocol k)) @
      le_bytes 8 (uint (total_sent d)) @ le_bytes 8 (uint (total_recv d)) @
      le_bytes 4 (create_time d) @ le_bytes 4 (last_update_time d)"
    by (simp add: conn_bytes_def conn_pieces_def ilp32_def)
  then have "field (conn_bytes ilp32 k d) 0 4 = uint (src k)"
      "field (conn_bytes ilp32 k d) 4 2 = uint (src_port k)"
      "field (conn_bytes ilp32 k d) 6 4 = uint (dst k)"
      "field (conn_bytes ilp32 k d) 10 2 = uint (dst_port k)"
      "field (conn_bytes ilp32 k d) 12 2 = uint (protocol k)"
      "field (conn_bytes ilp32 k d) 14 8 = uint (total_sent d)"
      "field (conn_bytes ilp32 k d) 22 8 = uint (total_recv d)"
      "field (conn_bytes ilp32 k d) 30 4 = create_time d"
      "field (conn_bytes ilp32 k d) 34 4 = last_update_time d"
    by (simp_all add: field_def le_value_u16 le_value_u32 le_value_u64 t del: le_bytes.simps)
  with len show ?thesis by (simp add: unpack_def row_of_def swap_u32_def)
qed

lemma save_data_message:
  "\<forall>(k, d) \<in> set (approved cs). times_fit d \<Longrightarrow>
   save_data_rows (message ilp32 cs) = Some (map row_of (approved cs))"
proof (induction cs)
  case Nil
  show ?case by (subst save_data_rows.simps) simp
next
  case (Cons c cs)
  obtain k d where c: "c = (k, d)" by (cases c)
  have len: "length (conn_bytes ilp32 k d) = STRUCT_SIZE" "conn_bytes ilp32 k d \<noteq> []"
    using length_conn_bytes [of ilp32 k d] msg_struct_size_ilp32
    by (simp_all add: ilp32_def) (auto simp: STRUCT_SIZE_def)
  show ?case
  proof (cases "approval d = 0")
    case True
    with Cons c show ?thesis by simp
  next
    case False
    with Cons c len show ?thesis
      by (subst save_data_rows.simps) (auto simp: unpack_conn)
  qed
qed

subsection \<open>The client as a state machine\<close>

text \<open>
  The operations above as the tick, the callbacks of the Paho client and the exit path interleave
  them. \<open>ready\<close> is the global \<open>msg_ready\<close> of iftop.c: a message was built and not yet
  handed to \<open>send_MQTT_msg\<close>. \<open>inflight\<close> is the library's side: the token of the message
  published and not yet confirmed. The library confirms a token at most once and only while it is in
  flight, and its tokens are positive (MQTTClient.h). An event that is not possible in a state leaves
  it unchanged; \<open>None\<close> is a memory fault.
\<close>

record mach =
  mq :: mqtt
  ready :: bool
  inflight :: "int option"

datatype mqtt_event =
    Construct nat hist
  | Send "int option"
  | CheckStatus
  | CheckConnection time_t bool
  | Delivered
  | ConnLost time_t bool

fun token_ok :: "int option \<Rightarrow> bool" where
  "token_ok None = True"
| "token_ok (Some k) = (0 < k)"

fun event_step ::
  "abi \<Rightarrow> (byte list \<Rightarrow> byte list) \<Rightarrow> mqtt_event \<Rightarrow> mach \<Rightarrow> mach option" where
  "event_step abi deflate (Construct n hs) s =
     (if ready s then Some s
      else map_option (\<lambda>(rc, m). s\<lparr>mq := m, ready := (rc = 0)\<rparr>)
        (construct_MQTT_msg abi deflate n hs (mq s)))"
| "event_step abi deflate (Send pub) s =
     (if ready s \<and> token_ok pub then map_option (\<lambda>m. s\<lparr>mq := m, ready := False,
          inflight := (if connection (mq s) = MQTT_CONNECT_OFF then inflight s else pub)\<rparr>)
        (send_MQTT_msg pub (mq s))
      else Some s)"
| "event_step abi deflate CheckStatus s =
     map_option (\<lambda>m. s\<lparr>mq := m\<rparr>) (check_status (mq s))"
| "event_step abi deflate (CheckConnection t ok) s =
     map_option (\<lambda>m. s\<lparr>mq := m\<rparr>) (check_MQTT_connection t ok (mq s))"
| "event_step abi deflate Delivered s =
     (case inflight s of None \<Rightarrow> Some s
      | Some dt \<Rightarrow> Some (s\<lparr>mq := delivered dt (mq s), inflight := None\<rparr>))"
| "event_step abi deflate (ConnLost t ok) s = map_option (\<lambda>m. s\<lparr>mq := m\<rparr>) (connlost t ok (mq s))"

abbreviation event_run :: "abi \<Rightarrow> (byte list \<Rightarrow> byte list) \<Rightarrow> mqtt_event list \<Rightarrow> mach \<Rightarrow> mach option" where
  "event_run abi deflate \<equiv> run_events (event_step abi deflate)"

text \<open>Ownership of the buffers: while a message is pending both are live, and the next free of each
  is one that has not happened yet.\<close>

definition owns_buffers :: "mqtt \<Rightarrow> bool" where
  "owns_buffers m \<longleftrightarrow> (\<exists>a b. data_p m = Some a \<and> out_p m = Some b \<and> a \<noteq> b \<and>
     cells (bufs m) a \<noteq> None \<and> cells (bufs m) b \<noteq> None)"

definition mach_inv :: "abi \<Rightarrow> mach \<Rightarrow> bool" where
  "mach_inv abi s \<longleftrightarrow> (let m = mq s in
     struct_size m = msg_struct_size abi \<and> heap_ok (bufs m) \<and>
     (status m = MQTT_STATUS_PENDING \<longrightarrow> owns_buffers m \<and> connection m = MQTT_CONNECT_ON) \<and>
     (ready s \<longrightarrow> status m = MQTT_STATUS_PENDING \<and> inflight s = None) \<and>
     (deliveredtoken m = token m \<longrightarrow> status m = MQTT_STATUS_PENDING \<and> inflight s = None) \<and>
     (inflight s \<noteq> None \<longrightarrow> inflight s = Some (token m) \<and> status m = MQTT_STATUS_PENDING) \<and>
     token m \<noteq> 0 \<and> (ready s \<longrightarrow> deliveredtoken m \<noteq> token m))"

definition event_ok :: "mqtt_event \<Rightarrow> bool" where
  "event_ok e \<longleftrightarrow> (case e of
     Construct n hs \<Rightarrow> hist_ok hs \<and> (\<exists>cs. connections hs = Some cs \<and> approved_count cs \<le> int n)
   | ConnLost t ok \<Rightarrow> False
   | _ \<Rightarrow> True)"

lemma owns_buffers_upd [simp]:
  "owns_buffers (m\<lparr>deliveredtoken := x\<rparr>) = owns_buffers m"
  "owns_buffers (m\<lparr>token := x\<rparr>) = owns_buffers m"
  "owns_buffers (m\<lparr>published := ps\<rparr>) = owns_buffers m"
  by (simp_all add: owns_buffers_def)

lemma free_buffers_owned:
  assumes "owns_buffers m" and "heap_ok (bufs m)"
  shows "\<exists>b. free_buffers m = Some (m\<lparr>bufs := b\<rparr>) \<and> heap_ok b"
proof -
  obtain a b where "data_p m = Some a" "out_p m = Some b" "a \<noteq> b"
      "cells (bufs m) a \<noteq> None" "cells (bufs m) b \<noteq> None"
    using assms(1) by (auto simp: owns_buffers_def)
  with assms(2) show ?thesis
    by (intro exI [of _ "(bufs m)\<lparr>cells := (cells (bufs m))(a := None, b := None)\<rparr>"])
      (auto simp: free_buffers_def xfree_def heap_simps heap_ok_def)
qed

lemma construct_inv:
  assumes I: "mach_inv abi s" and long: "sizeof_long abi = 4" and ok: "hist_ok hs"
    and cs: "connections hs = Some cs" "approved_count cs \<le> int n"
  shows "\<exists>rc m. construct_MQTT_msg abi deflate n hs (mq s) = Some (rc, m) \<and>
     (rc = 0 \<and> status (mq s) \<noteq> MQTT_STATUS_PENDING \<and> connection (mq s) = MQTT_CONNECT_ON \<and>
        constructed abi deflate n cs (mq s) m \<or> rc = 1 \<and> m = mq s)"
proof -
  obtain Cs where hi: "hist_inv hs Cs" using ok by (auto simp: hist_ok_def)
  have c: "cs = map (conn_at hs) (concat Cs)" using connections_inv [OF hi] cs by simp
  have ss: "struct_size (mq s) = msg_struct_size abi" using I by (simp add: mach_inv_def Let_def)
  have le: "length (approved cs) \<le> n" using cs(2) by (simp add: approved_count_length)
  show ?thesis
  proof (cases "status (mq s) = MQTT_STATUS_PENDING \<or> connection (mq s) = MQTT_CONNECT_OFF \<or> n = 0")
    case True
    then show ?thesis by (auto simp: construct_MQTT_msg_def)
  next
    case False
    then have "connection (mq s) = MQTT_CONNECT_ON" "0 < n"
      by (auto intro: mqtt_connect_enum.exhaust [of "connection (mq s)"])
    with False construct_spec [OF hi c _ _ _ long ss, of n deflate] le show ?thesis by auto
  qed
qed

lemma constructed_inv:
  assumes "mach_inv abi s" and "constructed abi deflate n cs (mq s) m"
    and "status (mq s) \<noteq> MQTT_STATUS_PENDING" and "connection (mq s) = MQTT_CONNECT_ON"
  shows "mach_inv abi (s\<lparr>mq := m, ready := True\<rparr>)"
  using assms by (auto simp: mach_inv_def constructed_def Let_def owns_buffers_def heap_ok_def less_Suc_eq)

lemma event_inv:
  assumes I: "mach_inv abi s" and long: "sizeof_long abi = 4" and ok: "event_ok e"
  shows "\<exists>s'. event_step abi deflate e s = Some s' \<and> mach_inv abi s'"
proof (cases e)
  case (Construct n hs)
  show ?thesis
  proof (cases "ready s")
    case True
    with I Construct show ?thesis by simp
  next
    case False
    obtain cs where cs: "hist_ok hs" "connections hs = Some cs" "approved_count cs \<le> int n"
      using ok Construct by (auto simp: event_ok_def)
    have "mach_inv abi (s\<lparr>mq := mq s, ready := False\<rparr>)" using I False by (simp add: mach_inv_def)
    with construct_inv [OF I long cs, of deflate] constructed_inv [OF I] False Construct
    show ?thesis by fastforce
  qed
next
  case (Send pub)
  show ?thesis
  proof (cases "ready s \<and> token_ok pub")
    case True
    then have r: "status (mq s) = MQTT_STATUS_PENDING" "owns_buffers (mq s)" "connection (mq s) = MQTT_CONNECT_ON"
      using I by (auto simp: mach_inv_def Let_def)
    then obtain b v where b: "out_p (mq s) = Some b" "cells (bufs (mq s)) b = Some v"
      by (auto simp: owns_buffers_def)
    show ?thesis using True I r b Send
      by (cases pub) (simp_all add: mach_inv_def Let_def send_MQTT_msg_def hread_def)
  next
    case False
    with I Send show ?thesis by auto
  qed
next
  case CheckStatus
  show ?thesis
  proof (cases "deliveredtoken (mq s) = token (mq s)")
    case True
    let ?m = "(mq s)\<lparr>deliveredtoken := 0\<rparr>"
    have "owns_buffers ?m" "heap_ok (bufs ?m)"
      using I True by (auto simp: mach_inv_def Let_def owns_buffers_def)
    then obtain b where "free_buffers ?m = Some (?m\<lparr>bufs := b\<rparr>)" "heap_ok b"
      using free_buffers_owned by blast
    with I True CheckStatus show ?thesis by (auto simp: check_status_def mach_inv_def Let_def)
  next
    case False
    with I CheckStatus show ?thesis by (simp add: check_status_def)
  qed
next
  case (CheckConnection t conn)
  show ?thesis
  proof (cases "connection (mq s) = MQTT_CONNECT_OFF")
    case True
    then have "status (mq s) \<noteq> MQTT_STATUS_PENDING" using I by (auto simp: mach_inv_def Let_def)
    with I CheckConnection show ?thesis
      by (cases conn) (simp_all add: check_MQTT_connection_def connect_and_subscribe_def mach_inv_def Let_def)
  next
    case False
    with I CheckConnection show ?thesis by (simp add: check_MQTT_connection_def)
  qed
next
  case Delivered
  then show ?thesis using I
    by (cases "inflight s") (simp_all add: mach_inv_def Let_def delivered_def)
next
  case (ConnLost t conn)
  with ok show ?thesis by (simp add: event_ok_def)
qed

interpretation client: safe_machine "event_step abi deflate" "mach_inv abi" "\<lambda>e s. sizeof_long abi = 4 \<and> event_ok e"
  for abi deflate
  by unfold_locales (use event_inv in blast)

lemma event_run_inv:
  "mach_inv abi s \<Longrightarrow> sizeof_long abi = 4 \<Longrightarrow> list_all event_ok es \<Longrightarrow>
   \<exists>s'. event_run abi deflate es s = Some s' \<and> mach_inv abi s'"
  by (rule client.run_safe) (simp_all add: list_all_iff)

lemma init_mach_inv:
  "init_MQTT abi dev ok now mqtt_initial = Some m \<Longrightarrow> mach_inv abi \<lparr>mq = m, ready = False, inflight = None\<rparr>"
  by (auto simp: init_MQTT_def construct_topic_def connect_and_subscribe_def mqtt_initial_def opt_simps
      mach_inv_def Let_def split: if_splits)

subsection \<open>Properties\<close>

text \<open>Building the message, on a target whose \<open>long\<close> has 4 bytes: with room for \<open>n\<close> records the
  loop over the hash table writes the approved connections, in table order and nothing else, at the
  start of the zeroed buffer and the client is pending; with more approved connections than \<open>n\<close>
  it writes past the buffer.\<close>

theorem construct_writes_approved:
  assumes "hist_ok hs" and "connections hs = Some cs" and "status m \<noteq> MQTT_STATUS_PENDING"
    and "connection m = MQTT_CONNECT_ON" and "0 < n" and "sizeof_long abi = 4"
    and "struct_size m = msg_struct_size abi"
  shows "if approved_count cs \<le> int n
     then \<exists>m' a. construct_MQTT_msg abi deflate n hs m = Some (0, m') \<and> status m' = MQTT_STATUS_PENDING \<and>
       data_p m' = Some a \<and> hread (bufs m') a = Some (concat (map (\<lambda>(k, d). conn_bytes abi k d)
           (filter (\<lambda>(k, d). approval d \<noteq> 0) cs))
         @ replicate (msg_struct_size abi * (n - length (filter (\<lambda>(k, d). approval d \<noteq> 0) cs))) 0)
     else construct_MQTT_msg abi deflate n hs m = None"
proof -
  obtain Cs where hi: "hist_inv hs Cs" using assms(1) by (auto simp: hist_ok_def)
  then have c: "cs = map (conn_at hs) (concat Cs)" using assms(2) connections_inv by simp
  have "msg_data abi n cs = concat (map (\<lambda>(k, d). conn_bytes abi k d) (filter (\<lambda>(k, d). approval d \<noteq> 0) cs))
      @ replicate (msg_struct_size abi * (n - length (filter (\<lambda>(k, d). approval d \<noteq> 0) cs))) 0"
    using length_message [OF assms(6), of cs]
    by (simp add: msg_data_def message_def approved_def diff_mult_distrib2)
  with construct_spec [OF hi c assms(3-7), of deflate] show ?thesis
    by (auto simp: approved_count_length constructed_def Let_def hread_def)
qed

definition sample_mqtt :: mqtt where
  "sample_mqtt = mqtt_initial\<lparr>struct_size := STRUCT_SIZE\<rparr>"

lemma sample_mqtt_fields:
  "status sample_mqtt \<noteq> MQTT_STATUS_PENDING" "connection sample_mqtt = MQTT_CONNECT_ON"
  "struct_size sample_mqtt = msg_struct_size ilp32" "sizeof_long ilp32 = 4"
  by (simp_all add: sample_mqtt_def mqtt_initial_def msg_struct_size_ilp32) (simp add: ilp32_def)

theorem construct_writes_approved_witness:
  "\<exists>hs m' a. connections hs = Some [(sample_key, sample_rec)] \<and>
     construct_MQTT_msg ilp32 id 1 hs sample_mqtt = Some (0, m') \<and> data_p m' = Some a \<and>
     hread (bufs m') a = Some (conn_bytes ilp32 sample_key sample_rec)"
proof -
  obtain hs where hs: "one_conn sample_key sample_rec hs" using sample_history by blast
  then have h: "hist_ok hs" "connections hs = Some [(sample_key, sample_rec)]" by (simp_all add: one_conn_def)
  have "approval sample_rec = 1" by (simp add: sample_rec_def)
  with construct_writes_approved [OF h sample_mqtt_fields(1,2) _ sample_mqtt_fields(4,3), of 1 id] h(2)
  show ?thesis by auto
qed



text \<open>C10. Rotation and message building fit together: the size that \<open>history_rotate\<close> returns is
  enough for the message, whatever the reads of freed records yield, so building the message right
  after a rotation never writes past the buffer.\<close>

theorem rotate_then_construct:
  assumes "hist_ok hs" and "history_rotate options stale t hs = Some (hs', sz)"
    and "struct_size m = msg_struct_size abi" and "sizeof_long abi = 4"
  shows "\<exists>rc m'. construct_MQTT_msg abi deflate (nat sz) hs' m = Some (rc, m')"
proof -
  obtain Cs where hi: "hist_inv hs Cs" using assms(1) by (auto simp: hist_ok_def)
  then obtain Cs' where R: "hist_inv hs' Cs'" "length (approved (map (conn_at hs') (concat Cs'))) \<le> nat sz"
    using rotate_spec [OF hi, of options stale t] assms(2) by (auto simp: approved_count_length)
  show ?thesis
  proof (cases "status m = MQTT_STATUS_PENDING \<or> connection m = MQTT_CONNECT_OFF \<or> nat sz = 0")
    case True
    then show ?thesis by (auto simp: construct_MQTT_msg_def)
  next
    case False
    then have "connection m = MQTT_CONNECT_ON" "0 < nat sz"
      by (auto intro: mqtt_connect_enum.exhaust [of "connection m"])
    with False construct_spec [OF R(1) refl _ _ _ assms(4,3), of "nat sz" deflate] R(2) show ?thesis by auto
  qed
qed

theorem rotate_then_construct_witness:
  "\<exists>hs hs' sz rc m'. history_rotate sample_options (\<lambda>_. 7) 500 hs = Some (hs', sz) \<and>
     construct_MQTT_msg ilp32 id (nat sz) hs' sample_mqtt = Some (rc, m')"
proof -
  obtain hs where hs: "one_conn sample_key sample_rec hs" using sample_history by blast
  then have h: "hist_ok hs" by (simp add: one_conn_def)
  obtain hs' sz where r: "history_rotate sample_options (\<lambda>_. 7) 500 hs = Some (hs', sz)"
    using rotate_map [OF h, of sample_options "\<lambda>_. 7" 500] by blast
  from rotate_then_construct [OF h r sample_mqtt_fields(3,4), of id] r show ?thesis by blast
qed

text \<open>C34. On a target whose \<open>long\<close> has 8 bytes, building a message for a history with an approved
  connection reads past the end of its key: the destination address, the last 4 bytes of the object,
  is copied with \<open>sizeof(long)\<close> bytes.\<close>

theorem lp64_message_overreads:
  assumes "hist_ok hs" and "connections hs = Some cs" and "status m \<noteq> MQTT_STATUS_PENDING"
    and "connection m = MQTT_CONNECT_ON" and "0 < n" and "sizeof_long abi = 8" and "0 < approved_count cs"
  shows "construct_MQTT_msg abi deflate n hs m = None"
proof -
  obtain Cs where hi: "hist_inv hs Cs" using assms(1) by (auto simp: hist_ok_def)
  then have c: "cs = map (conn_at hs) (concat Cs)" using assms(2) connections_inv by simp
  have "pack_list abi cs cur = None" if "approved cs \<noteq> []" for cur cs
    using that
  proof (induction cs arbitrary: cur)
    case Nil
    then show ?case by simp
  next
    case (Cons c cs)
    then show ?case by (cases c; cases cur) (auto simp: pack_conn_lp64 [OF assms(6)])
  qed
  moreover have "approved cs \<noteq> []" using assms(7) by (auto simp: approved_count_length)
  ultimately show ?thesis
    unfolding construct_pack [OF hi assms(3,4,5)] c [symmetric] by (simp add: xmalloc_def)
qed

theorem lp64_message_overreads_witness:
  "\<exists>hs. connections hs = Some [(sample_key, sample_rec)] \<and>
     construct_MQTT_msg \<lparr>sizeof_long = 8, sizeof_time_t = 8\<rparr> id 1 hs sample_mqtt = None"
proof -
  obtain hs where hs: "one_conn sample_key sample_rec hs" using sample_history by blast
  then have h: "hist_ok hs" "connections hs = Some [(sample_key, sample_rec)]" by (simp_all add: one_conn_def)
  have "0 < approved_count [(sample_key, sample_rec)]" by (simp add: sample_rec_def)
  with lp64_message_overreads [OF h sample_mqtt_fields(1,2), of 1 "\<lparr>sizeof_long = 8, sizeof_time_t = 8\<rparr>" id] h(2)
  show ?thesis by auto
qed


definition sample_boot :: mqtt where
  "sample_boot = mqtt_initial\<lparr>struct_size := 38, connection := MQTT_CONNECT_ON, device_id := ''42'',
     my_send_topic := ''NWSTAT/AUTO/42'', my_retrieve_topic := ''NWSTAT/RETV/42'', last_try := 5,
     subscribed := [''NWSTAT/BROADCAST'', ''NWSTAT/RETV/42'']\<rparr>"

lemma sample_boot_init: "init_MQTT ilp32 ''42'' True 5 mqtt_initial = Some sample_boot"
  by (simp add: init_MQTT_def construct_topic_def topic_into_def connect_and_subscribe_def mqtt_initial_def
      sample_boot_def msg_struct_size_def ilp32_def SEND_TOPIC_def RETRIEVE_def BROADCST_def)


text \<open>C28. Losing the connection makes the client free a buffer twice: if the callback
  \<open>connlost\<close> runs between building a message and sending it, and the reconnection fails, then
  \<open>send_MQTT_msg\<close> frees the data that \<open>connect_and_subscribe\<close> has already freed. This holds
  for every message that was built.\<close>

theorem connection_loss_double_free:
  assumes "construct_MQTT_msg abi deflate n hs m = Some (0, m')"
  shows "\<exists>m''. connlost t False m' = Some m'' \<and> send_MQTT_msg pub m'' = None"
proof -
  obtain a b where "status m' = MQTT_STATUS_PENDING" "data_p m' = Some a" "cells (bufs m') a \<noteq> None"
    using assms
    by (auto simp: construct_MQTT_msg_def opt_simps compress_msg_def xmalloc_def Let_def hread_def hwrite_def
        split: if_splits prod.splits)
  then show ?thesis
    by (auto simp: connlost_def connect_and_subscribe_def xfree_def hfree_def send_MQTT_msg_def free_buffers_def)
qed

theorem connection_loss_double_free_witness:
  "\<exists>hs m' m''. construct_MQTT_msg ilp32 id 1 hs sample_boot = Some (0, m') \<and>
     connlost 9 False m' = Some m'' \<and> send_MQTT_msg None m'' = None"
proof -
  obtain hs where hs: "one_conn sample_key sample_rec hs" using sample_history by blast
  then obtain Cs where hi: "hist_inv hs Cs" "[(sample_key, sample_rec)] = map (conn_at hs) (concat Cs)"
    using connections_inv by (auto simp: one_conn_def hist_ok_def)
  have "length (approved [(sample_key, sample_rec)]) \<le> 1" by simp
  then obtain m' where "construct_MQTT_msg ilp32 id 1 hs sample_boot = Some (0, m')"
    using construct_spec [OF hi, of sample_boot 1 ilp32 id] sample_mqtt_fields(4)
    by (auto simp: sample_boot_def mqtt_initial_def msg_struct_size_def ilp32_def)
  with connection_loss_double_free [OF this, of 9 None] show ?thesis by blast
qed



text \<open>The topics are built in arrays of 32 characters, with the terminating NUL: the two copies
  stay inside exactly for identifiers of at most 19 characters, while \<open>get_device_id\<close> accepts up
  to 31.\<close>

theorem topic_fits:
  "construct_topic m \<noteq> None \<longleftrightarrow> length (device_id m) \<le> 19"
  by (auto simp: construct_topic_def topic_into_def SEND_TOPIC_def RETRIEVE_def opt_simps)

end
