(* ===== verification/Iftop.thy ===== *)
theory Iftop
  imports Packet Mqtt
begin

text \<open>
  The main program, iftop.c with the input loop of tui.c: the tick, the accounting of a captured
  packet, the packet dump, the choice of the link-layer handler, the installation of the filter and
  the input loop. The globals are one record. What the outside decides during one call is the record
  \<open>env\<close>: the times read, the target's sizes, the compression, the broker's answers, the values that
  reads of freed records give and the initial value of the uninitialised loop variable.
\<close>

record iftop =
  history :: hist
  history_totals :: history_type
  last_timestamp :: time_t
  options :: options_t
  port_list :: "int list"
  ifhost :: host
  mqtt_client :: mqtt

record env =
  e_abi :: abi
  e_deflate :: "byte list \<Rightarrow> byte list"
  e_stale :: "addr \<Rightarrow> int"
  e_connect :: bool
  e_publish :: "int option"
  e_time :: time_t
  e_create_time :: time_t
  e_i :: int

subsection \<open>The tick\<close>

text \<open>The part of \<open>tick\<close> between \<open>msg_ready = 0\<close> and the reconnection check: rotate, and build a
  message when it is due. The boolean is \<open>msg_ready\<close>.\<close>

definition tick_build :: "env \<Rightarrow> int \<Rightarrow> time_t \<Rightarrow> iftop \<Rightarrow> (bool \<times> iftop) option" where
  "tick_build env send t w = do {
     (hs, size) \<leftarrow> history_rotate (options w) (e_stale env) t (history w);
     let w = w\<lparr>history := hs\<rparr>;
     if (send_interval (options w) \<noteq> 0 \<and> t - send_last (options w) > send_interval (options w)) \<or> send \<noteq> 0
     then do {
       let w = w\<lparr>options := (options w)\<lparr>send_last := t\<rparr>\<rparr>;
       (rc, mq) \<leftarrow> construct_MQTT_msg (e_abi env) (e_deflate env) (nat size) (history w) (mqtt_client w);
       Some (rc = 0, w\<lparr>mqtt_client := mq\<rparr>) }
     else Some (False, w)
   }"

definition tick :: "env \<Rightarrow> int \<Rightarrow> time_t \<Rightarrow> iftop \<Rightarrow> iftop option" where
  "tick env send t w = do {
     w \<leftarrow> (if send \<noteq> 0 \<or> t - last_timestamp w \<ge> RESOLUTION then do {
             (msg_ready, w) \<leftarrow> tick_build env send t w;
             mq \<leftarrow> check_MQTT_connection t (e_connect env) (mqtt_client w);
             mq \<leftarrow> (if msg_ready then send_MQTT_msg (e_publish env) mq else Some mq);
             Some (w\<lparr>mqtt_client := mq, last_timestamp := t\<rparr>) }
           else Some w);
     mq \<leftarrow> check_status (mqtt_client w);
     Some (w\<lparr>mqtt_client := mq\<rparr>)
   }"

subsection \<open>A captured packet\<close>

definition add_totals :: "int \<Rightarrow> u16 \<Rightarrow> history_type \<Rightarrow> history_type" where
  "add_totals direction len tot =
     (if direction = 0 then tot\<lparr>total_recv := total_recv tot + ucast len\<rparr>
      else tot\<lparr>total_sent := total_sent tot + ucast len\<rparr>)"

definition handle_ip_packet :: "env \<Rightarrow> byte list \<Rightarrow> int \<Rightarrow> iftop \<Rightarrow> iftop option" where
  "handle_ip_packet env iptr hw_dir w = do {
     let t = e_time env;
     w \<leftarrow> tick env 0 t w;
     r \<leftarrow> packet_key (options w) (ifhost w) (port_list w) (e_i env) iptr hw_dir;
     (case r of
        None \<Rightarrow> Some w
      | Some (ap, direction) \<Rightarrow> do {
          l \<leftarrow> ip_len iptr;
          let len = ntohs l;
          s \<leftarrow> ip_src iptr;
          hs \<leftarrow> account_packet t (e_create_time env) ap (s = src ap) len (history w);
          Some (w\<lparr>history := hs, history_totals := add_totals direction len (history_totals w)\<rparr>) })
   }"

text \<open>\<open>packet_loop\<close>: the handler of the link type, called for each captured packet.\<close>

definition packet_callback ::
  "(nat \<Rightarrow> nat) \<Rightarrow> dlt \<Rightarrow> env \<Rightarrow> byte list \<Rightarrow> iftop \<Rightarrow> iftop option" where
  "packet_callback BPF_WORDALIGN dlt env packet w = do {
     handler \<leftarrow> packet_handler BPF_WORDALIGN (ifhost w) (handle_ip_packet env) dlt;
     handler packet w
   }"

fun packet_loop ::
  "(nat \<Rightarrow> nat) \<Rightarrow> dlt \<Rightarrow> (env \<times> byte list) list \<Rightarrow> iftop \<Rightarrow> iftop option" where
  "packet_loop wa dlt [] w = Some w"
| "packet_loop wa dlt ((env, packet) # ps) w =
     Option.bind (packet_callback wa dlt env packet w) (packet_loop wa dlt ps)"

text \<open>\<open>save_file\<close>: the static dump handle is the name and the packets of the open dump file. The
  packet that makes the file be created is not written to it.\<close>

definition save_file_packet ::
  "(time_t \<Rightarrow> string) \<Rightarrow> time_t \<Rightarrow> byte list \<Rightarrow> options_t \<times> (string \<times> byte list list) option
     \<Rightarrow> (options_t \<times> (string \<times> byte list list) option) option" where
  "save_file_packet show_time now packet = (\<lambda>(opts, p).
     if save_file opts \<noteq> 0 then
       if create_file opts = 0
       then Some (opts\<lparr>create_file := 1\<rparr>, Some (take 127 (''/tmp/'' @ show_time now @ ''.pcap''), []))
       else (case p of None \<Rightarrow> None | Some (name, ps) \<Rightarrow> Some (opts, Some (name, ps @ [packet])))
     else if create_file opts \<noteq> 0 then
       (case p of None \<Rightarrow> None | Some _ \<Rightarrow> Some (opts\<lparr>create_file := 0\<rparr>, None))
     else Some (opts, p))"

subsection \<open>Initialisation\<close>

text \<open>\<open>set_filter_code\<close>: the expression compiled, and the error message or NULL. \<open>compile\<close> and
  \<open>setfilter\<close> are the pcap calls: \<open>None\<close> when they succeed, else the message.\<close>

definition filter_expression :: "string option \<Rightarrow> string" where
  "filter_expression flt =
     (case flt of Some f \<Rightarrow> ''('' @ f @ '') and (ip or ip6)'' | None \<Rightarrow> ''ip or ip6'')"

definition set_filter_code ::
  "(string \<Rightarrow> string option) \<Rightarrow> (string \<Rightarrow> string option) \<Rightarrow> string option \<Rightarrow> string option" where
  "set_filter_code compile setfilter flt =
     (let x = filter_expression flt
      in case compile x of Some err \<Rightarrow> Some err | None \<Rightarrow> setfilter x)"

text \<open>\<open>packet_init\<close>: \<open>result\<close> and the addresses are what \<open>get_addrs_ioctl\<close> gave, \<open>dlt\<close> the link
  type of the opened interface (\<open>None\<close> if it could not be opened). The result \<open>None\<close> is an exit of
  the program.\<close>

definition packet_init ::
  "int \<Rightarrow> byte list \<Rightarrow> u32 \<Rightarrow> byte list \<Rightarrow> dlt option \<Rightarrow> (string \<Rightarrow> string option) \<Rightarrow> (string \<Rightarrow> string option)
     \<Rightarrow> iftop \<Rightarrow> (dlt \<times> iftop) option" where
  "packet_init result hw ip4 ip6 dlt compile setfilter w =
     (if result < 0 then None
      else do {
        let w = w\<lparr>ifhost := \<lparr>have_hw_addr = result AND 1, if_hw_addr = hw,
                    have_ip_addr = result AND 2, if_ip_addr = ip4,
                    have_ip6_addr = result AND 4, if_ip6_addr = ip6\<rparr>\<rparr>;
        d \<leftarrow> dlt;
        (case packet_handler id (ifhost w) (\<lambda>_ _ (u :: unit). Some u) d of
           None \<Rightarrow> None
         | Some _ \<Rightarrow> (if set_filter_code compile setfilter (filtercode (options w)) \<noteq> None
             then None else Some (d, w))) })"

text \<open>The input loop of tui.c: \<open>q\<close> or a caught signal ends it, \<open>u\<close> ticks. Each input comes with
  the environment of the moment and whether \<open>foad\<close> was set.\<close>

fun ui_loop :: "(env \<times> char \<times> bool) list \<Rightarrow> iftop \<Rightarrow> iftop option" where
  "ui_loop [] w = Some w"
| "ui_loop ((env, c, foad) # cs) w =
     (if c = CHR ''q'' \<or> foad then Some w
      else if c = CHR ''u'' then Option.bind (tick env 0 (e_time env) w) (ui_loop cs)
      else ui_loop cs w)"

text \<open>The globals as \<open>main\<close> has set them up when capture starts.\<close>

definition start :: "time_t \<Rightarrow> options_t \<Rightarrow> int list \<Rightarrow> host \<Rightarrow> mqtt \<Rightarrow> iftop" where
  "start now opts ports h client =
     (case init_history now of (hs, ts, tot) \<Rightarrow>
        \<lparr>history = hs, history_totals = tot, last_timestamp = ts, options = opts, port_list = ports,
         ifhost = h, mqtt_client = client\<rparr>)"

subsection \<open>The tick keeps the program's invariant\<close>

definition iftop_ok :: "abi \<Rightarrow> iftop \<Rightarrow> int option \<Rightarrow> bool" where
  "iftop_ok abi w f \<longleftrightarrow> hist_ok (history w) \<and>
     mach_inv abi \<lparr>mq = mqtt_client w, ready = False, inflight = f\<rparr>"

definition env_ok :: "env \<Rightarrow> bool" where
  "env_ok env \<longleftrightarrow> sizeof_long (e_abi env) = 4 \<and> token_ok (e_publish env)"

lemma build_ok:
  assumes "mach_inv abi \<lparr>mq = m, ready = False, inflight = f\<rparr>" and "sizeof_long abi = 4" and "hist_ok hs"
    and "connections hs = Some cs" and "approved_count cs \<le> int n"
  shows "\<exists>rc m'. construct_MQTT_msg abi deflate n hs m = Some (rc, m') \<and>
     mach_inv abi \<lparr>mq = m', ready = (rc = 0), inflight = f\<rparr>"
proof -
  have "event_ok (Construct n hs)" using assms(3-5) by (simp add: event_ok_def)
  from event_inv [OF assms(1,2) this, of deflate] show ?thesis by auto
qed

lemma conn_ok:
  assumes "mach_inv abi \<lparr>mq = m, ready = r, inflight = f\<rparr>" and "sizeof_long abi = 4"
  shows "\<exists>m'. check_MQTT_connection t ok m = Some m' \<and> mach_inv abi \<lparr>mq = m', ready = r, inflight = f\<rparr>"
  using event_inv [OF assms, of "CheckConnection t ok"] by (auto simp: event_ok_def)

lemma send_ok:
  assumes "mach_inv abi \<lparr>mq = m, ready = True, inflight = f\<rparr>" and "sizeof_long abi = 4" and "token_ok pub"
  shows "\<exists>m' f'. send_MQTT_msg pub m = Some m' \<and> mach_inv abi \<lparr>mq = m', ready = False, inflight = f'\<rparr>"
  using event_inv [OF assms(1,2), of "Send pub"] assms(3) by (auto simp: event_ok_def)

lemma status_ok:
  assumes "mach_inv abi \<lparr>mq = m, ready = r, inflight = f\<rparr>" and "sizeof_long abi = 4"
  shows "\<exists>m'. check_status m = Some m' \<and> mach_inv abi \<lparr>mq = m', ready = r, inflight = f\<rparr>"
  using event_inv [OF assms, of CheckStatus] by (auto simp: event_ok_def)

lemma rotate_size:
  assumes "hist_ok hs"
  shows "\<exists>hs' sz cs. history_rotate opts stale t hs = Some (hs', sz) \<and> hist_ok hs' \<and>
     hist_map hs' = (\<lambda>k. Option.bind (hist_map hs k) (rotate_conn opts t)) \<and>
     connections hs' = Some cs \<and> approved_count cs \<le> int (nat sz)"
proof -
  obtain Cs where hi: "hist_inv hs Cs" using assms by (auto simp: hist_ok_def)
  obtain hs' sz Cs' where R: "history_rotate opts stale t hs = Some (hs', sz)" "hist_inv hs' Cs'"
      "approved_count (map (conn_at hs') (concat Cs')) \<le> sz"
    using rotate_spec [OF hi, of opts stale t] by auto
  moreover have "hist_map hs' = (\<lambda>k. Option.bind (hist_map hs k) (rotate_conn opts t))"
    using rotate_map [OF assms, of opts stale t] R(1) by auto
  ultimately show ?thesis using connections_inv [OF R(2)] by (auto simp: hist_ok_def)
qed

text \<open>What a tick does to the connections.\<close>

definition tick_map :: "iftop \<Rightarrow> int \<Rightarrow> time_t \<Rightarrow> addr_pair \<rightharpoonup> history_type" where
  "tick_map w send t =
     (if send \<noteq> 0 \<or> t - last_timestamp w \<ge> RESOLUTION
      then (\<lambda>k. Option.bind (hist_map (history w) k) (rotate_conn (options w) t))
      else hist_map (history w))"

definition same_setup :: "iftop \<Rightarrow> iftop \<Rightarrow> bool" where
  "same_setup w w' \<longleftrightarrow> history_totals w' = history_totals w \<and> port_list w' = port_list w \<and>
     ifhost w' = ifhost w \<and> (\<exists>t. options w' = (options w)\<lparr>send_last := t\<rparr>)"

lemma options_send_last_id: "\<exists>t. opts = opts\<lparr>send_last := t\<rparr>"
  by (rule exI [of _ "send_last opts"]) simp

lemma tick_build_ok:
  assumes "iftop_ok (e_abi env) w f" and "env_ok env"
  shows "\<exists>r w'. tick_build env send t w = Some (r, w') \<and> hist_ok (history w') \<and>
     hist_map (history w') = (\<lambda>k. Option.bind (hist_map (history w) k) (rotate_conn (options w) t)) \<and>
     mach_inv (e_abi env) \<lparr>mq = mqtt_client w', ready = r, inflight = f\<rparr> \<and> same_setup w w'"
proof -
  obtain hs sz cs where R: "history_rotate (options w) (e_stale env) t (history w) = Some (hs, sz)" "hist_ok hs"
      "hist_map hs = (\<lambda>k. Option.bind (hist_map (history w) k) (rotate_conn (options w) t))"
      "connections hs = Some cs" "approved_count cs \<le> int (nat sz)"
    using rotate_size [of "history w" "options w" "e_stale env" t] assms(1) by (auto simp: iftop_ok_def)
  have inv: "mach_inv (e_abi env) \<lparr>mq = mqtt_client w, ready = False, inflight = f\<rparr>"
    using assms(1) by (simp add: iftop_ok_def)
  have long: "sizeof_long (e_abi env) = 4" using assms(2) by (simp add: env_ok_def)
  obtain rc m where C: "construct_MQTT_msg (e_abi env) (e_deflate env) (nat sz) hs (mqtt_client w) = Some (rc, m)"
      "mach_inv (e_abi env) \<lparr>mq = m, ready = (rc = 0), inflight = f\<rparr>"
    using build_ok [OF inv long R(2,4,5), of "e_deflate env"] by blast
  show ?thesis
    using R C inv options_send_last_id [of "options w"] by (auto simp: tick_build_def same_setup_def Let_def)
qed

lemma tick_ok:
  assumes "iftop_ok (e_abi env) w f" and "env_ok env"
  shows "\<exists>w' f'. tick env send t w = Some w' \<and> iftop_ok (e_abi env) w' f' \<and>
     hist_map (history w') = tick_map w send t \<and> same_setup w w'"
proof -
  have long: "sizeof_long (e_abi env) = 4" and tok: "token_ok (e_publish env)"
    using assms(2) by (simp_all add: env_ok_def)
  show ?thesis
  proof (cases "send \<noteq> 0 \<or> t - last_timestamp w \<ge> RESOLUTION")
    case True
    obtain r w1 where B: "tick_build env send t w = Some (r, w1)" "hist_ok (history w1)"
        "hist_map (history w1) = (\<lambda>k. Option.bind (hist_map (history w) k) (rotate_conn (options w) t))"
        "mach_inv (e_abi env) \<lparr>mq = mqtt_client w1, ready = r, inflight = f\<rparr>" "same_setup w w1"
      using tick_build_ok [OF assms] by blast
    obtain m2 where C: "check_MQTT_connection t (e_connect env) (mqtt_client w1) = Some m2"
        "mach_inv (e_abi env) \<lparr>mq = m2, ready = r, inflight = f\<rparr>"
      using conn_ok [OF B(4) long] by blast
    obtain m3 f3 where S: "(if r then send_MQTT_msg (e_publish env) m2 else Some m2) = Some m3"
        "mach_inv (e_abi env) \<lparr>mq = m3, ready = False, inflight = f3\<rparr>"
      using send_ok [of "e_abi env" m2 f "e_publish env"] C(2) long tok by (cases r) auto
    obtain m4 where D: "check_status m3 = Some m4"
        "mach_inv (e_abi env) \<lparr>mq = m4, ready = False, inflight = f3\<rparr>"
      using status_ok [OF S(2) long] by blast
    have "tick env send t w = Some (w1\<lparr>mqtt_client := m4, last_timestamp := t\<rparr>)"
      using True B(1) C(1) S(1) D(1) by (cases w1) (simp add: tick_def split: if_splits)
    with True B(2,3,5) D(2) show ?thesis
      by (auto simp: iftop_ok_def tick_map_def same_setup_def)
  next
    case False
    obtain m where D: "check_status (mqtt_client w) = Some m"
        "mach_inv (e_abi env) \<lparr>mq = m, ready = False, inflight = f\<rparr>"
      using status_ok [of "e_abi env" "mqtt_client w" False f] assms(1) long by (auto simp: iftop_ok_def)
    with False assms(1) options_send_last_id [of "options w"] show ?thesis
      by (auto simp: tick_def iftop_ok_def tick_map_def same_setup_def)
  qed
qed

subsection \<open>Accounting a packet\<close>

definition total_length :: "byte list \<Rightarrow> u16" where
  "total_length iptr = (case ip_len iptr of Some l \<Rightarrow> ntohs l | None \<Rightarrow> 0)"

lemma decode_length: "decode_ip iptr = Some h \<Longrightarrow> ip_len iptr \<noteq> None"
  using decode_defined [of iptr] get16_defined [of iptr 2] by (auto simp: ip_len_def)

lemma filter_send_last:
  "in_filter_net (opts\<lparr>send_last := t\<rparr>) = in_filter_net opts"
  "lists_ok (opts\<lparr>send_last := t\<rparr>) = lists_ok opts"
  by (intro ext; simp add: in_filter_net_def lists_ok_def)+

lemma option_send_last:
  "promiscuous_but_choosy (opts\<lparr>send_last := t\<rparr>) = promiscuous_but_choosy opts"
  "netfilter (opts\<lparr>send_last := t\<rparr>) = netfilter opts"
  "block_protocols (opts\<lparr>send_last := t\<rparr>) = block_protocols opts"
  by simp_all

lemma direction_send_last: "direction_spec (opts\<lparr>send_last := t\<rparr>) = direction_spec opts"
  by (intro ext) (simp only: direction_spec_def mac_spec_def net_spec_def filter_send_last option_send_last)

lemma key_spec_send_last [simp]:
  "key_spec (opts\<lparr>send_last := t\<rparr>) = key_spec opts" "lists_ok (opts\<lparr>send_last := t\<rparr>) = lists_ok opts"
  by (intro ext; simp only: key_spec_def direction_send_last filter_send_last option_send_last)+

text \<open>The connection and direction of a packet in a given state, when the packet is accounted.\<close>

definition packet_conn :: "env \<Rightarrow> iftop \<Rightarrow> ip_hdr \<Rightarrow> int \<Rightarrow> (addr_pair \<times> int) option" where
  "packet_conn env w h hw_dir = key_spec (options w) (ifhost w) (port_list w) (e_i env) h hw_dir"

text \<open>What the packet does to the map of connections.\<close>

definition packet_map ::
  "env \<Rightarrow> iftop \<Rightarrow> byte list \<Rightarrow> ip_hdr \<Rightarrow> int \<Rightarrow> addr_pair \<rightharpoonup> history_type" where
  "packet_map env w iptr h hw_dir =
     (let m = tick_map w 0 (e_time env) in
      case packet_conn env w h hw_dir of None \<Rightarrow> m
      | Some (k, dir) \<Rightarrow> m(k \<mapsto> count_packet (e_time env) (h_src h = src k) (total_length iptr)
          (case m k of Some d \<Rightarrow> d | None \<Rightarrow> history_empty\<lparr>create_time := e_create_time env\<rparr>)))"

lemma handle_ip_ok:
  assumes ok: "iftop_ok (e_abi env) w f" and env: "env_ok env"
    and lists: "lists_ok (options w) (port_list w) (e_i env)" and h: "decode_ip iptr = Some h"
  shows "\<exists>w' f'. handle_ip_packet env iptr hw_dir w = Some w' \<and> iftop_ok (e_abi env) w' f' \<and>
     hist_map (history w') = packet_map env w iptr h hw_dir \<and>
     history_totals w' = (case packet_conn env w h hw_dir of None \<Rightarrow> history_totals w
       | Some (k, dir) \<Rightarrow> add_totals dir (total_length iptr) (history_totals w)) \<and>
     port_list w' = port_list w \<and> ifhost w' = ifhost w \<and> (\<exists>t. options w' = (options w)\<lparr>send_last := t\<rparr>)"
proof -
  let ?t = "e_time env"
  obtain w1 f1 where T: "tick env 0 ?t w = Some w1" "iftop_ok (e_abi env) w1 f1"
      "hist_map (history w1) = tick_map w 0 ?t" "same_setup w w1"
    using tick_ok [OF ok env] by blast
  obtain t1 where same: "port_list w1 = port_list w" "ifhost w1 = ifhost w"
      "history_totals w1 = history_totals w" "options w1 = (options w)\<lparr>send_last := t1\<rparr>"
    using T(4) by (auto simp: same_setup_def)
  have key: "packet_key (options w1) (ifhost w1) (port_list w1) (e_i env) iptr hw_dir =
      Some (packet_conn env w h hw_dir)"
    using packet_key_spec [OF _ h, of "options w1" "port_list w1" "e_i env"] lists same
    by (simp add: packet_conn_def)
  show ?thesis
  proof (cases "packet_conn env w h hw_dir")
    case None
    with T same key show ?thesis by (auto simp: handle_ip_packet_def packet_map_def Let_def)
  next
    case (Some kd)
    obtain k dir where kd: "kd = (k, dir)" by (cases kd)
    obtain l where l: "ip_len iptr = Some l" using decode_length [OF h] by blast
    have s: "ip_src iptr = Some (h_src h)" by (rule decode_fields(2) [OF h])
    have "hist_ok (history w1)" using T(2) by (simp add: iftop_ok_def)
    then obtain hs where A:
        "account_packet ?t (e_create_time env) k (h_src h = src k) (total_length iptr) (history w1) = Some hs"
        "hist_ok hs"
        "hist_map hs = (tick_map w 0 ?t)(k \<mapsto> count_packet ?t (h_src h = src k) (total_length iptr)
          (case tick_map w 0 ?t k of Some d \<Rightarrow> d | None \<Rightarrow> history_empty\<lparr>create_time := e_create_time env\<rparr>))"
      using account_packet_ok T(3) by metis
    have "handle_ip_packet env iptr hw_dir w =
        Some (w1\<lparr>history := hs, history_totals := add_totals dir (total_length iptr) (history_totals w1)\<rparr>)"
      using T(1) key Some kd l s A(1) by (simp add: handle_ip_packet_def total_length_def)
    with A T(2) same Some kd show ?thesis
      by (auto simp: iftop_ok_def packet_map_def Let_def)
  qed
qed

subsection \<open>Runs of the capture loop\<close>

text \<open>One delivered IP packet: the environment of the call, the bytes and the hardware direction.\<close>

type_synonym ip_event = "env \<times> byte list \<times> int"

fun ip_run :: "ip_event list \<Rightarrow> iftop \<Rightarrow> iftop option" where
  "ip_run [] w = Some w"
| "ip_run ((env, iptr, dir) # ps) w = Option.bind (handle_ip_packet env iptr dir w) (ip_run ps)"

definition ip_event_ok :: "abi \<Rightarrow> options_t \<Rightarrow> int list \<Rightarrow> ip_event \<Rightarrow> bool" where
  "ip_event_ok abi opts ports = (\<lambda>(env, iptr, dir).
     e_abi env = abi \<and> env_ok env \<and> lists_ok opts ports (e_i env) \<and> decode_ip iptr \<noteq> None)"

text \<open>The bytes a run accounts in each direction.\<close>

definition event_conn :: "options_t \<Rightarrow> host \<Rightarrow> int list \<Rightarrow> ip_event \<Rightarrow> (addr_pair \<times> int) option" where
  "event_conn opts hst ports = (\<lambda>(env, iptr, dir).
     Option.bind (decode_ip iptr) (\<lambda>h. key_spec opts hst ports (e_i env) h dir))"

definition run_bytes :: "options_t \<Rightarrow> host \<Rightarrow> int list \<Rightarrow> bool \<Rightarrow> ip_event list \<Rightarrow> u64" where
  "run_bytes opts hst ports incoming ps = (\<Sum>(env, iptr, dir) \<leftarrow> ps.
     case event_conn opts hst ports (env, iptr, dir) of None \<Rightarrow> 0
     | Some (k, d) \<Rightarrow> if (d = 0) = incoming then ucast (total_length iptr) else 0)"

lemma run_bytes_Cons:
  "run_bytes opts hst ports inc (p # ps) = run_bytes opts hst ports inc [p] + run_bytes opts hst ports inc ps"
  by (simp add: run_bytes_def)

lemma ip_run_ok:
  "iftop_ok abi w f \<Longrightarrow> list_all (ip_event_ok abi (options w) (port_list w)) ps \<Longrightarrow>
   \<exists>w' f'. ip_run ps w = Some w' \<and> iftop_ok abi w' f' \<and>
     total_sent (history_totals w') = total_sent (history_totals w)
       + run_bytes (options w) (ifhost w) (port_list w) False ps \<and>
     total_recv (history_totals w') = total_recv (history_totals w)
       + run_bytes (options w) (ifhost w) (port_list w) True ps"
proof (induction ps arbitrary: w f)
  case Nil
  then show ?case by (auto simp: run_bytes_def)
next
  case (Cons p ps)
  obtain env iptr dir where p: "p = (env, iptr, dir)" by (cases p)
  have pre: "e_abi env = abi" "env_ok env" "lists_ok (options w) (port_list w) (e_i env)"
    and "decode_ip iptr \<noteq> None"
    using Cons.prems(2) p by (auto simp: ip_event_ok_def)
  then obtain h where h: "decode_ip iptr = Some h" by blast
  obtain w1 f1 where W: "handle_ip_packet env iptr dir w = Some w1" "iftop_ok abi w1 f1"
      "history_totals w1 = (case packet_conn env w h dir of None \<Rightarrow> history_totals w
       | Some (k, dir) \<Rightarrow> add_totals dir (total_length iptr) (history_totals w))"
      "port_list w1 = port_list w" "ifhost w1 = ifhost w" "\<exists>t. options w1 = (options w)\<lparr>send_last := t\<rparr>"
    using handle_ip_ok [OF _ pre(2,3) h, of f dir] Cons.prems(1) pre(1) by blast
  obtain t where t: "options w1 = (options w)\<lparr>send_last := t\<rparr>" using W(6) by blast
  have ev: "event_conn (options w) (ifhost w) (port_list w) (env, iptr, dir) = packet_conn env w h dir"
    by (simp add: event_conn_def packet_conn_def h)
  have one: "total_sent (history_totals w1) = total_sent (history_totals w)
       + run_bytes (options w) (ifhost w) (port_list w) False [p]"
    "total_recv (history_totals w1) = total_recv (history_totals w)
       + run_bytes (options w) (ifhost w) (port_list w) True [p]"
    unfolding W(3) run_bytes_def p by (auto simp: ev add_totals_def split: option.split)
  have same: "ip_event_ok abi (options w1) (port_list w1) = ip_event_ok abi (options w) (port_list w)"
    "run_bytes (options w1) (ifhost w1) (port_list w1) = run_bytes (options w) (ifhost w) (port_list w)"
    by (simp_all add: fun_eq_iff ip_event_ok_def run_bytes_def event_conn_def t W(4,5))
  obtain w2 f2 where R: "ip_run ps w1 = Some w2" "iftop_ok abi w2 f2"
      "total_sent (history_totals w2) = total_sent (history_totals w1)
         + run_bytes (options w) (ifhost w) (port_list w) False ps"
      "total_recv (history_totals w2) = total_recv (history_totals w1)
         + run_bytes (options w) (ifhost w) (port_list w) True ps"
    using Cons.IH [OF W(2)] Cons.prems(2) unfolding same by auto
  show ?case
    unfolding run_bytes_Cons [of _ _ _ _ p ps] using R W(1) one p by (auto simp: add.assoc)
qed

subsection \<open>Properties\<close>

text \<open>The effect of one captured IP packet. In a well-formed state, on a packet whose headers lie
  inside the capture, \<open>handle_ip_packet\<close> runs without a fault and keeps the state well-formed. The
  connections are those after the tick (rotated if the resolution time has passed), and if the filters
  accept the packet, its total length is added to the sent total of its connection if the key's
  source sent it and to the received total otherwise, a new connection being created if needed; the
  overall totals grow by the same length on the side of its direction.\<close>

theorem ip_packet_accounting:
  assumes "iftop_ok (e_abi env) w f" and "env_ok env"
    and "lists_ok (options w) (port_list w) (e_i env)" and "decode_ip iptr = Some h"
  shows "\<exists>w' f'. handle_ip_packet env iptr hw_dir w = Some w' \<and> iftop_ok (e_abi env) w' f' \<and>
     hist_map (history w') =
       (let m = tick_map w 0 (e_time env) in
        case key_spec (options w) (ifhost w) (port_list w) (e_i env) h hw_dir of None \<Rightarrow> m
        | Some (k, dir) \<Rightarrow> m(k \<mapsto> count_packet (e_time env) (h_src h = src k) (total_length iptr)
            (case m k of Some d \<Rightarrow> d | None \<Rightarrow> history_empty\<lparr>create_time := e_create_time env\<rparr>))) \<and>
     history_totals w' =
       (case key_spec (options w) (ifhost w) (port_list w) (e_i env) h hw_dir of None \<Rightarrow> history_totals w
        | Some (k, dir) \<Rightarrow> add_totals dir (total_length iptr) (history_totals w))"
  using handle_ip_ok [OF assms, of hw_dir] by (auto simp: packet_map_def packet_conn_def)

lemma udp_lengths: "total_length udp_packet = 100" "total_length udp_reply = 100"
  by code_simp+

lemma udp_net_specs:
  "key_spec udp_net_options no_host udp_ports 0 udp_hdr (-1) = Some (udp_key, 1)"
  "key_spec udp_net_options no_host udp_ports 0 (reply udp_hdr) (-1) = Some (udp_key, 0)"
proof -
  have "packet_key udp_net_options no_host udp_ports 0 udp_reply (-1) = Some (Some (udp_key, 0))" by code_simp
  then show "key_spec udp_net_options no_host udp_ports 0 (reply udp_hdr) (-1) = Some (udp_key, 0)"
    using packet_key_spec [OF udp_lists_ok(2) decode_udp_reply, of no_host "-1"] by simp
  show "key_spec udp_net_options no_host udp_ports 0 udp_hdr (-1) = Some (udp_key, 1)"
    using packet_key_spec [OF udp_lists_ok(2) decode_udp_packet, of no_host "-1"] udp_net_key by simp
qed

definition sample_env :: env where
  "sample_env = \<lparr>e_abi = ilp32, e_deflate = id, e_stale = (\<lambda>_. 0), e_connect = True, e_publish = Some 1,
     e_time = 50, e_create_time = 50, e_i = 0\<rparr>"

definition sample_start :: iftop where
  "sample_start = start 5 udp_net_options udp_ports no_host sample_boot"

lemma sample_ok:
  "iftop_ok (e_abi sample_env) sample_start None" "env_ok sample_env"
  "lists_ok (options sample_start) (port_list sample_start) (e_i sample_env)"
proof -
  show "iftop_ok (e_abi sample_env) sample_start None"
    using init_mach_inv [OF sample_boot_init] init_history_ok [of 5]
    by (simp add: iftop_ok_def sample_env_def sample_start_def start_def init_history_def)
  show "env_ok sample_env" by (simp add: env_ok_def sample_env_def ilp32_def)
  show "lists_ok (options sample_start) (port_list sample_start) (e_i sample_env)"
    using udp_lists_ok(2) by (simp add: sample_start_def start_def init_history_def sample_env_def)
qed

lemma sample_key_spec:
  "key_spec (options sample_start) (ifhost sample_start) (port_list sample_start) (e_i sample_env) udp_hdr (-1)
   = Some (udp_key, 1)"
  using packet_key_spec [OF udp_lists_ok(2) decode_udp_packet, of no_host "-1"] udp_net_key
  by (simp add: sample_start_def start_def init_history_def sample_env_def)

lemma sample_empty: "hist_map (history sample_start) = Map.empty"
  using init_history_map [of 5] by (simp add: sample_start_def start_def init_history_def)

lemma sample_events:
  "event_conn udp_net_options no_host udp_ports (sample_env, udp_packet, -1) = Some (udp_key, 1)"
  "event_conn udp_net_options no_host udp_ports (sample_env\<lparr>e_time := 60\<rparr>, udp_reply, -1) = Some (udp_key, 0)"
proof -
  have i: "e_i sample_env = 0" "e_i (sample_env\<lparr>e_time := 60\<rparr>) = 0" by (simp_all add: sample_env_def)
  show "event_conn udp_net_options no_host udp_ports (sample_env, udp_packet, -1) = Some (udp_key, 1)"
    unfolding event_conn_def prod.case decode_udp_packet bind.bind_lunit i by (rule udp_net_specs(1))
  show "event_conn udp_net_options no_host udp_ports (sample_env\<lparr>e_time := 60\<rparr>, udp_reply, -1) = Some (udp_key, 0)"
    unfolding event_conn_def prod.case decode_udp_reply bind.bind_lunit i by (rule udp_net_specs(2))
qed

theorem ip_packet_accounting_witness:
  "\<exists>w' d. handle_ip_packet sample_env udp_packet (-1) sample_start = Some w' \<and>
     hist_map (history w') = [udp_key \<mapsto> d] \<and> total_sent d = 100 \<and> total_recv d = 0 \<and>
     total_sent (history_totals w') = 100"
proof -
  have len: "total_length udp_packet = 100" by code_simp
  have src: "h_src udp_hdr = src udp_key" by (simp add: udp_hdr_def udp_key_def)
  have tot: "history_totals sample_start = history_empty"
    by (simp add: sample_start_def start_def init_history_def)
  let ?d = "count_packet 50 True 100 (history_empty\<lparr>create_time := 50\<rparr>)"
  have e: "e_time sample_env = 50" "e_create_time sample_env = 50" by (simp_all add: sample_env_def)
  have "tick_map sample_start 0 50 = Map.empty" by (simp add: tick_map_def sample_empty fun_eq_iff)
  with ip_packet_accounting [OF sample_ok decode_udp_packet, of "-1"] len src tot
  obtain w' where "handle_ip_packet sample_env udp_packet (-1) sample_start = Some w'"
      "hist_map (history w') = [udp_key \<mapsto> ?d]"
      "history_totals w' = add_totals 1 100 history_empty"
    unfolding sample_key_spec e by (auto simp: Let_def)
  moreover have "total_sent ?d = 100" "total_recv ?d = 0" "total_sent (add_totals 1 100 history_empty) = 100"
    by (simp_all add: add_totals_def history_empty_def count_packet_def)
  ultimately show ?thesis by metis
qed



lemma tick_build_options:
  "tick_build env send t w = Some (r, w') \<Longrightarrow> block_protocols (options w') = block_protocols (options w)"
  unfolding tick_build_def Let_def bind_Some_eq
  by (elim exE conjE) (simp add: case_prod_unfold bind_Some_eq split: if_splits, auto)

lemma tick_options:
  "tick env send t w = Some w' \<Longrightarrow> block_protocols (options w') = block_protocols (options w)"
proof -
  assume T: "tick env send t w = Some w'"
  show ?thesis
  proof (cases "send \<noteq> 0 \<or> t - last_timestamp w \<ge> RESOLUTION")
    case True
    with T show ?thesis by (auto simp: tick_def opt_simps dest!: tick_build_options)
  next
    case False
    with T show ?thesis by (auto simp: tick_def opt_simps)
  qed
qed

text \<open>C35. The index of the protocol filter is never initialised: whenever the stack holds a negative
  number or one beyond the 32 entries, handling any packet reads outside
  \<open>options.block_protocols\<close>, whatever the packet and the state.\<close>

theorem uninitialised_index_faults:
  assumes "e_i env < 0 \<or> int (length (block_protocols (options w))) \<le> e_i env"
  shows "handle_ip_packet env iptr hw_dir w = None"
proof -
  have "packet_key (options w1) (ifhost w1) (port_list w1) (e_i env) iptr hw_dir = None"
    if "tick env 0 (e_time env) w = Some w1" for w1
    using assms tick_options [OF that] by (auto simp: packet_key_def block_loop_def)
  then show ?thesis by (auto simp: handle_ip_packet_def Let_def opt_simps)
qed

theorem uninitialised_index_faults_witness:
  "handle_ip_packet (sample_env\<lparr>e_i := 32767\<rparr>) udp_packet (-1) sample_start = None"
proof -
  have "e_i (sample_env\<lparr>e_i := 32767\<rparr>) < 0 \<or>
      int (length (block_protocols (options sample_start))) \<le> e_i (sample_env\<lparr>e_i := 32767\<rparr>)"
    by (simp add: sample_start_def start_def init_history_def udp_net_options_def udp_options_def)
  from uninitialised_index_faults [OF this] show ?thesis .
qed

text \<open>IPv6 on a PPP link. The version check being commented out, an IPv6 packet is handed to
  \<open>handle_ip_packet\<close>, which reads it as IPv4: the connection's addresses are bytes 12 to 19 of the
  IPv6 header, the last half of the source prefix and the start of its interface part.\<close>

theorem ppp_ipv6_read_as_ipv4:
  "handle_ppp_packet (handle_ip_packet env) ([0xFF, c, 0x86, 0xDD] @ v6) w = handle_ip_packet env v6 (-1) w \<and>
   ip_src v6 = get32 v6 12 \<and> ip_dst v6 = get32 v6 16"
proof -
  have "EXTRACT_16BITS (drop 2 ([0xFF, c, 0x86, 0xDD] @ v6)) = Some ETHERTYPE_IPV6"
    using get16_here [of "0x86" "0xDD" v6]
    by (simp add: EXTRACT_16BITS_def ntohs_def ETHERTYPE_IPV6_def push_bit_eq_mult drop_bit_eq_div)
  then show ?thesis
    by (simp add: handle_ppp_packet_def Let_def get8_def PPP_ADDRESS_def ip_src_def ip_dst_def)
qed

text \<open>A forced tick (a data request from the broker) publishes the approved connections: with the
  broker connected and no message pending, and at least one connection approved after the rotation,
  exactly one message is published, on the device's topic, and its payload is the whole compressed
  string of the approved connections of the rotated history, provided the compressed form is not
  longer than the string itself.\<close>

lemma forced_tick_publishes:
  assumes ok: "iftop_ok (e_abi env) w f" and env: "sizeof_long (e_abi env) = 4" "e_publish env = Some k" "0 < k"
    and st: "status (mqtt_client w) \<noteq> MQTT_STATUS_PENDING" "connection (mqtt_client w) = MQTT_CONNECT_ON"
    and cs: "connections (history w) = Some cs" "rot = rotate_list (options w) t cs" "0 < approved_count rot"
    and stale: "\<And>a. e_stale env a = 0" and send: "send \<noteq> 0"
    and short: "length (e_deflate env (message (e_abi env) rot)) \<le> length (message (e_abi env) rot)"
  shows "\<exists>w'. tick env send t w = Some w' \<and> published (mqtt_client w') = published (mqtt_client w) @
     [(my_send_topic (mqtt_client w), e_deflate env (message (e_abi env) rot))]"
proof -
  let ?abi = "e_abi env" and ?m = "mqtt_client w"
  obtain Cs where hi: "hist_inv (history w) Cs" using ok by (auto simp: iftop_ok_def hist_ok_def)
  have c: "cs = map (conn_at (history w)) (concat Cs)" using connections_inv [OF hi] cs(1) by simp
  obtain hs Cs' where R: "history_rotate (options w) (e_stale env) t (history w) = Some (hs, approved_count rot)"
      "hist_inv hs Cs'" "map (conn_at hs) (concat Cs') = rot"
    using rotate_spec [OF hi, of "options w" "e_stale env" t] stale cs(2) c by auto
  define n where "n = nat (approved_count rot)"
  have n: "0 < n" "length (approved rot) = n" using cs(3) by (simp_all add: n_def approved_count_length)
  have ss: "struct_size ?m = msg_struct_size ?abi" and del: "deliveredtoken ?m \<noteq> token ?m"
    using ok st(1) by (auto simp: iftop_ok_def mach_inv_def Let_def)
  obtain m1 where C: "construct_MQTT_msg ?abi (e_deflate env) n hs ?m = Some (0, m1)"
      "constructed ?abi (e_deflate env) n rot ?m m1"
    using construct_spec [OF R(2) R(3) [symmetric] st n(1) env(1) ss, of "e_deflate env"] n(2) by auto
  have d: "msg_data ?abi n rot = message ?abi rot" "length (message ?abi rot) = msg_struct_size ?abi * n"
    using length_message [OF env(1), of rot] n(2) by (simp_all add: msg_data_def)
  let ?z = "e_deflate env (message ?abi rot)"
  have m1: "connection m1 = MQTT_CONNECT_ON" "out_p m1 = Some (Suc (brk (bufs ?m)))"
      "my_send_topic m1 = my_send_topic ?m" "published m1 = published ?m" "compressed_size m1 = length ?z"
      "hread (bufs m1) (Suc (brk (bufs ?m))) = Some (?z @ replicate (msg_struct_size ?abi * n - length ?z) 0)"
    using C(2) st(2) short d by (simp_all add: constructed_def Let_def hread_def)
  have S: "send_MQTT_msg (Some k) m1 = Some (m1\<lparr>deliveredtoken := 0, token := k,
      published := published ?m @ [(my_send_topic ?m, ?z)]\<rparr>)"
    using m1 by (simp add: send_MQTT_msg_def)
  have B: "tick_build env send t w = Some (True, w\<lparr>history := hs, options := (options w)\<lparr>send_last := t\<rparr>,
      mqtt_client := m1\<rparr>)"
    using R(1) C(1) send by (simp add: tick_build_def n_def Let_def)
  show ?thesis
    using B S send env(2,3) m1(1)
    by (simp add: tick_def check_MQTT_connection_def check_status_def)
qed

text \<open>With no approved connection nothing is published.\<close>

lemma forced_tick_quiet:
  assumes ok: "iftop_ok (e_abi env) w f" and st: "connection (mqtt_client w) = MQTT_CONNECT_ON"
    and cs: "connections (history w) = Some cs" "approved_count (rotate_list (options w) t cs) = 0"
    and stale: "\<And>a. e_stale env a = 0" and send: "send \<noteq> 0" and T: "tick env send t w = Some w'"
  shows "published (mqtt_client w') = published (mqtt_client w)"
proof -
  obtain Cs where hi: "hist_inv (history w) Cs" using ok by (auto simp: iftop_ok_def hist_ok_def)
  have c: "cs = map (conn_at (history w)) (concat Cs)" using connections_inv [OF hi] cs(1) by simp
  obtain hs where R: "history_rotate (options w) (e_stale env) t (history w) = Some (hs, 0)"
    using rotate_spec [OF hi, of "options w" "e_stale env" t] stale cs(2) c by auto
  have "tick_build env send t w = Some (False, w\<lparr>history := hs, options := (options w)\<lparr>send_last := t\<rparr>\<rparr>)"
    using R send by (simp add: tick_build_def construct_MQTT_msg_def Let_def)
  with T send st show ?thesis
    by (auto simp: tick_def check_MQTT_connection_def check_status_def free_buffers_def opt_simps split: if_splits)
qed

end
