(* ===== verification/Startup.thy ===== *)
theory Startup
  imports Options Iftop
begin

text \<open>
  The part of \<open>main\<close> (iftop.c) before capture starts: \<open>config_init\<close>, the defaults, the command
  line, the configuration file and the transfer of its values (\<open>configure\<close>), then \<open>packet_init\<close>,
  \<open>init_history\<close> and \<open>init_MQTT\<close> (\<open>boot\<close>). The theorems span the option code, the configuration
  table and the packet filter; \<open>options_wf\<close> is the well-formedness of the options.
\<close>

definition configure ::
  "nat \<Rightarrow> int \<Rightarrow> (string \<Rightarrow> u32 option) \<Rightarrow> (string \<Rightarrow> byte list option) \<Rightarrow> (string \<Rightarrow> bool) \<Rightarrow> string list option \<Rightarrow> string option \<Rightarrow> time_t \<Rightarrow>
   (string \<Rightarrow> string option) \<Rightarrow> string option \<Rightarrow> string list \<Rightarrow> opt_state outcome" where
  "configure lb junk inet_aton inet_pton6 up nameindex home now file args_file argv =
     (let s0 = \<lparr>opts = options_set_defaults up nameindex home now options_initial, conf = config_init,
                ports = replicate PORT_LIST_LEN 0\<rparr>
      in obind (options_read_args lb args_file argv s0) (\<lambda>s1.
         obind (of_option (read_config (file (config_file (opts s1))) (conf s1))) (\<lambda>(r, c).
         options_make lb junk inet_aton inet_pton6 (s1\<lparr>conf := c\<rparr>))))"

subsection \<open>What options_make keeps\<close>

text \<open>The fields the theorems below speak of.\<close>

definition same_flags :: "options_t \<Rightarrow> options_t \<Rightarrow> bool" where
  "same_flags o1 o0 \<longleftrightarrow> dnsresolution o1 = dnsresolution o0 \<and> portresolution o1 = portresolution o0 \<and>
     no_curses o1 = no_curses o0 \<and> block_protocols o1 = block_protocols o0"

lemma net_filter_keeps:
  "options_config_get_net_filter lb inet_aton c o0 = Some (r, c', o1) \<Longrightarrow> same_flags o1 o0"
  by (auto simp: options_config_get_net_filter_def same_flags_def Let_def split: option.splits if_splits)

lemma net_filter6_keeps:
  "options_config_get_net_filter6 lb inet_pton6 c o0 = (r, c', o1) \<Longrightarrow> same_flags o1 o0"
  by (auto simp: options_config_get_net_filter6_def same_flags_def Let_def split: option.splits if_splits)

lemma bw_rate_keeps:
  "options_config_get_bw_rate junk c d o0 = (c', o1) \<Longrightarrow> same_flags o1 o0 \<and>
   (c' = c \<or> (\<exists>v. c' = assign_item c d v \<and> config_get_string c d \<noteq> None))"
  by (auto simp: options_config_get_bw_rate_def same_flags_def Let_def split: option.splits)

lemma config_bool_item:
  "config_get_string c d = Some v \<Longrightarrow>
   options_config_get_bool c d x = (if v \<in> {''yes'', ''true''} then 1 else 0)"
  by (auto simp: options_config_get_bool_def config_get_bool_def strcmp_zero)

lemma assign_keeps:
  assumes "smap_ok c" and "config_get_string c d \<noteq> None" and "k \<noteq> d"
  shows "config_get_string (assign_item c d v) k = config_get_string c k"
  using smap.assign [OF assms(1), of d v] assms(2,3) by (simp add: config_get_string_def)

lemma options_make_flags:
  assumes "options_make lb junk inet_aton inet_pton6 s = Ok s'" and "smap_ok (conf s)"
    and "config_get_string (conf s) ''dns-resolution'' = Some ''false''"
    and "config_get_string (conf s) ''port-resolution'' = Some ''false''"
    and "config_get_string (conf s) ''no-curses'' = Some ''true''"
  shows "dnsresolution (opts s') = 0 \<and> portresolution (opts s') = 0 \<and> no_curses (opts s') = 1 \<and>
    block_protocols (opts s') = block_protocols (opts s) \<and> ports s' = ports s"
proof -
  note flags = assms(3-5) [THEN config_bool_item, simplified]
  let ?o4 = "take_display (conf s) (opts s)"
  obtain c1 o5 where bw: "options_config_get_bw_rate junk (conf s) ''max-bandwidth'' ?o4 = (c1, o5)"
    by (cases "options_config_get_bw_rate junk (conf s) ''max-bandwidth'' ?o4")
  obtain r c2 o7 where nf: "options_config_get_net_filter lb inet_aton c1 (take_output lb c1 o5) = Some (r, c2, o7)"
    using assms(1) bw by (auto simp: options_make_def split: option.splits)
  obtain r' c3 o8 where nf6: "options_config_get_net_filter6 lb inet_pton6 c2 o7 = (r', c3, o8)"
    by (metis prod_cases3)
  have s': "s' = s\<lparr>conf := c3, opts := o8\<rparr>" using assms(1) bw nf nf6 by (simp add: options_make_def)
  have d: "dnsresolution ?o4 = 0" "portresolution ?o4 = 0" "block_protocols ?o4 = block_protocols (opts s)"
    by (simp_all add: take_display_def Let_def options_config_get_promiscuous_def flags)
  have "config_get_string c1 ''no-curses'' = Some ''true''"
    using bw_rate_keeps [OF bw] assign_keeps [OF assms(2), of "''max-bandwidth''" "''no-curses''"] assms(5) by auto
  then have n: "no_curses (take_output lb c1 o5) = 1" by (simp add: take_output_def config_bool_item)
  have t: "dnsresolution (take_output lb c1 o5) = dnsresolution o5" "portresolution (take_output lb c1 o5) = portresolution o5"
    "block_protocols (take_output lb c1 o5) = block_protocols o5"
    by (simp_all add: take_output_def)
  have "same_flags o5 ?o4" "same_flags o7 (take_output lb c1 o5)" "same_flags o8 o7"
    using bw_rate_keeps [OF bw] net_filter_keeps [OF nf] net_filter6_keeps [OF nf6] by auto
  with d n t s' show ?thesis unfolding same_flags_def by simp
qed

subsection \<open>The state after start-up\<close>

text \<open>What the three calls before the file is read guarantee.\<close>

definition short_block_lists :: "nat \<Rightarrow> (char \<times> string) list \<Rightarrow> bool" where
  "short_block_lists lb os \<longleftrightarrow> (\<forall>(c, a) \<in> set os. c = CHR ''Z'' \<longrightarrow> length (number_list lb a) < 32)"

lemma read_args_state:
  assumes "options_read_args lb args_file argv s = Ok s'" and "smap_ok (conf s)" and "arrays_ok s"
  shows "smap_ok (conf s') \<and> arrays_ok s' \<and>
    config_get_string (conf s') ''dns-resolution'' = Some ''false'' \<and>
    config_get_string (conf s') ''port-resolution'' = Some ''false'' \<and>
    config_get_string (conf s') ''no-curses'' = Some ''true'' \<and>
    (block_protocols (opts s) ! 31 = -1 \<longrightarrow> short_block_lists lb (command_options args_file argv) \<longrightarrow>
     block_protocols (opts s') ! 31 = -1)"
proof -
  obtain s1 s2 s3 p where s: "set_conf ''dns-resolution'' ''false'' s = Ok s1"
      "set_conf ''port-resolution'' ''false'' s1 = Ok s2" "set_conf ''no-curses'' ''true'' s2 = Ok s3"
      "(case p of (st, fargv) \<Rightarrow> case getopt (tl optstr) (if st = 0 then fargv else tl argv) of (os, leftover) \<Rightarrow>
          obind (read_opts lb os s3) (\<lambda>s. if leftover then Exit 1 else Ok s)) = Ok s'"
      "of_option (read_args_from_file args_file) = Ok p"
    using assms(1) unfolding options_read_args_def obind_Ok by blast
  obtain os left where o: "getopt (tl optstr) (if fst p = 0 then snd p else tl argv) = (os, left)" by fastforce
  then have r: "read_opts lb os s3 = Ok s'" using s(4) by (cases p) (auto simp: obind_Ok split: if_splits)
  have co: "command_options args_file argv = os"
    using o s(5) by (cases p) (auto simp: command_options_def of_option_def split: option.splits)
  note k1 = set_conf_Ok [OF s(1) assms(2)]
  note k2 = set_conf_Ok [OF s(2) k1(1)]
  note k3 = set_conf_Ok [OF s(3) k2(1)]
  have "arrays_ok s3" using assms(3) k1(3,4) k2(3,4) k3(3,4) by (simp add: arrays_ok_def)
  note R = read_opts_Ok [OF r k3(1) this]
  have "block_protocols (opts s) ! 31 = -1 \<longrightarrow> short_block_lists lb (command_options args_file argv) \<longrightarrow>
      block_protocols (opts s') ! 31 = -1"
    using R k1(3) k2(3) k3(3) unfolding short_block_lists_def co by metis
  with R k3(2) k2(2) k1(2) show ?thesis by (simp add: command_directives_def)
qed

lemma read_config_keeps:
  assumes "read_config f c = Some (r, c')" and "smap_ok c"
  shows "smap_ok c' \<and> (\<forall>k v. config_get_string c k = Some v \<longrightarrow> config_get_string c' k = Some v)"
proof (cases f)
  case None
  with assms show ?thesis by (simp add: read_config_def read_config_file_def)
next
  case (Some t)
  then obtain ls where "smap.dadd_all c (line_bindings ls) = Some c'"
    using assms(1) by (auto simp: read_config_def read_config_file_def read_lines_dadd bind_eq_Some_conv)
  with smap.add_all_spec [OF assms(2), of "line_bindings ls"] show ?thesis
    by (auto simp: config_get_string_def map_add_def)
qed

lemma configure_state:
  assumes "configure lb junk inet_aton inet_pton6 up nameindex home now file args_file argv = Ok s"
  shows "dnsresolution (opts s) = 0 \<and> portresolution (opts s) = 0 \<and> no_curses (opts s) = 1 \<and> arrays_ok s \<and>
    (short_block_lists lb (command_options args_file argv) \<longrightarrow> block_protocols (opts s) ! 31 = -1)"
proof -
  let ?s0 = "\<lparr>opts = options_set_defaults up nameindex home now options_initial, conf = config_init,
                ports = replicate PORT_LIST_LEN 0\<rparr>"
  obtain s1 p where s1: "options_read_args lb args_file argv ?s0 = Ok s1"
      "of_option (read_config (file (config_file (opts s1))) (conf s1)) = Ok p"
      "(case p of (r, c) \<Rightarrow> options_make lb junk inet_aton inet_pton6 (s1\<lparr>conf := c\<rparr>)) = Ok s"
    using assms unfolding configure_def Let_def obind_Ok by blast
  obtain r c where p: "p = (r, c)" by (cases p)
  have c: "read_config (file (config_file (opts s1))) (conf s1) = Some (r, c)"
    using s1(2) p by (simp add: of_option_def split: option.splits)
  have ok: "smap_ok (conf ?s0)" "arrays_ok ?s0" "block_protocols (opts ?s0) ! 31 = -1"
    by (simp_all add: config_init_def smap_ok_def arrays_ok_def options_set_defaults_def)
  note A = read_args_state [OF s1(1) ok(1,2)]
  note C = read_config_keeps [OF c conjunct1 [OF A]]
  have m: "options_make lb junk inet_aton inet_pton6 (s1\<lparr>conf := c\<rparr>) = Ok s" using s1(3) p by simp
  note M = options_make_flags [OF m]
  show ?thesis using A C M ok(3) by (simp add: arrays_ok_def)
qed

subsection \<open>Well-formed options\<close>

text \<open>What the types of options.h do not say: flags are 0 or 1, the arrays have their declared sizes,
  the name of the broker is terminated inside its array, and a filter that is on has a network without
  host bits.\<close>

definition is_flag :: "int \<Rightarrow> bool" where
  "is_flag x \<longleftrightarrow> x = 0 \<or> x = 1"

definition flags_wf :: "options_t \<Rightarrow> bool" where
  "flags_wf os \<longleftrightarrow> list_all is_flag [dnsresolution os, portresolution os, promiscuous os, promiscuous_but_choosy os,
     showbars os, aggregate_src os, aggregate_dest os, bandwidth_in_bytes os, show_totals os, log_scale os,
     link_local os, no_curses os, netfilter os, netfilter6 os]"

definition filters_wf :: "options_t \<Rightarrow> bool" where
  "filters_wf os \<longleftrightarrow> length (netfilter6net os) = 16 \<and> length (netfilter6mask os) = 16 \<and>
     (netfilter os = 1 \<longrightarrow> netfilternet os AND netfiltermask os = netfilternet os) \<and>
     (netfilter6 os = 1 \<longrightarrow> map2 (AND) (netfilter6net os) (netfilter6mask os) = netfilter6net os)"

definition options_wf :: "options_t \<Rightarrow> bool" where
  "options_wf os \<longleftrightarrow> flags_wf os \<and> filters_wf os \<and> length (block_protocols os) = 32 \<and> length (mqtt_addr os) < 64"

lemma is_flag_simps [simp]: "is_flag 0" "is_flag 1"
  by (simp_all add: is_flag_def)

lemma flag_bool: "is_flag x \<Longrightarrow> is_flag (options_config_get_bool c d x)"
  by (simp add: options_config_get_bool_def config_get_bool_def split: option.split)

lemma flag_config [simp]: "is_flag (config_get_bool c d)"
  by (simp add: config_get_bool_def split: option.split)

lemma and_mask_again: "map2 (AND) (map2 (AND) xs ms) ms = map2 (AND) xs (ms :: byte list)"
  by (induction xs arbitrary: ms) (auto split: list.splits simp: zip_Cons1 and.assoc)

lemma length_prefix6: "n \<le> 8 * length old \<Longrightarrow> length (prefix6_mask n old) = length old"
  by (simp add: prefix6_mask_def Let_def)

lemma defaults_wf: "options_wf (options_set_defaults up nameindex home now options_initial)"
  by (simp add: options_wf_def flags_wf_def filters_wf_def options_set_defaults_def options_initial_def)

lemma wf_updates [simp]:
  assumes "options_wf os"
  shows "options_wf (os\<lparr>history_delete_interval := n\<rparr>)" "options_wf (os\<lparr>threshold := n\<rparr>)"
    "options_wf (os\<lparr>duration := n\<rparr>)" "options_wf (os\<lparr>send_interval := n\<rparr>)"
    "length a < 64 \<Longrightarrow> options_wf (os\<lparr>mqtt_addr := a\<rparr>)"
    "length l = 32 \<Longrightarrow> options_wf (os\<lparr>block_protocols := l\<rparr>)"
    "options_wf (os\<lparr>max_bandwidth := n\<rparr>)"
  using assms by (simp_all add: options_wf_def flags_wf_def filters_wf_def)

lemma set_conf_opts: "set_conf d v s = Ok s' \<Longrightarrow> opts s' = opts s"
  by (auto simp: set_conf_def obind_Ok)

lemma wf_blocks: "options_wf os \<Longrightarrow> length (block_protocols os) = 32"
  by (simp add: options_wf_def)

lemma read_option_wf:
  assumes "read_option lb c a s = Ok s'" and "options_wf (opts s)"
  shows "options_wf (opts s')"
  using assms wf_blocks [OF assms(2)] unfolding read_option_def
  by (auto simp: obind_Ok store_list_Ok set_broker_Ok dest: set_conf_opts split: if_splits)

lemma display_wf: "options_wf os \<Longrightarrow> options_wf (take_display c os)"
  by (simp add: options_wf_def flags_wf_def filters_wf_def take_display_def Let_def flag_bool
      options_config_get_promiscuous_def)

lemma bw_rate_wf: "options_wf os \<Longrightarrow> options_config_get_bw_rate junk c d os = (c', o1) \<Longrightarrow> options_wf o1"
  by (auto simp: options_config_get_bw_rate_def Let_def split: option.splits)

lemma output_wf: "options_wf os \<Longrightarrow> options_wf (take_output lb c os)"
  by (simp add: options_wf_def flags_wf_def filters_wf_def take_output_def flag_bool)

lemma wf_facts:
  assumes "options_wf os"
  shows "list_all is_flag [dnsresolution os, portresolution os, promiscuous os, promiscuous_but_choosy os,
      showbars os, aggregate_src os, aggregate_dest os, bandwidth_in_bytes os, show_totals os, log_scale os,
      link_local os, no_curses os, netfilter os, netfilter6 os]"
    "length (netfilter6net os) = 16" "length (netfilter6mask os) = 16"
    "length (block_protocols os) = 32" "length (mqtt_addr os) < 64"
    "netfilter os = 1 \<Longrightarrow> netfilternet os AND netfiltermask os = netfilternet os"
    "netfilter6 os = 1 \<Longrightarrow> map2 (AND) (netfilter6net os) (netfilter6mask os) = netfilter6net os"
  using assms by (simp_all add: options_wf_def flags_wf_def filters_wf_def)

lemma net_filter_wf:
  assumes "options_wf os"
  shows "pred_option (\<lambda>(r, c, os). options_wf os) (options_config_get_net_filter lb inet_aton c os)"
  using wf_facts [OF assms]
  by (simp add: options_config_get_net_filter_def Let_def options_wf_def flags_wf_def filters_wf_def and.assoc
      split: option.split)

lemma length_prefix6_word [simp]:
  assumes "\<not> 128 < uint (w :: u32)" and "length old = 16"
  shows "length (prefix6_mask (unat w) old) = 16"
proof -
  have "nat (uint w) \<le> 128" using assms(1) by linarith
  then show ?thesis using length_prefix6 [of "unat w" old] assms(2) by (simp only: unat_eq_nat_uint)
qed

lemma net_filter6_wf:
  assumes "options_wf os" and len: "\<And>s bs. inet_pton6 s = Some bs \<Longrightarrow> length bs = 16"
  shows "case options_config_get_net_filter6 lb inet_pton6 c os of (r, c, os) \<Rightarrow> options_wf os"
  using wf_facts [OF assms(1)]
  by (simp add: options_config_get_net_filter6_def Let_def options_wf_def flags_wf_def filters_wf_def len and_mask_again
      split: option.split)

lemma read_opts_wf: "read_opts lb os s = Ok s' \<Longrightarrow> options_wf (opts s) \<Longrightarrow> options_wf (opts s')"
proof (induction os arbitrary: s)
  case (Cons p os)
  then show ?case using read_option_wf by (cases p) (auto simp: obind_Ok)
qed simp

lemma read_args_wf:
  assumes "options_read_args lb args_file argv s = Ok s'" and "options_wf (opts s)"
  shows "options_wf (opts s')"
proof -
  obtain s1 s2 s3 p where s: "set_conf ''dns-resolution'' ''false'' s = Ok s1"
      "set_conf ''port-resolution'' ''false'' s1 = Ok s2" "set_conf ''no-curses'' ''true'' s2 = Ok s3"
      "(case p of (st, fargv) \<Rightarrow> case getopt (tl optstr) (if st = 0 then fargv else tl argv) of (os, leftover) \<Rightarrow>
          obind (read_opts lb os s3) (\<lambda>s. if leftover then Exit 1 else Ok s)) = Ok s'"
      "of_option (read_args_from_file args_file) = Ok p"
    using assms(1) unfolding options_read_args_def obind_Ok by blast
  obtain os where "read_opts lb os s3 = Ok s'"
    using s(4) by (auto simp: obind_Ok split: prod.splits if_splits)
  then show ?thesis by (rule read_opts_wf) (use s(1-3) assms(2) in \<open>simp add: set_conf_opts\<close>)
qed

lemma options_make_wf:
  assumes "options_make lb junk inet_aton inet_pton6 s = Ok s'" and "options_wf (opts s)"
    and "\<And>a bs. inet_pton6 a = Some bs \<Longrightarrow> length bs = 16"
  shows "options_wf (opts s')"
proof -
  obtain c1 o5 where bw: "options_config_get_bw_rate junk (conf s) ''max-bandwidth'' (take_display (conf s) (opts s)) = (c1, o5)"
    by (cases "options_config_get_bw_rate junk (conf s) ''max-bandwidth'' (take_display (conf s) (opts s))")
  have 5: "options_wf (take_output lb c1 o5)" by (rule output_wf [OF bw_rate_wf [OF display_wf [OF assms(2)] bw]])
  obtain r c2 o7 where nf: "options_config_get_net_filter lb inet_aton c1 (take_output lb c1 o5) = Some (r, c2, o7)"
    using assms(1) bw by (auto simp: options_make_def split: option.splits)
  have "options_wf o7" using net_filter_wf [OF 5, of lb inet_aton c1] nf by simp
  with net_filter6_wf [of o7 inet_pton6 lb c2] assms(1,3) bw nf
  show ?thesis by (auto simp: options_make_def split: prod.splits)
qed

lemma configure_wf:
  assumes "configure lb junk inet_aton inet_pton6 up nameindex home now file args_file argv = Ok s"
    and "\<And>a bs. inet_pton6 a = Some bs \<Longrightarrow> length bs = 16"
  shows "options_wf (opts s)"
proof -
  obtain s1 p where s1: "options_read_args lb args_file argv \<lparr>opts = options_set_defaults up nameindex home now options_initial,
        conf = config_init, ports = replicate PORT_LIST_LEN 0\<rparr> = Ok s1"
      "of_option (read_config (file (config_file (opts s1))) (conf s1)) = Ok p"
      "(case p of (r, c) \<Rightarrow> options_make lb junk inet_aton inet_pton6 (s1\<lparr>conf := c\<rparr>)) = Ok s"
    using assms(1) unfolding configure_def Let_def obind_Ok by blast
  have "options_wf (opts s1)" using read_args_wf [OF s1(1)] defaults_wf by simp
  then show ?thesis using s1(3) options_make_wf [of lb junk inet_aton inet_pton6 _ s] assms(2) by (cases p) auto
qed

subsection \<open>The start of main\<close>

text \<open>What the program finds outside when it starts: the machine's data model, the environment and the
  files that the configuration reads, what the interface and libpcap answer, the broker, and the
  clock at the calls of \<open>time\<close>.\<close>

record outside =
  o_abi :: abi
  o_junk :: int
  o_inet_aton :: "string \<Rightarrow> u32 option"
  o_inet_pton6 :: "string \<Rightarrow> byte list option"
  o_if_up :: "string \<Rightarrow> bool"
  o_if_names :: "string list option"
  o_home :: "string option"
  o_file :: "string \<Rightarrow> string option"
  o_args_file :: "string option"
  o_get_addrs :: "string option \<Rightarrow> int \<times> byte list \<times> u32 \<times> byte list"
  o_pcap_open :: "string option \<Rightarrow> dlt option"
  o_compile :: "string \<Rightarrow> string option"
  o_setfilter :: "string \<Rightarrow> string option"
  o_device :: string
  o_connect :: bool
  o_options_time :: time_t
  o_history_time :: time_t
  o_mqtt_time :: time_t

definition long_bits :: "abi \<Rightarrow> nat" where
  "long_bits abi = 8 * sizeof_long abi"

definition configure_here :: "outside \<Rightarrow> string list \<Rightarrow> opt_state outcome" where
  "configure_here e = configure (long_bits (o_abi e)) (o_junk e) (o_inet_aton e) (o_inet_pton6 e) (o_if_up e)
     (o_if_names e) (o_home e) (o_options_time e) (o_file e) (o_args_file e)"

text \<open>\<open>main\<close> up to the creation of the capture thread: the configuration, \<open>packet_init\<close>,
  \<open>init_history\<close> and \<open>init_MQTT\<close>. The globals not yet initialised when \<open>packet_init\<close> runs, which it
  does not touch, are those of an empty start.\<close>

definition boot :: "outside \<Rightarrow> string list \<Rightarrow> (dlt \<times> iftop) outcome" where
  "boot e argv = obind (configure_here e argv) (\<lambda>s.
     case o_get_addrs e (interface (opts s)) of (result, hw, ip4, ip6) \<Rightarrow>
     case packet_init result hw ip4 ip6 (o_pcap_open e (interface (opts s))) (o_compile e) (o_setfilter e)
            (start 0 (opts s) (ports s) \<lparr>have_hw_addr = 0, if_hw_addr = replicate 6 0, have_ip_addr = 0,
               if_ip_addr = 0, have_ip6_addr = 0, if_ip6_addr = replicate 16 0\<rparr> mqtt_initial) of
       None \<Rightarrow> Exit 1
     | Some (d, w) \<Rightarrow> obind (of_option (init_MQTT (o_abi e) (o_device e) (o_connect e) (o_mqtt_time e) mqtt_initial)) (\<lambda>m.
         Ok (d, start (o_history_time e) (options w) (port_list w) (ifhost w) m)))"

lemma packet_init_keeps:
  "packet_init result hw ip4 ip6 dlt compile setfilter w = Some (d, w') \<Longrightarrow>
     options w' = options w \<and> port_list w' = port_list w"
  by (auto simp: packet_init_def bind_eq_Some_conv Let_def split: if_splits option.splits)

lemma start_fields [simp]:
  "options (start now os pl hst m) = os" "port_list (start now os pl hst m) = pl" "ifhost (start now os pl hst m) = hst"
  "mqtt_client (start now os pl hst m) = m" "last_timestamp (start now os pl hst m) = now"
  by (simp_all add: start_def init_history_def)

lemma boot_Ok:
  assumes "boot e argv = Ok (d, w)"
  obtains s m where "configure_here e argv = Ok s"
    "init_MQTT (o_abi e) (o_device e) (o_connect e) (o_mqtt_time e) mqtt_initial = Some m"
    "w = start (o_history_time e) (opts s) (ports s) (ifhost w) m"
proof -
  obtain s where s: "configure_here e argv = Ok s" using assms unfolding boot_def obind_Ok by blast
  note B = assms [unfolded boot_def s obind.simps]
  obtain result hw ip4 ip6 where a: "o_get_addrs e (interface (opts s)) = (result, hw, ip4, ip6)"
    by (cases "o_get_addrs e (interface (opts s))")
  obtain w1 m where 1: "packet_init result hw ip4 ip6 (o_pcap_open e (interface (opts s))) (o_compile e) (o_setfilter e)
            (start 0 (opts s) (ports s) \<lparr>have_hw_addr = 0, if_hw_addr = replicate 6 0, have_ip_addr = 0,
               if_ip_addr = 0, have_ip6_addr = 0, if_ip6_addr = replicate 16 0\<rparr> mqtt_initial) = Some (d, w1)"
      "init_MQTT (o_abi e) (o_device e) (o_connect e) (o_mqtt_time e) mqtt_initial = Some m"
      "w = start (o_history_time e) (options w1) (port_list w1) (ifhost w1) m"
    using B unfolding a by (auto simp: obind_Ok of_option_def split: option.splits)
  then show thesis using that [OF s 1(2)] packet_init_keeps [OF 1(1)] by simp
qed

subsection \<open>Properties\<close>

text \<open>Whatever the command line, the arguments file and the configuration file say, a
  configuration that completes runs without name and port resolution and without the curses
  interface: the three directives set first win over the file and no option touches them.\<close>

theorem configure_headless:
  assumes "configure lb junk inet_aton inet_pton6 up nameindex home now file args_file argv = Ok s"
  shows "dnsresolution (opts s) = 0 \<and> portresolution (opts s) = 0 \<and> no_curses (opts s) = 1"
  using configure_state [OF assms] by blast

text \<open>A start with one option and a configuration file that asks for name resolution.\<close>

definition sample_configure :: "opt_state outcome" where
  "sample_configure = configure 32 0 (\<lambda>s. None) (\<lambda>s. None) (\<lambda>s. True)
     (Some [''eth0'']) None 0 (\<lambda>p. Some ''dns-resolution: yes'') None [''iftop'', ''-Z'', ''1,17'']"

lemma sample_configured: "case sample_configure of Ok s \<Rightarrow> True | _ \<Rightarrow> False"
  by code_simp

lemma sample_short: "short_block_lists 32 (command_options None [''iftop'', ''-Z'', ''1,17''])"
  by code_simp

text \<open>The same start seen from \<open>main\<close>, on an Ethernet interface without addresses.\<close>

definition sample_outside :: "(string \<Rightarrow> string option) \<Rightarrow> outside" where
  "sample_outside file = \<lparr>o_abi = ilp32, o_junk = 0, o_inet_aton = (\<lambda>s. None), o_inet_pton6 = (\<lambda>s. None),
     o_if_up = (\<lambda>s. True), o_if_names = Some [''eth0''], o_home = None, o_file = file, o_args_file = None,
     o_get_addrs = (\<lambda>_. (0, replicate 6 0, 0, replicate 16 0)), o_pcap_open = (\<lambda>_. Some DLT_EN10MB),
     o_compile = (\<lambda>x. None), o_setfilter = (\<lambda>x. None), o_device = ''42'', o_connect = True,
     o_options_time = 0, o_history_time = 5, o_mqtt_time = 5\<rparr>"

lemma sample_outside_booted:
  assumes "configure_here (sample_outside file) argv = Ok s"
  shows "boot (sample_outside file) argv = Ok (DLT_EN10MB, start 5 (opts s) (ports s) no_host sample_boot)"
  using assms sample_boot_init
  by (simp add: boot_def) (simp add: sample_outside_def packet_init_def Let_def set_filter_code_def start_def
      init_history_def no_host_def of_option_def)

lemma sample_configure_here:
  "configure_here (sample_outside (\<lambda>p. Some ''dns-resolution: yes'')) [''iftop'', ''-Z'', ''1,17''] = sample_configure"
  by (simp add: configure_here_def sample_configure_def sample_outside_def long_bits_def ilp32_def)

theorem configure_headless_witness:
  "case sample_configure of Ok s \<Rightarrow> dnsresolution (opts s) = 0 \<and> no_curses (opts s) = 1 | _ \<Rightarrow> False"
proof -
  obtain s where s: "sample_configure = Ok s" using sample_configured by (auto split: outcome.splits)
  from configure_headless [OF s [unfolded sample_configure_def]] show ?thesis unfolding s by simp
qed

text \<open>C14. The options after start-up are well-formed. Whatever the command line, the arguments file and
  the configuration file say, a configuration that completes leaves every flag 0 or 1, the port list,
  the list of blocked protocols and the IPv6 arrays at their declared sizes, the broker's name
  terminated inside its 64 bytes and, when a net filter is on, its network without host bits; and the
  program runs without name and port resolution and without the curses interface, since the
  directives set first win over the file and no option touches them.\<close>

theorem configured_well_formed:
  assumes "configure lb junk inet_aton inet_pton6 up nameindex home now file args_file argv = Ok s"
    and "\<And>a bs. inet_pton6 a = Some bs \<Longrightarrow> length bs = 16"
  shows "options_wf (opts s) \<and> arrays_ok s \<and>
    dnsresolution (opts s) = 0 \<and> portresolution (opts s) = 0 \<and> no_curses (opts s) = 1"
  using configure_wf [OF assms(1)] assms(2) configure_state [OF assms(1)] by blast

theorem configured_well_formed_witness:
  "case sample_configure of Ok s \<Rightarrow> options_wf (opts s) \<and> arrays_ok s \<and> dnsresolution (opts s) = 0 \<and> no_curses (opts s) = 1
   | _ \<Rightarrow> False"
proof -
  obtain s where s: "sample_configure = Ok s" using sample_configured by (auto split: outcome.splits)
  from configured_well_formed [OF s [unfolded sample_configure_def]] show ?thesis unfolding s by simp
qed

text \<open>From the command line to the capture: after a configuration whose \<open>-Z\<close> lists name fewer
  than 32 protocols, every sequence of packets whose headers were captured is handled without a memory
  fault and keeps the program's invariant, provided the loop variable of the protocol filter happens to
  be 0. The ten ports and the terminator of the protocol list are established by the option code.\<close>

theorem configured_capture:
  assumes "configure lb junk inet_aton inet_pton6 up nameindex home now file args_file argv = Ok s"
    and "short_block_lists lb (command_options args_file argv)"
    and "init_MQTT abi dev ok mqtt_now mqtt_initial = Some m"
    and "list_all (\<lambda>(env, iptr, dir). e_abi env = abi \<and> env_ok env \<and> e_i env = 0 \<and> decode_ip iptr \<noteq> None) ps"
  shows "\<exists>w f. ip_run ps (start now' (opts s) (ports s) hst m) = Some w \<and> iftop_ok abi w f"
proof -
  let ?w = "start now' (opts s) (ports s) hst m"
  have C: "arrays_ok s" "block_protocols (opts s) ! 31 = -1" using configure_state [OF assms(1)] assms(2) by auto
  then have "-1 \<in> set (block_protocols (opts s))" using nth_mem [of 31 "block_protocols (opts s)"] by (simp add: arrays_ok_def)
  then have l: "lists_ok (opts s) (ports s) 0" using C(1) by (simp add: lists_ok_def arrays_ok_def)
  have w: "options ?w = opts s" "port_list ?w = ports s"
    by (simp_all add: start_def init_history_def)
  have i: "iftop_ok abi ?w None"
    using init_mach_inv [OF assms(3)] init_history_ok [of now'] by (simp add: start_def init_history_def iftop_ok_def)
  have "list_all (ip_event_ok abi (options ?w) (port_list ?w)) ps"
    using assms(4) l unfolding w list_all_iff by (auto simp: ip_event_ok_def)
  from ip_run_ok [OF i this] show ?thesis by blast
qed

theorem configured_capture_witness:
  "\<exists>s w. sample_configure = Ok s \<and>
     ip_run [(sample_env, udp_packet, -1)] (start 5 (opts s) (ports s) no_host sample_boot) = Some w"
proof -
  obtain s where s: "sample_configure = Ok s" using sample_configured by (auto split: outcome.splits)
  have b: "short_block_lists 32 (command_options None [''iftop'', ''-Z'', ''1,17''])" by (rule sample_short)
  have p: "list_all (\<lambda>(env, iptr, dir). e_abi env = ilp32 \<and> env_ok env \<and> e_i env = 0 \<and> decode_ip iptr \<noteq> None)
      [(sample_env, udp_packet, -1 :: int)]"
    using decode_udp_packet by (simp add: env_ok_def sample_env_def ilp32_def)
  from configured_capture [OF s [unfolded sample_configure_def] b sample_boot_init p, where now' = 5 and hst = no_host] s
  show ?thesis by blast
qed

subsection \<open>The IPv4 filter\<close>

lemma bit_ntohl: "i < 32 \<Longrightarrow> bit (ntohl w) i \<longleftrightarrow> bit w (8 * (3 - i div 8) + i mod 8)"
proof -
  have two: "Suc (Suc 0) = 2" by simp
  have hi: "32 \<le> k \<Longrightarrow> \<not> bit w k" for k using bit_imp_le_length [of w k] by auto
  have "list_all (\<lambda>i. bit (ntohl w) i \<longleftrightarrow> bit w (8 * (3 - i div 8) + i mod 8)) [0, 1, 2, 3, 4, 5, 6, 7, 8, 9, 10, 11, 12, 13, 14, 15, 16, 17, 18, 19, 20, 21, 22, 23, 24, 25, 26, 27, 28, 29, 30, 31]"
    by (simp add: ntohl_def bit_or_iff bit_and_iff bit_push_bit_iff bit_drop_bit_eq hi two)
  moreover have "[0..<32] = [0, 1, 2, 3, 4, 5, 6, 7, 8, 9, 10, 11, 12, 13, 14, 15, 16, 17, 18, 19, 20, 21, 22, 23, 24, 25, 26, 27, 28, 29, 30, 31]" by (simp add: upt_rec_numeral upt_conv_Cons)
  ultimately have "list_all (\<lambda>i. bit (ntohl w) i \<longleftrightarrow> bit w (8 * (3 - i div 8) + i mod 8)) [0..<32]"
    by (simp only:)
  then show "i < 32 \<Longrightarrow> ?thesis" unfolding list_all_iff by simp
qed

lemma ntohl_and: "ntohl (x AND y) = ntohl x AND ntohl y"
  by (rule bit_word_eqI) (simp add: bit_ntohl bit_and_iff)

lemma ntohl_ntohl: "ntohl (ntohl w) = w"
proof (rule bit_word_eqI)
  fix i assume "i < LENGTH(32)"
  then have i: "i < 32" by simp
  let ?j = "8 * (3 - i div 8) + i mod 8"
  have j: "?j < 32" "8 * (3 - ?j div 8) + ?j mod 8 = i" 
  proof -
    have "list_all (\<lambda>i. 8 * (3 - i div 8) + i mod 8 < 32 \<and>
        8 * (3 - (8 * (3 - i div 8) + i mod 8) div 8) + (8 * (3 - i div 8) + i mod 8) mod 8 = i) [0..<32]"
      by code_simp
    then show "?j < 32" "8 * (3 - ?j div 8) + ?j mod 8 = i" using i by (simp_all add: list_all_iff)
  qed
  show "bit (ntohl (ntohl w)) i = bit w i" using bit_ntohl [OF i, of "ntohl w"] bit_ntohl [OF j(1), of w] j(2) by simp
qed

lemma prefix_mask_bits:
  assumes "n \<le> 32"
  shows "ntohl (prefix_mask n) = NOT (mask (32 - n))"
proof -
  have "list_all (\<lambda>n. ntohl (prefix_mask n) = NOT (mask (32 - n))) [0..<33]" by code_simp
  then show ?thesis using assms by (simp add: list_all_iff)
qed

lemma and_not_mask_eq:
  fixes x y :: u32
  shows "x AND NOT (mask k) = y AND NOT (mask k) \<longleftrightarrow> drop_bit k x = drop_bit k y"
proof
  have d: "drop_bit k (z AND NOT (mask k)) = drop_bit k z" for z :: u32
    by (rule bit_word_eqI) (auto simp: bit_simps dest: bit_imp_le_length)
  assume "x AND NOT (mask k) = y AND NOT (mask k)"
  then show "drop_bit k x = drop_bit k y" using d [of x] d [of y] by simp
next
  have m: "z AND NOT (mask k) = push_bit k (drop_bit k z)" for z :: u32
    by (rule bit_word_eqI) (auto simp: bit_simps)
  assume "drop_bit k x = drop_bit k y"
  then show "x AND NOT (mask k) = y AND NOT (mask k)" by (simp add: m)
qed

lemma prefix_match:
  assumes "n \<le> 32"
  shows "x AND prefix_mask n = y AND prefix_mask n \<longleftrightarrow> drop_bit (32 - n) (ntohl x) = drop_bit (32 - n) (ntohl y)"
proof -
  have "x AND prefix_mask n = y AND prefix_mask n \<longleftrightarrow> ntohl (x AND prefix_mask n) = ntohl (y AND prefix_mask n)"
    by (metis ntohl_ntohl)
  also have "\<dots> \<longleftrightarrow> drop_bit (32 - n) (ntohl x) = drop_bit (32 - n) (ntohl y)"
    unfolding ntohl_and prefix_mask_bits [OF assms] by (rule and_not_mask_eq)
  finally show ?thesis .
qed


text \<open>The option value \<open>address/length\<close>, parsed.\<close>

lemma net_filter_parsed:
  assumes "config_get_string c ''net-filter'' = Some (addr @ ''/'' @ show_nat n)"
    and "CHR ''/'' \<notin> set addr" and "inet_aton addr = Some net" and "n < 2 ^ 31" and "32 \<le> lb"
  shows "options_config_get_net_filter lb inet_aton c o0 =
    (let m = (if n \<le> 32 then prefix_mask n else netfiltermask o0)
     in Some (1, assign_item c ''net-filter'' addr,
          o0\<lparr>netfilter := 1, netfiltermask := m, netfilternet := net AND m\<rparr>))"
proof -
  have d: "set (show_nat n) \<subseteq> set ''0123456789''"
    using show_nat_spec [of n] unfolding is_digit_def by (intro subsetI) blast
  have sp: "strspn (show_nat n) ''0123456789'' = length (show_nat n)"
    using strspn_split [OF d, of "[]"] by simp
  have a: "atoi lb (show_nat n) = int n" using assms(4,5) by (rule atoi_show_nat)
  have i: "strchr (addr @ CHR ''/'' # show_nat n) CHR ''/'' = Some (length addr)"
    using strchr_split [OF assms(2), of "show_nat n"] by simp
  show ?thesis
    using assms(3) by (simp add: options_config_get_net_filter_def assms(1) i Let_def sp a)
qed

text \<open>C12. The net filter \<open>address/n\<close>. For \<open>n\<close> up to 32 the packet filter afterwards counts an
  address as inside exactly if its first \<open>n\<close> bits, in host order, are those of the address. For a
  larger \<open>n\<close> an error message is printed, but the filter is switched on all the same, with whatever
  mask was set before.\<close>

theorem net_filter_prefix:
  assumes "config_get_string c ''net-filter'' = Some (addr @ ''/'' @ show_nat n)"
    and "CHR ''/'' \<notin> set addr" and "inet_aton addr = Some net" and "n < 2 ^ 31" and "32 \<le> lb"
  shows "\<exists>c' o1. options_config_get_net_filter lb inet_aton c o0 = Some (1, c', o1) \<and> netfilter o1 = 1 \<and>
     (\<forall>ip. in_filter_net o1 ip \<longleftrightarrow>
        (if n \<le> 32 then drop_bit (32 - n) (ntohl ip) = drop_bit (32 - n) (ntohl net)
         else ip AND netfiltermask o0 = net AND netfiltermask o0))"
  unfolding net_filter_parsed [of c addr n inet_aton net, OF assms]
  using prefix_match [of n _ net] by (auto simp: in_filter_net_def Let_def)

theorem net_filter_prefix_witness:
  "\<exists>c' o1. options_config_get_net_filter 64 (\<lambda>s. if s = ''10.0.1.0'' then Some 0x0001000A else None)
     (the (config_set_string config_init ''net-filter'' ''10.0.1.0/24'')) options_initial = Some (1, c', o1) \<and>
     in_filter_net o1 0x0501000A \<and> \<not> in_filter_net o1 0x0502000A"
proof -
  let ?c = "the (config_set_string config_init ''net-filter'' ''10.0.1.0/24'')"
  let ?p = "\<lambda>s. if s = ''10.0.1.0'' then Some (0x0001000A :: u32) else None"
  have c: "config_get_string ?c ''net-filter'' = Some (''10.0.1.0'' @ ''/'' @ show_nat 24)" by code_simp
  have d: "drop_bit 8 (ntohl 0x0501000A) = drop_bit 8 (ntohl 0x0001000A)"
    "drop_bit 8 (ntohl 0x0502000A) \<noteq> drop_bit 8 (ntohl 0x0001000A)" by code_simp+
  from net_filter_prefix [of ?c "''10.0.1.0''" 24 ?p "0x0001000A" 64 options_initial, OF c] d show ?thesis by auto
qed

end
