(* ===== verification/Program.thy ===== *)
theory Program
  imports Startup
begin

text \<open>
  The program as its threads run it. The capture thread handles a packet in three steps that nothing
  makes atomic: the tick and the key, the lookup of the record, and the update through the pointer
  found. The main thread ticks on a key, the thread of the MQTT library on a data request, and the
  library reports deliveries. \<open>tick_mutex\<close> is held inside \<open>tick\<close> only, so a tick of another
  thread is one step, which may fall between any two steps of the capture thread.
\<close>

subsection \<open>The capture thread\<close>

text \<open>Where the capture thread stands: waiting for a packet, holding a key, or holding the pointer to
  the record of the connection.\<close>

datatype capture_pc =
    Waiting
  | Keyed env "byte list" addr_pair int
  | Holding env "byte list" addr_pair int addr

record program =
  globals :: iftop
  pc :: capture_pc

definition packet_begin :: "env \<Rightarrow> byte list \<Rightarrow> int \<Rightarrow> iftop \<Rightarrow> program option" where
  "packet_begin env iptr hw_dir w = do {
     w \<leftarrow> tick env 0 (e_time env) w;
     r \<leftarrow> packet_key (options w) (ifhost w) (port_list w) (e_i env) iptr hw_dir;
     Some \<lparr>globals = w, pc = (case r of None \<Rightarrow> Waiting | Some (ap, direction) \<Rightarrow> Keyed env iptr ap direction)\<rparr>
   }"

definition packet_lookup :: "env \<Rightarrow> byte list \<Rightarrow> addr_pair \<Rightarrow> int \<Rightarrow> iftop \<Rightarrow> program option" where
  "packet_lookup env iptr ap direction w = do {
     (ht, hs) \<leftarrow> find_or_create (e_create_time env) ap (history w);
     Some \<lparr>globals = w\<lparr>history := hs\<rparr>, pc = Holding env iptr ap direction ht\<rparr>
   }"

definition packet_update :: "env \<Rightarrow> byte list \<Rightarrow> addr_pair \<Rightarrow> int \<Rightarrow> addr \<Rightarrow> iftop \<Rightarrow> program option" where
  "packet_update env iptr ap direction ht w = do {
     l \<leftarrow> ip_len iptr;
     let len = ntohs l;
     s \<leftarrow> ip_src iptr;
     d \<leftarrow> hread (hrecs (history w)) ht;
     recs \<leftarrow> hwrite (hrecs (history w)) ht (count_packet (e_time env) (s = src ap) len d);
     Some \<lparr>globals = w\<lparr>history := (history w)\<lparr>hrecs := recs\<rparr>,
                          history_totals := add_totals direction len (history_totals w)\<rparr>,
           pc = Waiting\<rparr>
   }"

definition capture_step :: "program \<Rightarrow> program option" where
  "capture_step p = (case pc p of
      Waiting \<Rightarrow> Some p
    | Keyed env iptr ap direction \<Rightarrow> packet_lookup env iptr ap direction (globals p)
    | Holding env iptr ap direction ht \<Rightarrow> packet_update env iptr ap direction ht (globals p))"

subsection \<open>The other threads\<close>

text \<open>\<open>msgarrvd\<close>: a data request of the broker forces a tick. One pass of the input loop. And the
  confirmation of the pending message: the library confirms a message at most once, with the token
  it gave out.\<close>

definition msgarrvd :: "env \<Rightarrow> iftop \<Rightarrow> iftop option" where
  "msgarrvd env w = tick env 1 (e_time env) w"

definition loop_key :: "env \<Rightarrow> char \<Rightarrow> iftop \<Rightarrow> iftop option" where
  "loop_key env c w = (if c = CHR ''u'' then tick env 0 (e_time env) w else Some w)"

definition confirm :: "iftop \<Rightarrow> iftop" where
  "confirm w = (let m = mqtt_client w
     in if status m = MQTT_STATUS_PENDING then w\<lparr>mqtt_client := delivered (token m) m\<rparr> else w)"

datatype prog_event =
    Packet env "byte list" int
  | Capture
  | Key env char
  | Request env
  | Confirmed

definition in_globals :: "(iftop \<Rightarrow> iftop option) \<Rightarrow> program \<Rightarrow> program option" where
  "in_globals f p = map_option (\<lambda>w. p\<lparr>globals := w\<rparr>) (f (globals p))"

fun prog_step :: "prog_event \<Rightarrow> program \<Rightarrow> program option" where
  "prog_step (Packet env iptr dir) p =
     (if pc p = Waiting then packet_begin env iptr dir (globals p) else Some p)"
| "prog_step Capture p = capture_step p"
| "prog_step (Key env c) p = in_globals (loop_key env c) p"
| "prog_step (Request env) p = in_globals (msgarrvd env) p"
| "prog_step Confirmed p = in_globals (Some \<circ> confirm) p"

subsection \<open>Shutting down\<close>

text \<open>The handler of \<open>SIGINT\<close>, and where \<open>main\<close> waits: with \<open>timed_output\<close> in a loop of one-second
  sleeps, during each of which a signal may arrive, else in the input loop. An inner \<open>None\<close> is a program
  still waiting.\<close>

definition finish :: "int \<Rightarrow> int \<Rightarrow> int" where
  "finish sig foad = sig"

fun sleep_loop :: "int option list \<Rightarrow> int \<Rightarrow> int option" where
  "sleep_loop sigs foad =
     (if foad \<noteq> 0 then Some foad
      else case sigs of [] \<Rightarrow> None
        | s # ss \<Rightarrow> sleep_loop ss (case s of Some sig \<Rightarrow> finish sig foad | None \<Rightarrow> foad))"

declare sleep_loop.simps [simp del]

definition main_wait :: "int option list \<Rightarrow> (env \<times> char \<times> bool) list \<Rightarrow> iftop \<Rightarrow> iftop option option" where
  "main_wait sigs keys w =
     (if timed_output (options w) \<noteq> 0 then Some (map_option (\<lambda>_. w) (sleep_loop sigs 0))
      else map_option Some (ui_loop keys w))"

lemma sleep_loop_signal: "sig \<noteq> 0 \<Longrightarrow> sleep_loop (replicate n None @ Some sig # rest) 0 = Some sig"
proof (induction n)
  case 0
  then show ?case by (subst sleep_loop.simps) (simp add: finish_def, subst sleep_loop.simps, simp)
next
  case (Suc n)
  then show ?case by (subst sleep_loop.simps) simp
qed

text \<open>The end of \<open>main\<close>, once the input loop has returned: the capture thread is told to stop but not
  waited for, the client waits for the last message (\<open>cbs\<close> are the confirmations that arrive
  meanwhile), and the table is freed. The inner \<open>None\<close> is a program still waiting.\<close>

definition main_exit :: "int option list \<Rightarrow> program \<Rightarrow> program option option" where
  "main_exit cbs p = do {
     r \<leftarrow> destory_wait cbs (mqtt_client (globals p));
     Some (map_option (\<lambda>m. p\<lparr>globals := (globals p)\<lparr>mqtt_client := m,
        history := (history (globals p))\<lparr>htab := hash_destroy (htab (history (globals p)))\<rparr>\<rparr>\<rparr>) r)
   }"

subsection \<open>The three steps make one packet\<close>

lemma lookup_update:
  "Option.bind (packet_lookup env iptr ap dir w) (\<lambda>p. map_option globals (capture_step p)) =
     Option.bind (ip_len iptr) (\<lambda>l. Option.bind (ip_src iptr) (\<lambda>s.
       Option.bind (account_packet (e_time env) (e_create_time env) ap (s = src ap) (ntohs l) (history w)) (\<lambda>hs.
         Some (w\<lparr>history := hs, history_totals := add_totals dir (ntohs l) (history_totals w)\<rparr>))))"
proof (cases "find_or_create (e_create_time env) ap (history w)")
  case None
  then show ?thesis by (cases "ip_len iptr"; cases "ip_src iptr") (simp_all add: packet_lookup_def account_packet_def)
next
  case (Some r)
  obtain ht hs where r: "r = (ht, hs)" by (cases r)
  have U: "map_option globals (packet_update env iptr ap dir ht (w\<lparr>history := hs\<rparr>)) =
      Option.bind (ip_len iptr) (\<lambda>l. Option.bind (ip_src iptr) (\<lambda>s. Option.bind (hread (hrecs hs) ht) (\<lambda>d.
        Option.bind (hwrite (hrecs hs) ht (count_packet (e_time env) (s = src ap) (ntohs l) d)) (\<lambda>recs.
          Some (w\<lparr>history := hs\<lparr>hrecs := recs\<rparr>, history_totals := add_totals dir (ntohs l) (history_totals w)\<rparr>)))))"
    by (cases "ip_len iptr"; cases "ip_src iptr"; cases "hread (hrecs hs) ht")
      (simp_all add: packet_update_def Let_def hwrite_def)
  show ?thesis
    by (cases "ip_len iptr"; cases "ip_src iptr"; cases "hread (hrecs hs) ht")
      (simp_all add: Some r packet_lookup_def capture_step_def account_packet_def U hwrite_def)
qed

lemma packet_steps:
  "handle_ip_packet env iptr hw_dir w =
     Option.bind (packet_begin env iptr hw_dir w) (\<lambda>p. Option.bind (capture_step p) (\<lambda>p.
       map_option globals (capture_step p)))"
proof (cases "tick env 0 (e_time env) w")
  case (Some w1)
  note T = this
  show ?thesis
  proof (cases "packet_key (options w1) (ifhost w1) (port_list w1) (e_i env) iptr hw_dir")
    case (Some r)
    show ?thesis
    proof (cases r)
      case None
      with T Some show ?thesis by (simp add: handle_ip_packet_def packet_begin_def capture_step_def)
    next
      case (Some kd)
      with T \<open>packet_key _ _ _ _ _ _ = Some r\<close> show ?thesis
        by (cases kd) (simp add: handle_ip_packet_def packet_begin_def capture_step_def [of "\<lparr>globals = _, pc = _\<rparr>"]
            lookup_update Let_def)
    qed
  qed (simp add: T handle_ip_packet_def packet_begin_def)
qed (simp add: handle_ip_packet_def packet_begin_def)

subsection \<open>The invariant of a run\<close>

text \<open>What the outside may do in a state. A tick of another thread is excluded while the capture thread
  holds a pointer to a record; the property on the race below is about that tick.\<close>

definition other_tick_ok :: "abi \<Rightarrow> env \<Rightarrow> program \<Rightarrow> bool" where
  "other_tick_ok abi env p \<longleftrightarrow> e_abi env = abi \<and> env_ok env \<and>
     (case pc p of Holding _ _ _ _ _ \<Rightarrow> False | _ \<Rightarrow> True)"

fun enabled :: "abi \<Rightarrow> prog_event \<Rightarrow> program \<Rightarrow> bool" where
  "enabled abi (Packet env iptr dir) p \<longleftrightarrow> e_abi env = abi \<and> env_ok env \<and> e_i env = 0 \<and> decode_ip iptr \<noteq> None"
| "enabled abi Capture p \<longleftrightarrow> True"
| "enabled abi (Key env c) p \<longleftrightarrow> other_tick_ok abi env p"
| "enabled abi (Request env) p \<longleftrightarrow> other_tick_ok abi env p"
| "enabled abi Confirmed p \<longleftrightarrow> True"

inductive reachable :: "abi \<Rightarrow> program \<Rightarrow> program \<Rightarrow> bool"
  for abi p0 where
  begin_run: "reachable abi p0 p0"
| step_run: "reachable abi p0 p \<Longrightarrow> enabled abi e p \<Longrightarrow> prog_step e p = Some p' \<Longrightarrow>
    reachable abi p0 p'"

definition pc_ok :: "hist \<Rightarrow> capture_pc \<Rightarrow> bool" where
  "pc_ok hs c \<longleftrightarrow> (case c of
      Waiting \<Rightarrow> True
    | Keyed env iptr ap dir \<Rightarrow> decode_ip iptr \<noteq> None
    | Holding env iptr ap dir ht \<Rightarrow> decode_ip iptr \<noteq> None \<and>
        (\<exists>Cs a. hist_inv hs Cs \<and> a \<in> set (concat Cs) \<and> key_at (hnodes hs) a = ap \<and> ht = rec_at (hnodes hs) a))"

definition prog_ok :: "abi \<Rightarrow> options_t \<Rightarrow> int list \<Rightarrow> program \<Rightarrow> bool" where
  "prog_ok abi os pl p \<longleftrightarrow> iftop_ok abi (globals p) None \<and>
     (\<exists>t. options (globals p) = os\<lparr>send_last := t\<rparr>) \<and> port_list (globals p) = pl \<and> lists_ok os pl 0 \<and>
     pc_ok (history (globals p)) (pc p)"

lemma iftop_ok_None: "iftop_ok abi w f \<Longrightarrow> iftop_ok abi w None"
  by (simp add: iftop_ok_def mach_inv_def Let_def)

lemma pc_ok_simps [simp]:
  "pc_ok hs Waiting"
  "pc_ok hs (Keyed env iptr ap dir) \<longleftrightarrow> decode_ip iptr \<noteq> None"
  "pc_ok hs (Holding env iptr ap dir ht) \<longleftrightarrow> decode_ip iptr \<noteq> None \<and>
     (\<exists>Cs a. hist_inv hs Cs \<and> a \<in> set (concat Cs) \<and> key_at (hnodes hs) a = ap \<and> ht = rec_at (hnodes hs) a)"
  by (simp_all add: pc_ok_def)

text \<open>A tick, on whatever thread.\<close>

lemma tick_prog:
  assumes "iftop_ok abi w None" and "\<exists>t. options w = os\<lparr>send_last := t\<rparr>" and "port_list w = pl"
    and "e_abi env = abi" and "env_ok env"
  shows "\<exists>w'. tick env send t w = Some w' \<and> iftop_ok abi w' None \<and>
     (\<exists>t. options w' = os\<lparr>send_last := t\<rparr>) \<and> port_list w' = pl"
proof -
  obtain w' f' where T: "tick env send t w = Some w'" "iftop_ok abi w' f'" "same_setup w w'"
    using tick_ok [of env w None send t] assms(1,4,5) by auto
  then show ?thesis using assms(2,3) iftop_ok_None [OF T(2)] by (auto simp: same_setup_def)
qed

lemma other_tick:
  assumes "prog_ok abi os pl p" and "other_tick_ok abi env p"
  shows "\<exists>p'. in_globals (tick env send t) p = Some p' \<and> prog_ok abi os pl p'"
proof -
  obtain w' where "tick env send t (globals p) = Some w'" "iftop_ok abi w' None"
      "\<exists>t. options w' = os\<lparr>send_last := t\<rparr>" "port_list w' = pl"
    using tick_prog [of abi "globals p" os pl env send t] assms by (auto simp: prog_ok_def other_tick_ok_def)
  with assms show ?thesis
    by (auto simp: in_globals_def prog_ok_def other_tick_ok_def split: capture_pc.splits)
qed

lemma begin_prog:
  assumes "prog_ok abi os pl p" and "enabled abi (Packet env iptr dir) p"
  shows "\<exists>p'. packet_begin env iptr dir (globals p) = Some p' \<and> prog_ok abi os pl p'"
proof -
  have pre: "e_abi env = abi" "env_ok env" "lists_ok os pl (e_i env)" "decode_ip iptr \<noteq> None"
    using assms by (auto simp: prog_ok_def)
  then obtain h where h: "decode_ip iptr = Some h" by blast
  obtain w t where W: "tick env 0 (e_time env) (globals p) = Some w" "iftop_ok abi w None"
      "options w = os\<lparr>send_last := t\<rparr>" "port_list w = pl"
    using tick_prog [of abi "globals p" os pl env 0 "e_time env"] assms(1) pre(1,2) unfolding prog_ok_def by blast
  have "packet_key (options w) (ifhost w) (port_list w) (e_i env) iptr dir =
      Some (packet_conn env w h dir)"
    using packet_key_spec [OF _ h, of "options w" "port_list w" "e_i env"] pre(3) W(3,4)
    by (simp add: packet_conn_def)
  moreover have "lists_ok os pl 0" using assms(1) by (simp add: prog_ok_def)
  ultimately show ?thesis using W pre(4)
    by (cases "packet_conn env w h dir") (auto simp: packet_begin_def prog_ok_def)
qed

lemma lookup_prog:
  assumes "prog_ok abi os pl p" and "pc p = Keyed env iptr ap dir"
  shows "\<exists>p'. capture_step p = Some p' \<and> prog_ok abi os pl p'"
proof -
  let ?w = "globals p"
  obtain Cs where I: "hist_inv (history ?w) Cs" using assms(1) by (auto simp: prog_ok_def iftop_ok_def hist_ok_def)
  have "\<exists>hs Cs' a. find_or_create (e_create_time env) ap (history ?w) = Some (rec_at (hnodes hs) a, hs) \<and>
      hist_inv hs Cs' \<and> a \<in> set (concat Cs') \<and> key_at (hnodes hs) a = ap"
  proof (cases "hist_map (history ?w) ap")
    case None
    from find_or_create_new [OF I this, of "e_create_time env"] show ?thesis by blast
  next
    case (Some d)
    from find_or_create_old [OF I, of ap "e_create_time env"] Some I show ?thesis by (metis option.discI)
  qed
  then obtain hs Cs' a where F: "find_or_create (e_create_time env) ap (history ?w) = Some (rec_at (hnodes hs) a, hs)"
      "hist_inv hs Cs'" "a \<in> set (concat Cs')" "key_at (hnodes hs) a = ap" by blast
  let ?p = "\<lparr>globals = ?w\<lparr>history := hs\<rparr>, pc = Holding env iptr ap dir (rec_at (hnodes hs) a)\<rparr>"
  have "pc_ok hs (pc ?p)" using assms F(2-4) by (auto simp: prog_ok_def simp del: set_concat)
  moreover have "iftop_ok abi (globals ?p) None" using assms(1) F(2) by (auto simp: prog_ok_def iftop_ok_def hist_ok_def)
  ultimately have "prog_ok abi os pl ?p" using assms(1) by (simp add: prog_ok_def)
  with F(1) assms(2) show ?thesis by (simp add: capture_step_def packet_lookup_def)
qed

lemma update_prog:
  assumes "prog_ok abi os pl p" and "pc p = Holding env iptr ap dir ht"
  shows "\<exists>p'. capture_step p = Some p' \<and> prog_ok abi os pl p'"
proof -
  let ?w = "globals p"
  obtain Cs a h where I: "hist_inv (history ?w) Cs" "a \<in> set (concat Cs)" "ht = rec_at (hnodes (history ?w)) a"
      and h: "decode_ip iptr = Some h"
    using assms by (auto simp: prog_ok_def simp del: set_concat)
  obtain l where l: "ip_len iptr = Some l" using decode_length [OF h] by blast
  obtain d recs where D: "hread (hrecs (history ?w)) ht = Some d"
      "hwrite (hrecs (history ?w)) ht (count_packet (e_time env) (h_src h = src ap) (ntohs l) d) = Some recs"
      "hist_inv ((history ?w)\<lparr>hrecs := recs\<rparr>) Cs"
    using hist_write [OF I(1,2), of "count_packet (e_time env) (h_src h = src ap) (ntohs l)
        (the (hread (hrecs (history ?w)) ht))"] I(3) by auto
  with l decode_fields(2) [OF h] assms show ?thesis
    by (auto simp: capture_step_def packet_update_def prog_ok_def iftop_ok_def hist_ok_def Let_def)
qed

lemma confirm_prog: "prog_ok abi os pl p \<Longrightarrow> prog_ok abi os pl (p\<lparr>globals := confirm (globals p)\<rparr>)"
  by (simp add: prog_ok_def iftop_ok_def confirm_def delivered_def mach_inv_def Let_def)

lemma step_prog:
  assumes "prog_ok abi os pl p" and "enabled abi e p"
  shows "\<exists>p'. prog_step e p = Some p' \<and> prog_ok abi os pl p'"
proof (cases e)
  case (Packet env iptr dir)
  then show ?thesis using assms begin_prog [OF assms(1)] by auto
next
  case Capture
  then show ?thesis using assms lookup_prog update_prog by (cases "pc p") (auto simp: capture_step_def)
next
  case (Key env c)
  have [simp]: "loop_key env CHR ''u'' = tick env 0 (e_time env)" by (simp add: fun_eq_iff loop_key_def)
  show ?thesis
    using assms other_tick [OF assms(1), of env 0 "e_time env"] Key
    by (cases "c = CHR ''u''") (auto simp: in_globals_def loop_key_def)
next
  case (Request env)
  have [simp]: "msgarrvd env = tick env 1 (e_time env)" by (simp add: fun_eq_iff msgarrvd_def)
  show ?thesis using assms other_tick [OF assms(1), of env 1 "e_time env"] Request by simp
next
  case Confirmed
  then show ?thesis using confirm_prog [OF assms(1)] by (simp add: in_globals_def)
qed

lemma reachable_ok:
  "reachable abi p0 p \<Longrightarrow> prog_ok abi os pl p0 \<Longrightarrow> prog_ok abi os pl p"
proof (induction rule: reachable.induct)
  case begin_run
  then show ?case .
next
  case (step_run p e p')
  then show ?case using step_prog [of abi os pl p e] by auto
qed

lemma begin_not_holding:
  assumes "packet_begin env iptr dir w = Some p" and "e_abi env' = abi" and "env_ok env'"
  shows "other_tick_ok abi env' p"
proof -
  obtain w1 r where "p = \<lparr>globals = w1, pc = (case r of None \<Rightarrow> Waiting | Some (ap, direction) \<Rightarrow> Keyed env iptr ap direction)\<rparr>"
    using assms(1) unfolding packet_begin_def bind_eq_Some_conv by blast
  with assms(2,3) show ?thesis by (auto simp: other_tick_ok_def split: option.split)
qed

lemma start_prog:
  assumes "configure lb junk inet_aton inet_pton6 up nameindex home now file args_file argv = Ok s"
    and "short_block_lists lb (command_options args_file argv)" and "init_MQTT abi dev ok mqtt_now mqtt_initial = Some m"
  shows "prog_ok abi (Options.opts s) (Options.ports s)
    \<lparr>globals = start now' (Options.opts s) (Options.ports s) hst m, pc = Waiting\<rparr>"
proof -
  have C: "arrays_ok s" "block_protocols (Options.opts s) ! 31 = -1" using configure_state [OF assms(1)] assms(2) by auto
  then have "-1 \<in> set (block_protocols (Options.opts s))"
    using nth_mem [of 31 "block_protocols (Options.opts s)"] by (simp add: arrays_ok_def)
  then have "lists_ok (Options.opts s) (Options.ports s) 0" using C(1) by (simp add: lists_ok_def arrays_ok_def)
  moreover have "iftop_ok abi (start now' os pl hst m) None" for os pl
    using init_mach_inv [OF assms(3)] init_history_ok [of now'] by (simp add: start_def init_history_def iftop_ok_def)
  ultimately show ?thesis
    using options_send_last_id [of "Options.opts s"] pc_ok_simps(1) unfolding prog_ok_def program.simps start_fields
    by blast
qed

lemma boot_prog:
  assumes "boot e argv = Ok (dlt, w)" and "short_block_lists (long_bits (o_abi e)) (command_options (o_args_file e) argv)"
  shows "prog_ok (o_abi e) (options w) (port_list w) \<lparr>globals = w, pc = Waiting\<rparr>"
proof -
  obtain s m where s: "configure_here e argv = Ok s"
      "init_MQTT (o_abi e) (o_device e) (o_connect e) (o_mqtt_time e) mqtt_initial = Some m"
      "w = start (o_history_time e) (Options.opts s) (Options.ports s) (ifhost w) m"
    by (rule boot_Ok [OF assms(1)])
  have o: "options w = Options.opts s" "port_list w = Options.ports s" by (subst s(3), simp)+
  show ?thesis unfolding o
    by (rule start_prog [OF s(1) [unfolded configure_here_def] assms(2) s(2), of "o_history_time e" "ifhost w",
          folded s(3)])
qed

subsection \<open>The races\<close>

lemma bind_check: "Option.bind m (\<lambda>x. Some (f x)) = map_option f m"
  by (cases m) auto

lemma request_rotates:
  assumes "msgarrvd env w = Some w'"
  shows "\<exists>sz. history_rotate (options w) (e_stale env) (e_time env) (history w) = Some (history w', sz)"
  using assms by (auto simp: msgarrvd_def tick_def tick_build_def Let_def opt_simps split: if_splits)

lemma holding_node:
  assumes I: "hist_inv hs Cs" and F: "find_or_create now ap hs = Some (ht, hs')"
  shows "\<exists>Cs' a. hist_inv hs' Cs' \<and> a \<in> set (concat Cs') \<and> ht = rec_at (hnodes hs') a \<and>
     snd (conn_at hs' a) = (case hist_map hs ap of Some d \<Rightarrow> d | None \<Rightarrow> history_empty\<lparr>create_time := now\<rparr>)"
proof -
  have at: "snd (conn_at h a) = d" if "hist_inv h C" "a \<in> set (concat C)" "hist_map h (key_at (hnodes h) a) = Some d" for h C a d
  proof -
    have "map_of (map (\<lambda>a. (key_at (hnodes h) a, snd (conn_at h a))) (concat C)) (key_at (hnodes h) a) = Some (snd (conn_at h a))"
      by (rule map_of_nodes [OF hist_keys_distinct [OF that(1)] that(2)])
    moreover have "(\<lambda>a. (key_at (hnodes h) a, snd (conn_at h a))) = conn_at h" by (auto simp: conn_at_def)
    ultimately show ?thesis using that(3) hist_map_inv [OF that(1)] by simp
  qed
  show ?thesis
  proof (cases "hist_map hs ap")
    case None
    from find_or_create_new [OF I None, of now] obtain C' a where N: "hist_inv hs' C'" "a \<in> set (concat C')"
        "ht = rec_at (hnodes hs') a" "key_at (hnodes hs') a = ap"
        "hist_map hs' = (hist_map hs)(ap \<mapsto> history_empty\<lparr>create_time := now\<rparr>)" using F by auto
    with at [OF N(1,2), of "history_empty\<lparr>create_time := now\<rparr>"] None show ?thesis by auto
  next
    case (Some d)
    from find_or_create_old [OF I, of ap now] Some obtain a where "a \<in> set (concat Cs)" "key_at (hnodes hs) a = ap"
        "find_or_create now ap hs = Some (rec_at (hnodes hs) a, hs)" by blast
    with at [OF I, of a d] Some F I show ?thesis by auto
  qed
qed

text \<open>\<open>check_status\<close> runs after the mutex is released. Two threads may both see that the token was
  delivered before one of them clears it; the second then frees the buffers again.\<close>

definition status_test :: "mqtt \<Rightarrow> bool" where
  "status_test m \<longleftrightarrow> deliveredtoken m = token m"

definition status_complete :: "mqtt \<Rightarrow> mqtt option" where
  "status_complete m = map_option (\<lambda>m'. m'\<lparr>status := MQTT_STATUS_COMPLETE\<rparr>) (free_buffers (m\<lparr>deliveredtoken := 0\<rparr>))"

lemma check_status_steps: "check_status m = (if status_test m then status_complete m else Some m)"
  by (cases "free_buffers (m\<lparr>deliveredtoken := 0\<rparr>)") (simp_all add: check_status_def status_test_def status_complete_def)

lemma status_race:
  assumes "status_complete m = Some m'" and "data_p m \<noteq> None"
  shows "status_complete m' = None"
  using assms by (auto simp: status_complete_def free_buffers_def xfree_def hfree_def opt_simps split: if_splits option.splits)

text \<open>The table is freed while the capture thread may still be handling a packet.\<close>

lemma exit_race:
  assumes "main_exit cbs p = Some (Some p')" and "pc p = Keyed env iptr ap dir"
  shows "prog_step Capture p' = None"
  using assms by (auto simp: main_exit_def capture_step_def packet_lookup_def find_or_create_def hash_find_def
      hash_destroy_def table_get_def opt_simps)

subsection \<open>Properties\<close>



text \<open>C23. The race that the property above excludes. The mutex protects a tick, not the accounting of a
  packet: if a data request of the broker arrives after the capture thread has found (or created) the
  record of a connection that the rotation deletes, the record is freed and the capture thread then
  updates it through a dangling pointer. Every state with such a connection has this schedule.\<close>

theorem accounting_race:
  assumes "prog_ok abi os pl p" and "pc p = Keyed env iptr ap dir"
    and "d = (case hist_map (history (globals p)) ap of Some d \<Rightarrow> d
          | None \<Rightarrow> history_empty\<lparr>create_time := e_create_time env\<rparr>)"
    and "rotate_conn (options (globals p)) (e_time env') d = None" and "e_abi env' = abi" and "env_ok env'"
  shows "\<exists>p1 p2. prog_step Capture p = Some p1 \<and> prog_step (Request env') p1 = Some p2 \<and>
     prog_step Capture p2 = None"
proof -
  let ?w = "globals p"
  obtain p1 where p1: "capture_step p = Some p1" "prog_ok abi os pl p1" using lookup_prog [OF assms(1,2)] by blast
  then obtain ht hs where F: "find_or_create (e_create_time env) ap (history ?w) = Some (ht, hs)"
      "p1 = \<lparr>globals = ?w\<lparr>history := hs\<rparr>, pc = Holding env iptr ap dir ht\<rparr>"
    using assms(2) by (auto simp: capture_step_def packet_lookup_def opt_simps)
  obtain Cs where "hist_inv (history ?w) Cs" using assms(1) by (auto simp: prog_ok_def iftop_ok_def hist_ok_def)
  from holding_node [OF this F(1)] assms(3) obtain Cs' a where N: "hist_inv hs Cs'" "a \<in> set (concat Cs')"
      "ht = rec_at (hnodes hs) a" "snd (conn_at hs a) = d" by auto
  have "\<exists>t. options (globals p1) = os\<lparr>send_last := t\<rparr>" "iftop_ok abi (globals p1) None" "port_list (globals p1) = pl"
    using p1(2) unfolding prog_ok_def by blast+
  from tick_prog [OF this(2,1,3) assms(5,6), of 1 "e_time env'"]
  obtain w2 where w2: "msgarrvd env' (globals p1) = Some w2" by (auto simp: msgarrvd_def)
  obtain sz where "history_rotate (options ?w) (e_stale env') (e_time env') hs = Some (history w2, sz)"
    using request_rotates [OF w2] F(2) by auto
  from rotate_frees [OF N(1,2) _ this] N(3,4) assms(4) have "cells (hrecs (history w2)) ht = None" by simp
  then have "prog_step Capture (p1\<lparr>globals := w2\<rparr>) = None"
    by (simp add: F(2) capture_step_def packet_update_def Let_def hread_def opt_simps)
  with p1(1) w2 show ?thesis by (simp add: in_globals_def)
qed

theorem accounting_race_witness:
  "\<exists>p1 p2. prog_step Capture \<lparr>globals = sample_start, pc = Keyed (sample_env\<lparr>e_create_time := 5\<rparr>) udp_packet sample_key 0\<rparr> = Some p1 \<and>
     prog_step (Request (sample_env\<lparr>e_time := 500\<rparr>)) p1 = Some p2 \<and> prog_step Capture p2 = None"
proof (rule accounting_race [OF _ _ refl])
  let ?env = "sample_env\<lparr>e_create_time := 5\<rparr>"
  let ?p = "\<lparr>globals = sample_start, pc = Keyed ?env udp_packet sample_key 0\<rparr>"
  have o: "options sample_start = udp_net_options" "port_list sample_start = udp_ports"
    by (simp_all add: sample_start_def start_def init_history_def)
  have i: "iftop_ok ilp32 sample_start None" using sample_ok(1) by (simp add: sample_env_def)
  have t: "\<exists>t. options sample_start = udp_net_options\<lparr>send_last := t\<rparr>"
    unfolding o by (rule options_send_last_id)
  have d: "decode_ip udp_packet \<noteq> None" unfolding decode_udp_packet by (rule option.distinct(2))
  show "prog_ok ilp32 udp_net_options udp_ports ?p"
    unfolding prog_ok_def program.simps pc_ok_simps using i t o(2) udp_lists_ok(2) d by blast
  show "pc ?p = Keyed ?env udp_packet sample_key 0" by simp
  show "rotate_conn (options (globals ?p)) (e_time (sample_env\<lparr>e_time := 500\<rparr>))
      (case hist_map (history (globals ?p)) sample_key of Some d \<Rightarrow> d
       | None \<Rightarrow> history_empty\<lparr>create_time := e_create_time ?env\<rparr>) = None"
    using sample_empty by (simp add: rotate_conn_def history_empty_def o is_short_connection_def CHECK_AFTER_N_SECS_def
        udp_net_options_def udp_options_def options_initial_def)
  show "e_abi (sample_env\<lparr>e_time := 500\<rparr>) = ilp32" "env_ok (sample_env\<lparr>e_time := 500\<rparr>)"
    by (simp_all add: env_ok_def sample_env_def ilp32_def)
qed

end
