(* ===== verification/Monitor.thy ===== *)
theory Monitor
  imports Program
begin

text \<open>
  What the program promises as a whole, stated without tables, pointers, buffers and broker: a finite map
  from connections to their counts, the time of the last rotation and the overall totals. The events of
  \<open>Program\<close> act on this specification as functions; every run of the threads refines it, and
  what a data request publishes is what the specification holds, as the receiver unpacks it.
\<close>

subsection \<open>The specification\<close>

text \<open>What the capture thread is about to do: nothing, look up (or create) the connection, or count
  the packet.\<close>

datatype task =
    Ready
  | Find env "byte list" addr_pair int
  | Count env "byte list" addr_pair int

record monitor =
  conns :: "addr_pair \<rightharpoonup> history_type"
  rotated :: time_t
  totals :: history_type
  task :: task

definition mon_tick :: "options_t \<Rightarrow> int \<Rightarrow> time_t \<Rightarrow> monitor \<Rightarrow> monitor" where
  "mon_tick os send t s =
     (if send \<noteq> 0 \<or> t - rotated s \<ge> RESOLUTION
      then s\<lparr>conns := (\<lambda>k. Option.bind (conns s k) (rotate_conn os t)), rotated := t\<rparr> else s)"

definition fresh_conn :: "env \<Rightarrow> history_type" where
  "fresh_conn env = history_empty\<lparr>create_time := e_create_time env\<rparr>"

definition mon_count :: "env \<Rightarrow> byte list \<Rightarrow> addr_pair \<Rightarrow> int \<Rightarrow> monitor \<Rightarrow> monitor" where
  "mon_count env iptr k dir s =
     s\<lparr>conns := (conns s)(k \<mapsto> count_packet (e_time env) (ip_src iptr = Some (src k)) (total_length iptr)
         (the (conns s k))),
       totals := add_totals dir (total_length iptr) (totals s), task := Ready\<rparr>"

fun mon_step :: "options_t \<Rightarrow> host \<Rightarrow> int list \<Rightarrow> prog_event \<Rightarrow> monitor \<Rightarrow> monitor" where
  "mon_step os hst pl (Packet env iptr dir) s =
     (if task s = Ready then
        (let s = mon_tick os 0 (e_time env) s
         in case event_conn os hst pl (env, iptr, dir) of
              None \<Rightarrow> s | Some (k, d) \<Rightarrow> s\<lparr>task := Find env iptr k d\<rparr>)
      else s)"
| "mon_step os hst pl Capture s =
     (case task s of
        Ready \<Rightarrow> s
      | Find env iptr k dir \<Rightarrow>
          s\<lparr>conns := (conns s)(k \<mapsto> (case conns s k of Some d \<Rightarrow> d | None \<Rightarrow> fresh_conn env)),
            task := Count env iptr k dir\<rparr>
      | Count env iptr k dir \<Rightarrow> mon_count env iptr k dir s)"
| "mon_step os hst pl (Key env c) s = (if c = CHR ''u'' then mon_tick os 0 (e_time env) s else s)"
| "mon_step os hst pl (Request env) s = mon_tick os 1 (e_time env) s"
| "mon_step os hst pl Confirmed s = s"

text \<open>Which events may occur: packets whose headers were captured, and no tick of another thread
  between the lookup of a record and its update.\<close>

definition mon_enabled :: "abi \<Rightarrow> prog_event \<Rightarrow> monitor \<Rightarrow> bool" where
  "mon_enabled abi e s \<longleftrightarrow> (case e of
      Packet env iptr dir \<Rightarrow> e_abi env = abi \<and> env_ok env \<and> e_i env = 0 \<and> decode_ip iptr \<noteq> None
    | Key env c \<Rightarrow> e_abi env = abi \<and> env_ok env \<and> (case task s of Count _ _ _ _ \<Rightarrow> False | _ \<Rightarrow> True)
    | Request env \<Rightarrow> e_abi env = abi \<and> env_ok env \<and> (case task s of Count _ _ _ _ \<Rightarrow> False | _ \<Rightarrow> True)
    | _ \<Rightarrow> True)"

abbreviation mon_allowed :: "abi \<Rightarrow> options_t \<Rightarrow> host \<Rightarrow> int list \<Rightarrow> prog_event list \<Rightarrow> monitor \<Rightarrow> bool" where
  "mon_allowed abi os hst pl \<equiv> spec_allows (mon_enabled abi) (mon_step os hst pl)"

definition mon_start :: "time_t \<Rightarrow> monitor" where
  "mon_start now = \<lparr>conns = Map.empty, rotated = now, totals = history_empty, task = Ready\<rparr>"

subsection \<open>The view of a program state\<close>

definition task_of :: "capture_pc \<Rightarrow> task" where
  "task_of c = (case c of Waiting \<Rightarrow> Ready | Keyed env iptr k dir \<Rightarrow> Find env iptr k dir
     | Holding env iptr k dir ht \<Rightarrow> Count env iptr k dir)"

lemma task_of_simps [simp]:
  "task_of Waiting = Ready" "task_of (Keyed env iptr k dir) = Find env iptr k dir"
  "task_of (Holding env iptr k dir ht) = Count env iptr k dir"
  by (simp_all add: task_of_def)

definition mon_of :: "program \<Rightarrow> monitor" where
  "mon_of p = \<lparr>conns = hist_map (history (globals p)), rotated = last_timestamp (globals p),
     totals = history_totals (globals p), task = task_of (pc p)\<rparr>"

lemma task_Ready [simp]: "task_of c = Ready \<longleftrightarrow> c = Waiting"
  by (cases c) simp_all

lemma mon_enabled_view: "mon_enabled abi e (mon_of p) \<longleftrightarrow> enabled abi e p"
  by (cases e; cases "pc p") (simp_all add: mon_enabled_def mon_of_def other_tick_ok_def)

abbreviation prog_run :: "prog_event list \<Rightarrow> program \<Rightarrow> program option" where
  "prog_run \<equiv> run_events prog_step"

lemma mon_of_start:
  "mon_of \<lparr>globals = start now os pl hst m, pc = Waiting\<rparr> = mon_start now"
  using init_history_map [of now] by (simp add: mon_of_def mon_start_def start_def init_history_def)

subsection \<open>Every step refines the specification\<close>

lemma rotate_conn_send_last [simp]: "rotate_conn (os\<lparr>send_last := t\<rparr>) = rotate_conn os"
  by (intro ext) (simp add: rotate_conn_def is_short_connection_def is_low_traffic_connection_def satisfies_criteria_def)

lemma tick_last:
  "tick env send t w = Some w' \<Longrightarrow>
   last_timestamp w' = (if send \<noteq> 0 \<or> t - last_timestamp w \<ge> RESOLUTION then t else last_timestamp w)"
  by (auto simp: tick_def opt_simps split: if_splits)

lemma tick_mon:
  assumes "prog_ok abi os pl p" and "e_abi env = abi" and "env_ok env"
  shows "\<exists>w. tick env send t (globals p) = Some w \<and> ifhost w = ifhost (globals p) \<and>
     mon_of (p\<lparr>globals := w\<rparr>) = mon_tick os send t (mon_of p)"
proof -
  let ?w = "globals p"
  obtain t0 where o: "options ?w = os\<lparr>send_last := t0\<rparr>" using assms(1) by (auto simp: prog_ok_def)
  obtain w where T: "tick env send t ?w = Some w" "hist_map (history w) = tick_map ?w send t" "same_setup ?w w"
    using tick_ok [of env ?w None send t] assms by (auto simp: prog_ok_def)
  with tick_last [OF T(1)] show ?thesis
    by (auto simp: same_setup_def mon_of_def mon_tick_def tick_map_def o)
qed

lemma begin_mon:
  assumes "prog_ok abi os pl p" and "enabled abi (Packet env iptr dir) p" and "pc p = Waiting"
  shows "\<exists>p'. packet_begin env iptr dir (globals p) = Some p' \<and> ifhost (globals p') = ifhost (globals p) \<and>
     mon_of p' = mon_step os (ifhost (globals p)) pl (Packet env iptr dir) (mon_of p)"
proof -
  have pre: "e_abi env = abi" "env_ok env" "lists_ok os pl (e_i env)" "decode_ip iptr \<noteq> None"
    using assms by (auto simp: prog_ok_def)
  then obtain h where h: "decode_ip iptr = Some h" by blast
  obtain w where W: "tick env 0 (e_time env) (globals p) = Some w" "ifhost w = ifhost (globals p)"
      "mon_of (p\<lparr>globals := w\<rparr>) = mon_tick os 0 (e_time env) (mon_of p)"
    using tick_mon [OF assms(1) pre(1,2)] by blast
  obtain w' t where W': "tick env 0 (e_time env) (globals p) = Some w'" "options w' = os\<lparr>send_last := t\<rparr>"
      "port_list w' = pl"
    using tick_prog [of abi "globals p" os pl env 0 "e_time env"] assms(1) pre(1,2) unfolding prog_ok_def by blast
  have o: "options w = os\<lparr>send_last := t\<rparr>" "port_list w = pl" using W(1) W' by simp_all
  have "packet_key (options w) (ifhost w) (port_list w) (e_i env) iptr dir = Some (packet_conn env w h dir)"
    using packet_key_spec [OF _ h, of "options w" "port_list w" "e_i env"] pre(3) o by (simp add: packet_conn_def)
  moreover have "event_conn os (ifhost (globals p)) pl (env, iptr, dir) = packet_conn env w h dir"
    using o W(2) by (simp add: event_conn_def packet_conn_def h)
  moreover have "task (mon_of p) = Ready" using assms(3) by (simp add: mon_of_def)
  moreover have "mon_of \<lparr>globals = w, pc = c\<rparr> = (mon_tick os 0 (e_time env) (mon_of p))\<lparr>task := task_of c\<rparr>" for c
    by (simp flip: W(3)) (simp add: mon_of_def)
  moreover have "(mon_tick os 0 t (mon_of p))\<lparr>task := Ready\<rparr> = mon_tick os 0 t (mon_of p)" for t
    using assms(3) by (simp add: mon_tick_def mon_of_def)
  ultimately show ?thesis
    using W(1,2) by (cases "packet_conn env w h dir") (auto simp: packet_begin_def)
qed

lemma lookup_mon:
  assumes "prog_ok abi os pl p" and "pc p = Keyed env iptr k dir"
  shows "\<exists>p'. capture_step p = Some p' \<and> ifhost (globals p') = ifhost (globals p) \<and>
     mon_of p' = mon_step os hst pl Capture (mon_of p)"
proof -
  let ?w = "globals p"
  obtain Cs where I: "hist_inv (history ?w) Cs" using assms(1) by (auto simp: prog_ok_def iftop_ok_def hist_ok_def)
  have "\<exists>ht hs. find_or_create (e_create_time env) k (history ?w) = Some (ht, hs) \<and>
      hist_map hs = (hist_map (history ?w))(k \<mapsto> (case hist_map (history ?w) k of Some d \<Rightarrow> d | None \<Rightarrow> fresh_conn env))"
  proof (cases "hist_map (history ?w) k")
    case None
    with find_or_create_new [OF I None, of "e_create_time env"] show ?thesis by (auto simp: fresh_conn_def)
  next
    case (Some d)
    with find_or_create_old [OF I, of k "e_create_time env"] show ?thesis by (metis fun_upd_triv option.discI option.simps(5))
  qed
  with assms(2) show ?thesis by (auto simp: capture_step_def packet_lookup_def mon_of_def)
qed

lemma update_mon:
  assumes "prog_ok abi os pl p" and "pc p = Holding env iptr k dir ht"
  shows "\<exists>p'. capture_step p = Some p' \<and> ifhost (globals p') = ifhost (globals p) \<and>
     mon_of p' = mon_step os hst pl Capture (mon_of p)"
proof -
  let ?w = "globals p"
  obtain Cs a h where I: "hist_inv (history ?w) Cs" "a \<in> set (concat Cs)" "key_at (hnodes (history ?w)) a = k"
      "ht = rec_at (hnodes (history ?w)) a" and h: "decode_ip iptr = Some h"
    using assms by (auto simp: prog_ok_def simp del: set_concat)
  obtain l where l: "ip_len iptr = Some l" using decode_length [OF h] by blast
  have s: "ip_src iptr = Some (h_src h)" by (rule decode_fields(2) [OF h])
  obtain d where d: "hread (hrecs (history ?w)) ht = Some d" "hist_map (history ?w) k = Some d"
    using hist_write [OF I(1,2)] I(3,4) by blast
  let ?d = "count_packet (e_time env) (h_src h = src k) (ntohs l) d"
  obtain recs where R: "hwrite (hrecs (history ?w)) ht ?d = Some recs"
      "hist_map ((history ?w)\<lparr>hrecs := recs\<rparr>) = (hist_map (history ?w))(k \<mapsto> ?d)"
    using hist_write [OF I(1,2), of ?d] I(3,4) by blast
  show ?thesis
    using assms(2) l s d R
    by (auto simp: capture_step_def packet_update_def mon_of_def mon_count_def total_length_def Let_def)
qed

lemma step_mon:
  assumes "prog_ok abi os pl p" and "enabled abi e p"
  shows "\<exists>p'. prog_step e p = Some p' \<and> prog_ok abi os pl p' \<and> ifhost (globals p') = ifhost (globals p) \<and>
     mon_of p' = mon_step os (ifhost (globals p)) pl e (mon_of p)"
proof -
  have "\<exists>p'. prog_step e p = Some p' \<and> ifhost (globals p') = ifhost (globals p) \<and>
     mon_of p' = mon_step os (ifhost (globals p)) pl e (mon_of p)"
  proof (cases e)
    case (Packet env iptr dir)
    then show ?thesis using begin_mon [OF assms(1)] assms(2)
      by (cases "pc p = Waiting") (auto simp: mon_of_def)
  next
    case Capture
    then show ?thesis using lookup_mon [OF assms(1)] update_mon [OF assms(1)]
      by (cases "pc p") (auto simp: capture_step_def mon_of_def)
  next
    case (Key env c)
    then show ?thesis using tick_mon [OF assms(1), of env 0 "e_time env"] assms(2)
      by (cases "c = CHR ''u''") (auto simp: in_globals_def loop_key_def other_tick_ok_def)
  next
    case (Request env)
    then show ?thesis using tick_mon [OF assms(1), of env 1 "e_time env"] assms(2)
      by (auto simp: in_globals_def msgarrvd_def other_tick_ok_def)
  next
    case Confirmed
    then show ?thesis by (simp add: in_globals_def mon_of_def confirm_def Let_def)
  qed
  with step_prog [OF assms] show ?thesis by auto
qed

interpretation monitor_sim: simulation prog_step "\<lambda>p. prog_ok abi os pl p \<and> ifhost (globals p) = hst" mon_of
    "mon_enabled abi" "mon_step os hst pl"
  for abi os pl hst
  by unfold_locales (use step_mon in \<open>fastforce simp: mon_enabled_view\<close>)

lemma run_mon:
  assumes "prog_ok abi os pl p" and "mon_allowed abi os (ifhost (globals p)) pl es (mon_of p)"
  shows "\<exists>p'. prog_run es p = Some p' \<and> prog_ok abi os pl p' \<and> ifhost (globals p') = ifhost (globals p) \<and>
     mon_of p' = fold (mon_step os (ifhost (globals p)) pl) es (mon_of p)"
  using monitor_sim.run_refines [of abi os pl p "ifhost (globals p)" es] assms by auto

subsection \<open>What a data request reports\<close>

text \<open>The approved connections of the specification.\<close>

definition approved_conn :: "history_type \<Rightarrow> history_type option" where
  "approved_conn d = (if approval d \<noteq> 0 then Some d else None)"

definition reported :: "monitor \<Rightarrow> addr_pair \<rightharpoonup> history_type" where
  "reported s k = Option.bind (conns s k) approved_conn"

lemma keys_map_filter:
  "distinct (map fst cs) \<Longrightarrow> distinct (map fst (List.map_filter (\<lambda>(k, d). map_option (Pair k) (f d)) cs)) \<and>
   fst ` set (List.map_filter (\<lambda>(k, d). map_option (Pair k) (f d)) cs) \<subseteq> fst ` set cs"
proof (induction cs)
  case Nil
  show ?case by (simp add: List.map_filter_simps)
next
  case (Cons c cs)
  then show ?case by (cases c; cases "f (snd c)") (auto simp: List.map_filter_simps)
qed

lemma approved_map_filter: "approved cs = List.map_filter (\<lambda>(k, d). map_option (Pair k) (approved_conn d)) cs"
  by (induction cs) (auto simp: List.map_filter_simps approved_conn_def)

lemma approved_idem [simp]: "approved (approved cs) = approved cs"
  by (simp add: approved_def)

lemma message_approved [simp]: "message abi (approved cs) = message abi cs"
  by (simp add: message_def)

lemma approved_rotated:
  assumes "distinct (map fst cs)"
  shows "distinct (map fst (approved (rotate_list os t cs)))"
    "map_of (approved (rotate_list os t cs)) =
       (\<lambda>k. Option.bind (Option.bind (map_of cs k) (rotate_conn os t)) approved_conn)"
  using keys_map_filter [OF conjunct1 [OF keys_map_filter [OF assms]]] keys_map_filter [OF assms]
  by (auto simp: approved_map_filter rotate_list_def map_of_map_filter [OF conjunct1 [OF keys_map_filter [OF assms]]]
      map_of_map_filter [OF assms] fun_eq_iff)

lemma request_reports:
  assumes ok: "prog_ok ilp32 os pl p" and en: "enabled ilp32 (Request env) p"
    and st: "status (mqtt_client (globals p)) \<noteq> MQTT_STATUS_PENDING" "connection (mqtt_client (globals p)) = MQTT_CONNECT_ON"
    and env: "e_publish env = Some n" "\<And>a. e_stale env a = 0"
    and fit: "\<And>k d. reported (mon_step os hst pl (Request env) (mon_of p)) k = Some d \<Longrightarrow> times_fit d"
    and zlib: "\<And>xs. distinct (map fst xs) \<Longrightarrow> map_of xs = reported (mon_step os hst pl (Request env) (mon_of p)) \<Longrightarrow>
      length (e_deflate env (message ilp32 xs)) \<le> length (message ilp32 xs) \<and>
      inflate (e_deflate env (message ilp32 xs)) = message ilp32 xs"
  shows "\<exists>p' xs. prog_step (Request env) p = Some p' \<and> distinct (map fst xs) \<and>
     map_of xs = reported (mon_step os hst pl (Request env) (mon_of p)) \<and>
     published (mqtt_client (globals p')) = published (mqtt_client (globals p)) @
       (if xs = [] then [] else [(my_send_topic (mqtt_client (globals p)), e_deflate env (message ilp32 xs))]) \<and>
     save_data_rows (inflate (e_deflate env (message ilp32 xs))) = Some (map row_of xs)"
proof -
  let ?w = "globals p" and ?t = "e_time env"
  have e: "e_abi env = ilp32" "env_ok env" using en by (simp_all add: other_tick_ok_def)
  then have tok: "0 < n" "sizeof_long (e_abi env) = 4" using env(1) by (simp_all add: env_ok_def)
  have w: "iftop_ok (e_abi env) ?w None" "hist_ok (history ?w)" using ok e by (simp_all add: prog_ok_def iftop_ok_def)
  obtain t0 where o: "options ?w = os\<lparr>send_last := t0\<rparr>" using ok by (auto simp: prog_ok_def)
  obtain cs where cs: "connections (history ?w) = Some cs" "distinct (map fst cs)" "map_of cs = hist_map (history ?w)"
    using hist_connections [OF w(2)] by blast
  define rot where "rot = rotate_list os ?t cs"
  have rot: "rot = rotate_list (options ?w) ?t cs" by (simp add: rot_def rotate_list_def o)
  let ?xs = "approved rot"
  have xs: "distinct (map fst ?xs)" "map_of ?xs = reported (mon_step os hst pl (Request env) (mon_of p))"
    using approved_rotated [OF cs(2), of os ?t] cs(3)
    by (simp_all add: rot_def reported_def mon_tick_def mon_of_def fun_eq_iff)
  note z = zlib [OF xs]
  have "times_fit d" if "(k, d) \<in> set ?xs" for k d
    using fit [of k d] xs(2) map_of_is_SomeI [OF xs(1) that] by simp
  then have "save_data_rows (message ilp32 ?xs) = Some (map row_of ?xs)"
    using save_data_message [of ?xs] by auto
  with z have rows: "save_data_rows (inflate (e_deflate env (message ilp32 ?xs))) = Some (map row_of ?xs)" by simp
  obtain w' where T: "tick env 1 ?t ?w = Some w'" "mon_of (p\<lparr>globals := w'\<rparr>) = mon_tick os 1 ?t (mon_of p)"
    using tick_mon [OF ok e] by blast
  have pub: "published (mqtt_client w') = published (mqtt_client ?w) @
      (if ?xs = [] then [] else [(my_send_topic (mqtt_client ?w), e_deflate env (message ilp32 ?xs))])"
  proof (cases "?xs = []")
    case True
    then have "approved_count (rotate_list (options ?w) ?t cs) = 0" by (simp add: approved_count_length flip: rot)
    from forced_tick_quiet [OF w(1) st(2) cs(1) this env(2) _ T(1)] True show ?thesis by simp
  next
    case False
    then have "0 < approved_count rot" by (simp add: approved_count_length)
    from forced_tick_publishes [OF w(1) tok(2) env(1) tok(1) st cs(1) rot this env(2), of 1] z T(1) False e(1)
    show ?thesis by simp
  qed
  have "prog_step (Request env) p = Some (p\<lparr>globals := w'\<rparr>)" using T(1) by (simp add: in_globals_def msgarrvd_def)
  with xs pub rows show ?thesis by (intro exI [of _ "p\<lparr>globals := w'\<rparr>"] exI [of _ ?xs]) simp
qed

subsection \<open>The program against its specification\<close>

lemma mon_allowed_snoc:
  "mon_allowed abi os hst pl (es @ [e]) s \<longleftrightarrow>
     mon_allowed abi os hst pl es s \<and> mon_enabled abi e (fold (mon_step os hst pl) es s)"
  by (simp add: spec_allows_append)

text \<open>The specification's view of the globals at the start of the capture.\<close>

abbreviation steps_of :: "iftop \<Rightarrow> prog_event \<Rightarrow> monitor \<Rightarrow> monitor" where
  "steps_of w \<equiv> mon_step (options w) (ifhost w) (port_list w)"

abbreviation allowed_from :: "outside \<Rightarrow> iftop \<Rightarrow> prog_event list \<Rightarrow> bool" where
  "allowed_from e w es \<equiv>
     mon_allowed (o_abi e) (options w) (ifhost w) (port_list w) es (mon_start (o_history_time e))"

lemma mon_of_boot: "boot e argv = Ok (dlt, w) \<Longrightarrow> mon_of \<lparr>globals = w, pc = Waiting\<rparr> = mon_start (o_history_time e)"
  by (erule boot_Ok) (metis mon_of_start)

lemma run_start:
  assumes "boot e argv = Ok (dlt, w)" and "short_block_lists (long_bits (o_abi e)) (command_options (o_args_file e) argv)"
    and "allowed_from e w es"
  shows "\<exists>p. prog_run es \<lparr>globals = w, pc = Waiting\<rparr> = Some p \<and>
     prog_ok (o_abi e) (options w) (port_list w) p \<and> mon_of p = fold (steps_of w) es (mon_start (o_history_time e))"
  using run_mon [OF boot_prog [OF assms(1,2)], of es] assms(3) by (auto simp: mon_of_boot [OF assms(1)])

subsection \<open>A run\<close>

text \<open>A start without options, a packet at the second of the start and a data request later: the
  connection is approved and reported.\<close>

definition plain_outside :: outside where
  "plain_outside = sample_outside (\<lambda>p. None)"

definition first_env :: env where "first_env = sample_env\<lparr>e_time := 5, e_create_time := 5\<rparr>"

definition first_events :: "byte list \<Rightarrow> prog_event list" where
  "first_events pk = [Packet first_env pk (-1), Capture, Capture]"

definition seen_key :: addr_pair where
  "seen_key = \<lparr>protocol = 17, src_port = 50000, src = 0x08080808, dst_port = 8080, dst = 0x0501000A\<rparr>"

definition seen_rec :: history_type where
  "seen_rec = history_empty\<lparr>total_recv := 100, create_time := 5, last_update_time := 5\<rparr>"

text \<open>A packet of 100 bytes from the inner address of its connection, as the options of the plain start
  and no address of the interface have it.\<close>

definition first_of_conn :: "byte list \<Rightarrow> addr_pair \<Rightarrow> bool" where
  "first_of_conn pk k \<longleftrightarrow> (\<exists>h. decode_ip pk = Some h \<and> h_src h \<noteq> src k) \<and> total_length pk = 100 \<and>
     (case configure 32 0 (\<lambda>s. None) (\<lambda>s. None) (\<lambda>s. True) (Some [''eth0'']) None 0 (\<lambda>p. None) None [''iftop''] of Ok s \<Rightarrow>
        packet_key (Options.opts s) no_host (Options.ports s) 0 pk (-1) = Some (Some (k, 0)) \<and>
        duration (Options.opts s) = 0 \<and> threshold (Options.opts s) = 0 | _ \<Rightarrow> False)"

lemma seen_first: "first_of_conn udp_packet seen_key"
proof -
  have "case configure 32 0 (\<lambda>s. None) (\<lambda>s. None) (\<lambda>s. True) (Some [''eth0'']) None 0 (\<lambda>p. None) None [''iftop''] of Ok s \<Rightarrow>
     packet_key (Options.opts s) no_host (Options.ports s) 0 udp_packet (-1) = Some (Some (seen_key, 0)) \<and>
     duration (Options.opts s) = 0 \<and> threshold (Options.opts s) = 0 | _ \<Rightarrow> False"
    by code_simp
  moreover have "h_src udp_hdr \<noteq> src seen_key" by (simp add: udp_hdr_def seen_key_def)
  ultimately show ?thesis unfolding first_of_conn_def using decode_udp_packet udp_lengths(1) by blast
qed

lemma plain_booted:
  assumes "first_of_conn pk k"
  obtains w where "boot plain_outside [''iftop''] = Ok (DLT_EN10MB, w)"
    "packet_key (options w) no_host (port_list w) 0 pk (-1) = Some (Some (k, 0))"
    "duration (options w) = 0" "threshold (options w) = 0" "ifhost w = no_host" "mqtt_client w = sample_boot"
    "last_timestamp w = 5"
proof -
  obtain s where s: "configure_here plain_outside [''iftop''] = Ok s"
      "packet_key (Options.opts s) no_host (Options.ports s) 0 pk (-1) = Some (Some (k, 0))"
      "duration (Options.opts s) = 0" "threshold (Options.opts s) = 0"
    using assms
    by (auto simp: first_of_conn_def configure_here_def plain_outside_def sample_outside_def long_bits_def ilp32_def
        split: outcome.splits)
  from sample_outside_booted [OF s(1) [unfolded plain_outside_def]] s show thesis
    by (intro that [of "start 5 (Options.opts s) (Options.ports s) no_host sample_boot"]) (simp_all add: plain_outside_def)
qed

lemma plain_fields [simp]: "o_abi plain_outside = ilp32" "o_history_time plain_outside = 5" "o_args_file plain_outside = None"
    "long_bits ilp32 = 32"
  by (simp_all add: plain_outside_def sample_outside_def long_bits_def ilp32_def)

lemma plain_short: "short_block_lists (long_bits (o_abi plain_outside)) (command_options (o_args_file plain_outside) [''iftop''])"
  unfolding plain_fields by code_simp

lemma first_env_fields [simp]:
  "e_abi first_env = ilp32" "env_ok first_env" "e_time first_env = 5" "e_create_time first_env = 5" "e_i first_env = 0"
  "e_abi sample_env = ilp32" "env_ok sample_env" "e_time sample_env = 50" "e_publish sample_env = Some 1"
  "e_stale sample_env a = 0" "e_deflate sample_env = id"
  by (simp_all add: first_env_def sample_env_def env_ok_def ilp32_def)

lemma first_conn:
  assumes "first_of_conn pk k" and "boot plain_outside [''iftop''] = Ok (DLT_EN10MB, w)"
    and "packet_key (options w) no_host (port_list w) 0 pk (-1) = Some (Some (k, 0))"
  shows "event_conn (options w) no_host (port_list w) (first_env, pk, -1) = Some (k, 0)"
proof -
  obtain h where h: "decode_ip pk = Some h" using assms(1) by (auto simp: first_of_conn_def)
  have "lists_ok (options w) (port_list w) 0" using boot_prog [OF assms(2) plain_short] by (simp add: prog_ok_def)
  from packet_key_spec [OF this h, of no_host "-1"] assms(3)
  have "key_spec (options w) no_host (port_list w) 0 h (-1) = Some (k, 0)" by simp
  then show ?thesis by (simp add: event_conn_def h)
qed

lemma first_fold:
  assumes "first_of_conn pk k" and "event_conn os no_host pl (first_env, pk, -1) = Some (k, 0)"
  shows "fold (mon_step os no_host pl) (first_events pk) (mon_start 5) =
    \<lparr>conns = [k \<mapsto> seen_rec], rotated = 5, totals = history_empty\<lparr>total_recv := 100\<rparr>, task = Ready\<rparr>"
    and "mon_allowed ilp32 os no_host pl (first_events pk @ [Request sample_env]) (mon_start 5)"
proof -
  obtain h where h: "decode_ip pk = Some h" "h_src h \<noteq> src k" "total_length pk = 100"
    using assms(1) by (auto simp: first_of_conn_def)
  have s: "ip_src pk = Some (h_src h)" by (rule decode_fields(2) [OF h(1)])
  show "fold (mon_step os no_host pl) (first_events pk) (mon_start 5) =
    \<lparr>conns = [k \<mapsto> seen_rec], rotated = 5, totals = history_empty\<lparr>total_recv := 100\<rparr>, task = Ready\<rparr>"
    using assms(2) s h by (simp add: first_events_def mon_start_def mon_tick_def RESOLUTION_def mon_count_def
        fresh_conn_def count_packet_def add_totals_def seen_rec_def history_empty_def)
  show "mon_allowed ilp32 os no_host pl (first_events pk @ [Request sample_env]) (mon_start 5)"
    using assms(2) h(1) by (simp add: first_events_def mon_enabled_def mon_start_def mon_tick_def RESOLUTION_def
        mon_count_def)
qed

lemma first_reported:
  assumes "first_of_conn pk k" and "event_conn os no_host pl (first_env, pk, -1) = Some (k, 0)"
    and "duration os = 0" "threshold os = 0"
  shows "reported (fold (mon_step os no_host pl) (first_events pk @ [Request sample_env]) (mon_start 5)) =
    [k \<mapsto> seen_rec\<lparr>approval := 1\<rparr>]"
  unfolding fold_append comp_apply first_fold(1) [OF assms(1,2)]
  using assms(3,4) by (simp add: reported_def mon_tick_def fun_eq_iff rotate_conn_def is_short_connection_def
      is_low_traffic_connection_def satisfies_criteria_def approved_conn_def seen_rec_def history_empty_def)

lemma boot_checked: "\<exists>m. check_status sample_boot = Some m \<and> status m \<noteq> MQTT_STATUS_PENDING \<and> connection m = MQTT_CONNECT_ON"
  by (simp add: check_status_def sample_boot_def mqtt_initial_def free_buffers_def)

lemma capture_client:
  assumes "capture_step p = Some p'"
  shows "mqtt_client (globals p') = mqtt_client (globals p)"
  using assms by (auto simp: capture_step_def packet_lookup_def packet_update_def Let_def bind_eq_Some_conv split: capture_pc.splits)

lemma first_client:
  assumes "prog_run (first_events pk) \<lparr>globals = w, pc = Waiting\<rparr> = Some p"
    and "packet_key (options w) no_host (port_list w) 0 pk (-1) = Some (Some (k, 0))"
    and "ifhost w = no_host" "mqtt_client w = sample_boot" "last_timestamp w = 5"
  shows "status (mqtt_client (globals p)) \<noteq> MQTT_STATUS_PENDING" "connection (mqtt_client (globals p)) = MQTT_CONNECT_ON"
proof -
  obtain m where m: "check_status sample_boot = Some m" "status m \<noteq> MQTT_STATUS_PENDING" "connection m = MQTT_CONNECT_ON"
    using boot_checked by blast
  obtain p1 p2 where p: "packet_begin first_env pk (-1) w = Some p1"
      "capture_step p1 = Some p2" "capture_step p2 = Some p"
    using assms(1) by (auto simp: first_events_def bind_eq_Some_conv split: if_splits)
  have "mqtt_client (globals p1) = m"
    using p(1) m(1) assms(3-5) by (auto simp: packet_begin_def tick_def RESOLUTION_def bind_eq_Some_conv)
  with capture_client [OF p(2)] capture_client [OF p(3)] m
  show "status (mqtt_client (globals p)) \<noteq> MQTT_STATUS_PENDING" "connection (mqtt_client (globals p)) = MQTT_CONNECT_ON"
    by simp_all
qed

lemma one_entry:
  assumes "distinct (map fst xs)" and "map_of xs = [k \<mapsto> d]"
  shows "xs = [(k, d)]"
proof -
  have s: "(a, b) \<in> set xs \<Longrightarrow> a = k \<and> b = d" for a b
    using map_of_is_SomeI [OF assms(1), of a b] assms(2) by (simp split: if_splits)
  show ?thesis
  proof (cases xs)
    case Nil
    then show ?thesis using fun_cong [OF assms(2), of k] by simp
  next
    case (Cons x ys)
    then have "ys = []" using s [of "fst (hd ys)" "snd (hd ys)"] s [of "fst x" "snd x"] assms(1) by (cases ys) auto
    with Cons s [of "fst x" "snd x"] show ?thesis by (cases x) simp
  qed
qed

subsection \<open>Properties\<close>





end
