(* ===== verification/Receiver.thy ===== *)
theory Receiver
  imports Mqtt CString
begin

text \<open>
  The receiver, Python_Client/mqtt_client.py (mqtt_client_mysql.py repeats these functions): the table
  that \<open>save_data\<close> fills from the messages of the boxes, the totals of \<open>process\<close>, the listing of
  \<open>print_stat\<close> and the commands of the main loop. A dictionary is a map; where Python iterates over one,
  the order of its keys is an argument. An exception ends a callback and leaves what it had changed,
  so a callback returns the new state and whether it raised.
\<close>

subsection \<open>The table\<close>

text \<open>An entry of a list in the table: \<open>[outer_ip, outer_port, protocols, recv, send, create, end]\<close>.\<close>

record py_conn =
  c_ip :: int
  c_port :: int
  c_protocols :: "int list"
  c_recv :: int
  c_send :: int
  c_create :: int
  c_end :: int

type_synonym py_table = "int \<times> int \<rightharpoonup> py_conn list"

definition new_conn :: "int \<Rightarrow> py_row \<Rightarrow> py_conn" where
  "new_conn port r = \<lparr>c_ip = outer_ip r, c_port = port, c_protocols = [row_protocol r], c_recv = row_recv r,
     c_send = row_send r, c_create = row_create r, c_end = row_end r\<rparr>"

text \<open>The loop over the entries of a host without the option \<open>--port\<close>: the first entry of the same
  outer address takes the row in, or the row becomes a new entry at the end.\<close>

definition merge_row :: "py_row \<Rightarrow> py_conn \<Rightarrow> py_conn" where
  "merge_row r c = c\<lparr>
     c_protocols := (if row_protocol r \<in> set (c_protocols c) then c_protocols c else c_protocols c @ [row_protocol r]),
     c_recv := c_recv c + row_recv r, c_send := c_send c + row_send r,
     c_create := (if row_create r < c_create c then row_create r else c_create c),
     c_end := (if row_end r > c_end c then row_end r else c_end c)\<rparr>"

fun merge_conn :: "py_row \<Rightarrow> py_conn list \<Rightarrow> py_conn list" where
  "merge_conn r [] = [new_conn 0 r]"
| "merge_conn r (c # cs) = (if c_ip c = outer_ip r then merge_row r c # cs else c # merge_conn r cs)"

definition in_lan :: "int \<Rightarrow> bool" where
  "in_lan ip \<longleftrightarrow> ip AND 0xFFFF0000 = 0xAC100000"

definition save_row :: "bool \<Rightarrow> int \<Rightarrow> py_row \<Rightarrow> py_table \<Rightarrow> py_table" where
  "save_row port boxid r T =
     (if \<not> in_lan (inner_ip r) then T
      else (let key = (boxid, inner_ip r);
                info = (case T key of None \<Rightarrow> [] | Some info \<Rightarrow> info)
            in T(key \<mapsto> (if port then info @ [new_conn (outer_port r) r] else merge_conn r info))))"

function save_data :: "bool \<Rightarrow> int \<Rightarrow> byte list \<Rightarrow> py_table \<Rightarrow> py_table \<times> bool" where
  "save_data port boxid bs T =
     (if bs = [] then (T, False)
      else case unpack (take STRUCT_SIZE bs) of
          None \<Rightarrow> (T, True)
        | Some r \<Rightarrow> save_data port boxid (drop STRUCT_SIZE bs) (save_row port boxid r T))"
  by pat_completeness auto
termination
  by (relation "measure (\<lambda>(port, boxid, bs, T). length bs)") (auto simp: STRUCT_SIZE_def)

declare save_data.simps [simp del]

subsection \<open>The callback for a message\<close>

text \<open>\<open>int(s)\<close> of Python: blanks around, a sign, decimal digits.\<close>

definition strip_space :: "string \<Rightarrow> string" where
  "strip_space s = rev (dropWhile is_space (rev (dropWhile is_space s)))"

definition py_int :: "string \<Rightarrow> int option" where
  "py_int s =
     (let t = strip_space s;
          ds = (if t \<noteq> [] \<and> hd t \<in> set ''+-'' then tl t else t)
      in if ds \<noteq> [] \<and> list_all is_digit ds
         then Some (if hd t = CHR ''-'' then - digits_val ds else digits_val ds) else None)"

text \<open>\<open>topic.split("/")[-1]\<close>.\<close>

definition last_part :: "string \<Rightarrow> string" where
  "last_part s = rev (takeWhile (\<lambda>c. c \<noteq> CHR ''/'') (rev s))"

text \<open>The globals; \<open>posts\<close> are the requests published so far.\<close>

record receiver =
  received :: int
  py_table :: py_table
  stat :: "int \<times> int \<rightharpoonup> int \<times> int \<times> int"
  opt_port :: bool
  opt_limit :: "int option"
  posts :: "(string \<times> string) list"

definition on_message :: "(byte list \<Rightarrow> byte list option) \<Rightarrow> string \<Rightarrow> byte list \<Rightarrow> receiver \<Rightarrow> receiver \<times> bool" where
  "on_message decompress topic payload s =
     (let s = s\<lparr>received := received s + 1\<rparr>
      in case decompress payload of
           None \<Rightarrow> (s, True)
         | Some bs \<Rightarrow>
             (case py_int (last_part topic) of
                None \<Rightarrow> (s, True)
              | Some boxid \<Rightarrow>
                  (case save_data (opt_port s) boxid bs (py_table s) of
                     (T, raised) \<Rightarrow> (s\<lparr>py_table := T\<rparr>, raised))))"

subsection \<open>Totals and listing\<close>

definition host_totals :: "py_conn list \<Rightarrow> int \<times> int \<times> int" where
  "host_totals info =
     (case foldl (\<lambda>(tr, ts) c. (tr + c_recv c, ts + c_send c)) (0, 0) info of (tr, ts) \<Rightarrow> (tr, ts, ts + tr))"

definition process :: "receiver \<Rightarrow> receiver" where
  "process s = s\<lparr>stat := (\<lambda>k. case py_table s k of Some info \<Rightarrow> Some (host_totals info) | None \<Rightarrow> stat s k)\<rparr>"

definition key_compare :: "int \<times> int \<Rightarrow> int \<times> int \<Rightarrow> int" where
  "key_compare x y = push_bit 16 (fst x - fst y) + (snd x - snd y)"

text \<open>\<open>sorted\<close> with a comparison function: a stable sort.\<close>

fun insert_cmp :: "('a \<Rightarrow> 'a \<Rightarrow> int) \<Rightarrow> 'a \<Rightarrow> 'a list \<Rightarrow> 'a list" where
  "insert_cmp cmp x [] = [x]"
| "insert_cmp cmp x (y # ys) = (if cmp x y \<le> 0 then x # y # ys else y # insert_cmp cmp x ys)"

definition sorted_cmp :: "('a \<Rightarrow> 'a \<Rightarrow> int) \<Rightarrow> 'a list \<Rightarrow> 'a list" where
  "sorted_cmp cmp xs = foldr (insert_cmp cmp) xs []"

definition conn_total :: "py_conn \<Rightarrow> int" where
  "conn_total c = c_recv c + c_send c"

text \<open>The entries of a host that are printed: the largest first, at most the limit.\<close>

definition shown :: "int option \<Rightarrow> py_conn list \<Rightarrow> py_conn list" where
  "shown limit info =
     (let sorted = sorted_cmp (\<lambda>x y. conn_total y - conn_total x) info
      in case limit of None \<Rightarrow> sorted | Some n \<Rightarrow> take (nat n) sorted)"

text \<open>The hosts with their totals and the entries shown, in the order printed. \<open>keys\<close> are the keys of
  \<open>stat\<close>; a host without entries in the table is a \<open>KeyError\<close>. The formatting of numbers and
  times is left out.\<close>

definition print_stat :: "(int \<times> int) list \<Rightarrow> receiver \<Rightarrow> ((int \<times> int) \<times> (int \<times> int \<times> int) \<times> py_conn list) list option" where
  "print_stat keys s = those (map (\<lambda>k. Option.bind (stat s k) (\<lambda>info. Option.bind (py_table s k)
      (\<lambda>detail. Some (k, info, shown (opt_limit s) detail)))) (sorted_cmp key_compare keys))"

text \<open>The names of the known protocols of an entry, joined by slashes.\<close>

definition protocol_names :: "int list \<Rightarrow> string" where
  "protocol_names ps = butlast (CHR 0x09 # concat (map (\<lambda>p.
     if p = 17 then ''UDP/'' else if p = 6 then ''TCP/'' else if p = 1 then ''ICMP/''
     else if p = 2 then ''IGMP/'' else []) ps))"

subsection \<open>The commands\<close>

definition py_split :: "string \<Rightarrow> string list" where
  "py_split s = tokens CHR '' '' (map (\<lambda>c. if is_space c then CHR '' '' else c) s)"

definition clear_history :: "receiver \<Rightarrow> receiver" where
  "clear_history s = s\<lparr>received := 0, py_table := Map.empty, stat := Map.empty\<rparr>"

text \<open>One command of the main loop; \<open>None\<close> ends the program.\<close>

definition command :: "string \<Rightarrow> receiver \<Rightarrow> receiver option" where
  "command c s =
     (if c = ''p'' then Some (process s)
      else if c = ''b'' then
        Some ((clear_history s)\<lparr>posts := posts s @ [(''NWSTAT/BROADCAST'', ''broadcast'')]\<rparr>)
      else if 1 < length c \<and> hd c = CHR ''r'' then
        (case py_split c of
           [r, boxid] \<Rightarrow> Some ((clear_history s)\<lparr>posts := posts s @ [(''NWSTAT/RETV/'' @ boxid, ''retrieve'')]\<rparr>)
         | _ \<Rightarrow> Some s)
      else if c = ''q'' then None
      else Some s)"

subsection \<open>Grouping rows\<close>

text \<open>The reference: the rows of one host, grouped by the outer address in the order of their first
  rows, each group with its sums, its extreme times and its protocols.\<close>

definition firsts :: "'a list \<Rightarrow> 'a list" where
  "firsts xs = rev (remdups (rev xs))"

lemma firsts_simps [simp]:
  "firsts [] = []" "firsts (xs @ [x]) = (if x \<in> set xs then firsts xs else firsts xs @ [x])"
  by (simp_all add: firsts_def)

lemma set_firsts [simp]: "set (firsts xs) = set xs" and distinct_firsts [simp]: "distinct (firsts xs)"
  by (simp_all add: firsts_def)

definition merged :: "int \<Rightarrow> py_row list \<Rightarrow> py_conn" where
  "merged ip rs = \<lparr>c_ip = ip, c_port = 0, c_protocols = firsts (map row_protocol rs), c_recv = sum_list (map row_recv rs),
     c_send = sum_list (map row_send rs), c_create = Min (row_create ` set rs), c_end = Max (row_end ` set rs)\<rparr>"

definition rows_from :: "int \<Rightarrow> py_row list \<Rightarrow> py_row list" where
  "rows_from ip rs = filter (\<lambda>r. outer_ip r = ip) rs"

definition grouped :: "py_row list \<Rightarrow> py_conn list" where
  "grouped rs = map (\<lambda>ip. merged ip (rows_from ip rs)) (firsts (map outer_ip rs))"

lemma rows_from_simps [simp]:
  "rows_from ip [] = []" "rows_from ip (rs @ [r]) = (if outer_ip r = ip then rows_from ip rs @ [r] else rows_from ip rs)"
  by (simp_all add: rows_from_def)

lemma rows_from_empty: "rows_from ip rs = [] \<longleftrightarrow> ip \<notin> outer_ip ` set rs"
  by (induction rs) (auto simp: rows_from_def)

lemma merge_conn_absent: "outer_ip r \<notin> c_ip ` set cs \<Longrightarrow> merge_conn r cs = cs @ [new_conn 0 r]"
  by (induction cs) auto

lemma merge_conn_present:
  "distinct ips \<Longrightarrow> outer_ip r \<in> set ips \<Longrightarrow> (\<And>ip. c_ip (f ip) = ip) \<Longrightarrow>
   merge_conn r (map f ips) = map (f(outer_ip r := merge_row r (f (outer_ip r)))) ips"
  by (induction ips) auto

lemma merged_first: "merged (outer_ip r) [r] = new_conn 0 r"
  by (simp add: merged_def new_conn_def firsts_def)

lemma merged_more:
  assumes "rs \<noteq> []"
  shows "merge_row r (merged ip rs) = merged ip (rs @ [r])"
proof -
  have mm: "min a b = (if a < b then a else b)" "max b a = (if b > a then b else a)" for a b :: int by auto
  have "Min (row_create ` set (rs @ [r])) = (if row_create r < Min (row_create ` set rs) then row_create r
      else Min (row_create ` set rs))"
    "Max (row_end ` set (rs @ [r])) = (if row_end r > Max (row_end ` set rs) then row_end r else Max (row_end ` set rs))"
    using assms by (simp_all only: mm [symmetric] set_append image_Un list.set image_insert image_empty Un_insert_right
        sup_bot_right Min_insert Max_insert finite_imageI finite_set image_is_empty set_empty not_False_eq_True)
  then show ?thesis by (simp only: merge_row_def merged_def) simp
qed

lemma grouped_snoc: "merge_conn r (grouped rs) = grouped (rs @ [r])"
proof (cases "outer_ip r \<in> outer_ip ` set rs")
  case True
  let ?f = "\<lambda>ip. merged ip (rows_from ip rs)"
  have "merge_conn r (grouped rs) = map (?f(outer_ip r := merge_row r (?f (outer_ip r)))) (firsts (map outer_ip rs))"
    unfolding grouped_def by (rule merge_conn_present) (use True in \<open>auto simp: merged_def\<close>)
  also have "\<dots> = grouped (rs @ [r])"
    using True merged_more [of "rows_from (outer_ip r) rs" r "outer_ip r"] rows_from_empty [of "outer_ip r" rs]
    by (auto simp: grouped_def)
  finally show ?thesis .
next
  case False
  then have "outer_ip r \<notin> c_ip ` set (grouped rs)" by (auto simp: grouped_def merged_def)
  with False show ?thesis
    using rows_from_empty [of "outer_ip r" rs]
    by (auto simp: merge_conn_absent) (auto simp: grouped_def merged_first)
qed

lemma distinct_grouped: "distinct (map c_ip (grouped rs))"
  by (simp add: grouped_def comp_def merged_def)

text \<open>What the table should hold after rows of several boxes.\<close>

definition host_rows :: "int \<times> int \<Rightarrow> (int \<times> py_row) list \<Rightarrow> py_row list" where
  "host_rows k rs = map snd (filter (\<lambda>(b, r). (b, inner_ip r) = k) rs)"

definition table_of :: "(int \<times> py_row) list \<Rightarrow> py_table" where
  "table_of rs k = (if in_lan (snd k) \<and> host_rows k rs \<noteq> [] then Some (grouped (host_rows k rs)) else None)"

lemma host_rows_simps [simp]:
  "host_rows k [] = []"
  "host_rows k (rs @ [(b, r)]) = (if (b, inner_ip r) = k then host_rows k rs @ [r] else host_rows k rs)"
  by (simp_all add: host_rows_def)

lemma save_row_table: "save_row False b r (table_of rs) = table_of (rs @ [(b, r)])"
proof
  fix k
  have "grouped [] = []" by (simp add: grouped_def)
  then show "save_row False b r (table_of rs) k = table_of (rs @ [(b, r)]) k"
    using grouped_snoc [of r "host_rows (b, inner_ip r) rs"]
    by (cases "host_rows (b, inner_ip r) rs = []") (auto simp: save_row_def table_of_def Let_def)
qed

lemma save_rows_table:
  "fold (\<lambda>(b, r). save_row False b r) rs (table_of rs0) = table_of (rs0 @ rs)"
proof (induction rs arbitrary: rs0)
  case (Cons x rs)
  obtain b r where "x = (b, r)" by (cases x)
  with Cons.IH [of "rs0 @ [(b, r)]"] save_row_table [of b r rs0] show ?case by simp
qed simp

lemma table_of_Nil: "table_of [] = Map.empty"
  by (rule ext) (simp add: table_of_def)

text \<open>A message that unpacks is its rows, one after the other.\<close>

lemma save_data_fold:
  "save_data_rows bs = Some rs \<Longrightarrow> save_data port b bs T = (fold (save_row port b) rs T, False)"
proof (induction bs arbitrary: rs T rule: save_data_rows.induct)
  case (1 bs)
  show ?case
  proof (cases "bs = []")
    case True
    with "1.prems" show ?thesis by (simp add: save_data_rows.simps [of "[]"] save_data.simps [of _ _ "[]"])
  next
    case False
    obtain r rs' where r: "unpack (take STRUCT_SIZE bs) = Some r" "save_data_rows (drop STRUCT_SIZE bs) = Some rs'" "rs = r # rs'"
      using "1.prems" False by (subst (asm) save_data_rows.simps) (auto simp: bind_eq_Some_conv)
    from "1.IH" [OF False r(1,2)] show ?thesis using False r by (subst save_data.simps) simp
  qed
qed

text \<open>The totals of a host do not depend on the grouping.\<close>

lemma merge_conn_sum:
  "(\<Sum>c \<leftarrow> merge_conn r cs. c_recv c) = row_recv r + (\<Sum>c \<leftarrow> cs. c_recv c)"
  "(\<Sum>c \<leftarrow> merge_conn r cs. c_send c) = row_send r + (\<Sum>c \<leftarrow> cs. c_send c)"
  by (induction cs) (simp_all add: new_conn_def merge_row_def)

lemma grouped_sum:
  "(\<Sum>c \<leftarrow> grouped rs. c_recv c) = (\<Sum>r \<leftarrow> rs. row_recv r)" "(\<Sum>c \<leftarrow> grouped rs. c_send c) = (\<Sum>r \<leftarrow> rs. row_send r)"
proof (induction rs rule: rev_induct)
  case Nil
  case 1 show ?case by (simp add: grouped_def)
  case 2 show ?case by (simp add: grouped_def)
next
  case (snoc r rs)
  case 1 show ?case using snoc by (simp add: grouped_snoc [symmetric] merge_conn_sum)
  case 2 show ?case using snoc by (simp add: grouped_snoc [symmetric] merge_conn_sum)
qed

lemma host_totals_sum: "host_totals info =
   ((\<Sum>c \<leftarrow> info. c_recv c), (\<Sum>c \<leftarrow> info. c_send c), (\<Sum>c \<leftarrow> info. c_send c) + (\<Sum>c \<leftarrow> info. c_recv c))"
proof -
  have "foldl (\<lambda>(tr, ts) c. (tr + c_recv c, ts + c_send c)) (a, b) info =
      (a + (\<Sum>c \<leftarrow> info. c_recv c), b + (\<Sum>c \<leftarrow> info. c_send c))" for a b
    by (induction info arbitrary: a b) simp_all
  then show ?thesis by (simp add: host_totals_def)
qed

subsection \<open>The order of a listing\<close>

text \<open>A comparison by the difference of a key is a sort by that key.\<close>

lemma sorted_cmp_key:
  assumes "\<And>x y. cmp x y \<le> 0 \<longleftrightarrow> f x \<le> f y"
  shows "sorted_cmp cmp xs = sort_key (f :: 'a \<Rightarrow> int) xs"
proof -
  have "insert_cmp cmp x ys = insort_key f x ys" for x ys
    by (induction ys) (simp_all add: assms)
  then show ?thesis by (simp add: sorted_cmp_def sort_key_def cong: foldr_cong)
qed

lemma key_compare_sort: "sorted_cmp key_compare = sort_key (\<lambda>k. 65536 * fst k + snd k)"
  by (rule ext, rule sorted_cmp_key) (auto simp: key_compare_def push_bit_eq_mult)

lemma largest_first: "sorted_cmp (\<lambda>x y. conn_total y - conn_total x) = sort_key (\<lambda>c. - conn_total c)"
  by (rule ext, rule sorted_cmp_key) simp

lemma and_upper_half: "x AND 0xFFFF0000 = 65536 * (x div 65536 mod 65536)" for x :: int
proof -
  have "x AND push_bit 16 (mask 16) = push_bit 16 (take_bit 16 (drop_bit 16 x))"
    by (rule bit_eqI) (auto simp: bit_and_iff bit_push_bit_iff bit_mask_iff bit_take_bit_iff bit_drop_bit_eq)
  then show ?thesis by (simp add: push_bit_eq_mult take_bit_eq_mod drop_bit_eq_div mask_eq_exp_minus_1)
qed

lemma in_lan_range:
  assumes "0 \<le> ip" and "ip < 2 ^ 32"
  shows "in_lan ip \<longleftrightarrow> 0xAC100000 \<le> ip \<and> ip < 0xAC110000"
proof -
  have E: "(65536 * q = 2886729728) = (2886729728 \<le> ip \<and> ip < 2886795264)"
    if "65536 * q + m = ip" "0 \<le> m" "m < 65536" for q m :: int
  proof
    assume "2886729728 \<le> ip \<and> ip < 2886795264"
    with that have "q = 44048" by linarith
    then show "65536 * q = 2886729728" by simp
  qed (use that in linarith)
  have "ip div 65536 mod 65536 = ip div 65536" using assms by simp
  with E [of "ip div 65536" "ip mod 65536"] show ?thesis unfolding in_lan_def and_upper_half by simp
qed

definition lan_key :: "int \<times> int \<Rightarrow> bool" where
  "lan_key k \<longleftrightarrow> in_lan (snd k) \<and> 0 \<le> snd k \<and> snd k < 2 ^ 32"

lemma lan_key_order:
  assumes "lan_key k" and "lan_key k'"
  shows "65536 * fst k + snd k \<le> 65536 * fst k' + snd k' \<longleftrightarrow> fst k < fst k' \<or> fst k = fst k' \<and> snd k \<le> snd k'"
  using assms unfolding lan_key_def by (auto simp: in_lan_range)

text \<open>The addresses of an unpacked row are 32-bit numbers.\<close>

lemma unpack_range: "unpack bs = Some r \<Longrightarrow> 0 \<le> inner_ip r \<and> inner_ip r < 2 ^ 32"
  using uint_lt2p [of "ntohl (word_of_int (field bs 6 4))"] by (auto simp: unpack_def swap_u32_def split: if_splits)

lemma shown_spec:
  defines "n \<equiv> \<lambda>limit cs. case limit of None \<Rightarrow> length cs | Some l \<Rightarrow> min (nat l) (length cs)"
  shows "\<exists>hidden. mset info = mset (shown limit info) + mset hidden \<and> length (shown limit info) = n limit info \<and>
     sorted_wrt (\<lambda>c c'. conn_total c' \<le> conn_total c) (shown limit info) \<and>
     (\<forall>c \<in> set (shown limit info). \<forall>c' \<in> set hidden. conn_total c' \<le> conn_total c)"
proof -
  let ?s = "sort_key (\<lambda>c. - conn_total c) info"
  let ?n = "case limit of None \<Rightarrow> length info | Some l \<Rightarrow> nat l"
  have s: "sorted_wrt (\<lambda>c c'. conn_total c' \<le> conn_total c) ?s"
    using sorted_sort_key [of "\<lambda>c. - conn_total c" info] by (simp add: sorted_map)
  have sh: "shown limit info = take ?n ?s" by (simp add: shown_def largest_first Let_def split: option.split)
  have "sorted_wrt (\<lambda>c c'. conn_total c' \<le> conn_total c) (take ?n ?s @ drop ?n ?s)" using s by simp
  then have "sorted_wrt (\<lambda>c c'. conn_total c' \<le> conn_total c) (take ?n ?s)"
      "\<forall>c \<in> set (take ?n ?s). \<forall>c' \<in> set (drop ?n ?s). conn_total c' \<le> conn_total c"
    unfolding sorted_wrt_append by blast+
  moreover have "mset info = mset (take ?n ?s) + mset (drop ?n ?s)"
    by (metis append_take_drop_id mset_append mset_sort)
  moreover have "length (take ?n ?s) = n limit info" by (simp add: n_def min.commute split: option.split)
  ultimately show ?thesis unfolding sh by blast
qed

lemma digits_stripped:
  assumes "ds \<noteq> []" and "list_all is_digit ds"
  shows "py_int ds = Some (digits_val ds)"
proof -
  have d: "\<not> is_space (hd ds)" "\<not> is_space (hd (rev ds))" "hd ds \<notin> set ''+-''"
    using assms digit_not_space [of "hd ds"] digit_not_space [of "hd (rev ds)"]
    by (auto simp: list_all_iff hd_rev)
  moreover have "dropWhile P xs = xs" if "\<not> P (hd xs)" for P and xs :: string using that by (cases xs) simp_all
  ultimately have "strip_space ds = ds" by (simp add: strip_space_def)
  with assms d show ?thesis by (auto simp: py_int_def Let_def)
qed

lemma last_part_append: "CHR ''/'' \<notin> set d \<Longrightarrow> last_part (p @ ''/'' @ d) = d"
  by (simp add: last_part_def takeWhile_append)

lemma topic_box:
  assumes "dev \<noteq> []" and "list_all is_digit dev"
  shows "py_int (last_part (SEND_TOPIC @ dev)) = Some (digits_val dev)"
proof -
  have "CHR ''/'' \<notin> set dev" using assms(2) by (auto simp: list_all_iff is_digit_def)
  from last_part_append [OF this, of "''NWSTAT/AUTO''"] show ?thesis
    using digits_stripped [OF assms] by (simp add: SEND_TOPIC_def)
qed

subsection \<open>Properties\<close>

text \<open>A sequence of messages.\<close>

definition on_messages :: "(byte list \<Rightarrow> byte list option) \<Rightarrow> (string \<times> byte list) list \<Rightarrow> receiver \<Rightarrow> receiver" where
  "on_messages decompress = fold (\<lambda>(topic, payload) s. fst (on_message decompress topic payload s))"

text \<open>A topic and a payload that carry these rows of this box.\<close>

definition carries :: "(byte list \<Rightarrow> byte list option) \<Rightarrow> string \<times> byte list \<Rightarrow> int \<times> py_row list \<Rightarrow> bool" where
  "carries decompress = (\<lambda>(topic, payload) (b, rs). py_int (last_part topic) = Some b \<and>
     Option.bind (decompress payload) save_data_rows = Some rs)"

lemma on_message_rows:
  assumes "carries decompress m (b, rs)" and "\<not> opt_port s" and "py_table s = table_of rs0"
  shows "fst (on_message decompress (fst m) (snd m) s) =
    s\<lparr>received := received s + 1, py_table := table_of (rs0 @ map (Pair b) rs)\<rparr>"
proof -
  obtain bs where bs: "decompress (snd m) = Some bs" "save_data_rows bs = Some rs" "py_int (last_part (fst m)) = Some b"
    using assms(1) by (auto simp: carries_def bind_eq_Some_conv split: prod.splits)
  have "fold (\<lambda>(b, r). save_row False b r) (map (Pair b) rs) = fold (save_row False b) rs"
    by (simp add: fold_map comp_def)
  with save_data_fold [OF bs(2), of False b "table_of rs0"] save_rows_table [of "map (Pair b) rs" rs0] bs assms(2,3)
  show ?thesis by (simp add: on_message_def Let_def)
qed

lemma on_messages_rows:
  "list_all2 (carries decompress) ms bs \<Longrightarrow> \<not> opt_port s \<Longrightarrow> py_table s = table_of rs0 \<Longrightarrow>
   on_messages decompress ms s = s\<lparr>received := received s + int (length ms),
     py_table := table_of (rs0 @ concat (map (\<lambda>(b, rs). map (Pair b) rs) bs))\<rparr>"
proof (induction ms bs arbitrary: s rs0 rule: list_all2_induct)
  case Nil
  then show ?case by (cases s) (simp add: on_messages_def)
next
  case (Cons m ms x bs)
  obtain b rs where x: "x = (b, rs)" by (cases x)
  note one = on_message_rows [OF Cons.hyps(1) [unfolded x] Cons.prems]
  let ?s = "s\<lparr>received := received s + 1, py_table := table_of (rs0 @ map (Pair b) rs)\<rparr>"
  have "on_messages decompress (m # ms) s = on_messages decompress ms ?s"
    using one by (cases m) (simp add: on_messages_def)
  with Cons.IH [of ?s "rs0 @ map (Pair b) rs"] Cons.prems(1) x show ?case by (simp add: algebra_simps)
qed

text \<open>C6. The receiver groups. From an empty table and without \<open>--port\<close>, whatever messages arrive, from
  however many boxes and in whatever order, the entries that the nested loops of \<open>save_data\<close> have
  updated in place are those of the reference: for each box and each address of the local network, the
  rows grouped by the outer address, in the order in which these were first seen, with the sums of the bytes, the
  earliest begin, the latest end and the protocols without repetition; rows of other addresses are
  not in the table.\<close>

theorem messages_grouped:
  assumes "list_all2 (carries decompress) ms bs" and "\<not> opt_port s" and "py_table s = Map.empty"
  shows "py_table (on_messages decompress ms s) = (\<lambda>k.
     let rs = host_rows k (concat (map (\<lambda>(b, rs). map (Pair b) rs) bs))
     in if in_lan (snd k) \<and> rs \<noteq> [] then Some (map (\<lambda>ip. merged ip (filter (\<lambda>r. outer_ip r = ip) rs)) (firsts (map outer_ip rs)))
        else None)"
  using on_messages_rows [OF assms(1,2), of "[]"] assms(3)
  by (simp add: table_of_Nil) (simp add: table_of_def grouped_def rows_from_def Let_def fun_eq_iff)

text \<open>Two messages of one box.\<close>

definition lan_conn :: "u16 \<Rightarrow> u64 \<Rightarrow> addr_pair \<times> history_type" where
  "lan_conn p n = (\<lparr>protocol = p, src_port = 443, src = 0x08080808, dst_port = 0, dst = 0x050010AC\<rparr>,
     \<lparr>total_sent = n, total_recv = 0, create_time = 10, last_update_time = 20, approval = 1\<rparr>)"

definition idle_receiver :: receiver where
  "idle_receiver = \<lparr>received = 0, py_table = Map.empty, stat = Map.empty, opt_port = False, opt_limit = None, posts = []\<rparr>"

lemma lan_message: "save_data_rows (message ilp32 [lan_conn p n]) = Some [row_of (lan_conn p n)]"
  using save_data_message [of "[lan_conn p n]"] by (simp add: approved_def lan_conn_def times_fit_def)

lemma lan_carries: "carries Some (''NWSTAT/AUTO/42'', message ilp32 [lan_conn p n]) (42, [row_of (lan_conn p n)])"
proof -
  have "py_int (last_part ''NWSTAT/AUTO/42'') = Some 42" by code_simp
  with lan_message show ?thesis by (simp add: carries_def)
qed

theorem messages_grouped_witness:
  "py_table (on_messages Some [(''NWSTAT/AUTO/42'', message ilp32 [lan_conn 6 100]),
       (''NWSTAT/AUTO/42'', message ilp32 [lan_conn 17 50])] idle_receiver) (42, 0xAC100005) =
     Some [\<lparr>c_ip = 0x08080808, c_port = 0, c_protocols = [6, 17], c_recv = 150, c_send = 0, c_create = 10, c_end = 20\<rparr>]"
proof -
  have h: "list_all2 (carries Some) [(''NWSTAT/AUTO/42'', message ilp32 [lan_conn 6 100]),
       (''NWSTAT/AUTO/42'', message ilp32 [lan_conn 17 50])]
      [(42, [row_of (lan_conn 6 100)]), (42, [row_of (lan_conn 17 50)])]"
    using lan_carries by simp
  have i: "\<not> opt_port idle_receiver" "py_table idle_receiver = Map.empty" by (simp_all add: idle_receiver_def)
  have r: "outer_ip (row_of (lan_conn p n)) = 0x08080808" "inner_ip (row_of (lan_conn p n)) = 0xAC100005"
      "row_protocol (row_of (lan_conn p n)) = uint p" "row_recv (row_of (lan_conn p n)) = uint n"
      "row_send (row_of (lan_conn p n)) = 0" "row_create (row_of (lan_conn p n)) = 10"
      "row_end (row_of (lan_conn p n)) = 20" for p n
  proof -
    have "ntohl 0x08080808 = 0x08080808" "ntohl 0x050010AC = 0xAC100005" by code_simp+
    then show "outer_ip (row_of (lan_conn p n)) = 0x08080808" "inner_ip (row_of (lan_conn p n)) = 0xAC100005"
      "row_protocol (row_of (lan_conn p n)) = uint p" "row_recv (row_of (lan_conn p n)) = uint n"
      "row_send (row_of (lan_conn p n)) = 0" "row_create (row_of (lan_conn p n)) = 10"
      "row_end (row_of (lan_conn p n)) = 20" by (simp_all add: row_of_def lan_conn_def)
  qed
  have l: "in_lan 0xAC100005" by (simp add: in_lan_def)
  have f: "firsts [a, b] = (if a = b then [a] else [a, b])" for a b :: int by (simp add: firsts_def)
  show ?thesis unfolding messages_grouped [OF h i] by (simp add: host_rows_def Let_def r l f merged_def)
qed

lemma process_stat:
  assumes "dom (stat s) \<subseteq> dom (py_table s)"
  shows "stat (process s) = (\<lambda>k. map_option host_totals (py_table s k))"
  using assms by (auto simp: process_def fun_eq_iff split: option.split)

lemma those_map: "(\<And>x. x \<in> set xs \<Longrightarrow> f x = Some (g x)) \<Longrightarrow> those (map f xs) = Some (map g xs)"
  by (induction xs) auto

lemma distinct_wrt: "distinct xs \<Longrightarrow> sorted_wrt (\<noteq>) xs"
  by (induction xs) auto

lemma wrt_both: "sorted_wrt P xs \<Longrightarrow> sorted_wrt Q xs \<Longrightarrow> sorted_wrt (\<lambda>x y. P x y \<and> Q x y) xs"
  by (induction xs) auto

lemma sorted_lan_keys:
  assumes "distinct keys" and "\<And>k. k \<in> set keys \<Longrightarrow> lan_key k"
  shows "sorted_wrt (\<lambda>k k'. fst k < fst k' \<or> fst k = fst k' \<and> snd k < snd k') (sorted_cmp key_compare keys)"
proof -
  let ?f = "\<lambda>k :: int \<times> int. 65536 * fst k + snd k"
  let ?s = "sort_key ?f keys"
  have "sorted_wrt (\<lambda>k k'. ?f k \<le> ?f k') ?s" using sorted_sort_key [of ?f keys] by (simp add: sorted_map)
  moreover have "sorted_wrt (\<noteq>) ?s" using assms(1) by (simp add: distinct_wrt)
  ultimately have "sorted_wrt (\<lambda>k k'. ?f k \<le> ?f k' \<and> k \<noteq> k') ?s" by (rule wrt_both)
  then show ?thesis unfolding key_compare_sort
    by (rule sorted_wrt_mono_rel [rotated]) (use assms(2) lan_key_order in \<open>auto simp: prod_eq_iff\<close>)
qed

text \<open>What is to be printed for a host: its sums, and as many of its entries as the limit allows, in
  descending order of their bytes, such that none that is left out has more.\<close>

definition host_listing :: "int option \<Rightarrow> py_conn list \<Rightarrow> int \<times> int \<times> int \<Rightarrow> py_conn list \<Rightarrow> bool" where
  "host_listing limit info tot cs \<longleftrightarrow>
     tot = ((\<Sum>c \<leftarrow> info. c_recv c), (\<Sum>c \<leftarrow> info. c_send c), (\<Sum>c \<leftarrow> info. c_send c) + (\<Sum>c \<leftarrow> info. c_recv c)) \<and>
     length cs = (case limit of None \<Rightarrow> length info | Some l \<Rightarrow> min (nat l) (length info)) \<and>
     sorted_wrt (\<lambda>c c'. conn_total c' \<le> conn_total c) cs \<and>
     (\<exists>hidden. mset info = mset cs + mset hidden \<and>
        (\<forall>c \<in> set cs. \<forall>c' \<in> set hidden. conn_total c' \<le> conn_total c))"

lemma host_listed: "host_listing limit info (host_totals info) (shown limit info)"
  using shown_spec [of info limit] unfolding host_listing_def host_totals_sum by blast

text \<open>The receiver's life: messages arrive in the thread of the library, commands are typed.\<close>

datatype recv_event = Message string "byte list" | Typed string

fun recv_step :: "(byte list \<Rightarrow> byte list option) \<Rightarrow> recv_event \<Rightarrow> receiver \<Rightarrow> receiver" where
  "recv_step decompress (Message topic payload) s = fst (on_message decompress topic payload s)"
| "recv_step decompress (Typed c) s = (case command c s of Some s' \<Rightarrow> s' | None \<Rightarrow> s)"

definition recv_ok :: "receiver \<Rightarrow> bool" where
  "recv_ok s \<longleftrightarrow> (\<forall>k \<in> dom (py_table s). lan_key k) \<and> dom (stat s) \<subseteq> dom (py_table s)"

lemma save_row_keys:
  "dom (save_row port b r T) = dom T \<union> (if in_lan (inner_ip r) then {(b, inner_ip r)} else {})"
  by (auto simp: save_row_def Let_def)

lemma save_data_keys:
  "dom T \<subseteq> dom (fst (save_data port b bs T)) \<and> (\<forall>k \<in> dom (fst (save_data port b bs T)) - dom T. lan_key k)"
proof (induction port b bs T rule: save_data.induct)
  case (1 port b bs T)
  show ?case
  proof (cases "bs = [] \<or> unpack (take STRUCT_SIZE bs) = None")
    case True
    then show ?thesis by (subst (1 2) save_data.simps) auto
  next
    case False
    then obtain r where r: "unpack (take STRUCT_SIZE bs) = Some r" "bs \<noteq> []" by auto
    have "lan_key k" if "k \<in> dom (save_row port b r T) - dom T" for k
      using that unpack_range [OF r(1)] by (auto simp: save_row_keys lan_key_def split: if_splits)
    moreover have "dom T \<subseteq> dom (save_row port b r T)" by (auto simp: save_row_keys)
    moreover have "save_data port b bs T = save_data port b (drop STRUCT_SIZE bs) (save_row port b r T)"
      using r by (subst save_data.simps) simp
    ultimately show ?thesis using "1.IH" [OF r(2,1)] by (simp only:) blast
  qed
qed

lemma on_message_ok:
  assumes "recv_ok s"
  shows "recv_ok (fst (on_message decompress topic payload s))"
proof -
  have same: "recv_ok (s\<lparr>received := n\<rparr>)" for n using assms by (simp add: recv_ok_def)
  have more: "recv_ok (s\<lparr>received := n, py_table := fst (save_data port b bs (py_table s))\<rparr>)" for n port b bs
    using assms save_data_keys [of "py_table s" port b bs] by (simp add: recv_ok_def) blast
  show ?thesis
    by (cases "decompress payload"; cases "py_int (last_part topic)";
        cases "save_data (opt_port s) (the (py_int (last_part topic))) (the (decompress payload)) (py_table s)")
      (use same more in \<open>simp_all add: on_message_def Let_def\<close>, metis fst_conv more)
qed

lemma process_fields [simp]:
  "py_table (process s) = py_table s" "opt_limit (process s) = opt_limit s"
  "dom (stat (process s)) = dom (stat s) \<union> dom (py_table s)"
proof -
  have "k \<in> dom (stat (process s)) \<longleftrightarrow> k \<in> dom (stat s) \<union> dom (py_table s)" for k
    by (cases "py_table s k") (simp_all add: process_def domIff)
  then show "dom (stat (process s)) = dom (stat s) \<union> dom (py_table s)" by blast
qed (simp_all add: process_def)

lemma command_ok:
  assumes "recv_ok s" and "command c s = Some s'"
  shows "recv_ok s'"
proof -
  have "recv_ok (process s)" using assms(1) unfolding recv_ok_def process_fields by blast
  moreover have "recv_ok ((clear_history s)\<lparr>posts := x\<rparr>)" for x by (simp add: recv_ok_def clear_history_def)
  ultimately show ?thesis using assms by (auto simp: command_def split: if_splits list.splits)
qed

lemma recv_run_ok: "recv_ok s \<Longrightarrow> recv_ok (fold (recv_step decompress) es s)"
proof (induction es arbitrary: s)
  case (Cons e es)
  then show ?case using on_message_ok command_ok by (cases e) (auto split: option.split)
qed simp

text \<open>C20. The listing. After \<open>process\<close> the hosts are printed in the order of box and address: \<open>key_compare\<close>
  shifts the box by 16 bits only, which is enough because \<open>save_data\<close> admits no address outside
  172.16.0.0/16. Each host comes with the sums over all its entries, and its entries shown are as many as the limit
  allows, in descending order of their bytes, and none that is left out has more.\<close>

theorem listing_ordered:
  assumes "s = fold (recv_step decompress) es (idle_receiver\<lparr>opt_port := port, opt_limit := limit\<rparr>)"
    and "distinct keys" and "set keys = dom (stat (process s))"
  shows "\<exists>hosts. print_stat keys (process s) = Some hosts \<and> fst ` set hosts = dom (py_table s) \<and>
     sorted_wrt (\<lambda>k k'. fst k < fst k' \<or> fst k = fst k' \<and> snd k < snd k') (map fst hosts) \<and>
     (\<forall>(k, tot, cs) \<in> set hosts. \<exists>info. py_table s k = Some info \<and> host_listing (opt_limit s) info tot cs)"
proof -
  have "recv_ok s"
    unfolding assms(1) by (rule recv_run_ok) (simp add: recv_ok_def idle_receiver_def)
  then have ok: "\<And>k. k \<in> dom (py_table s) \<Longrightarrow> lan_key k" "dom (stat s) \<subseteq> dom (py_table s)"
    unfolding recv_ok_def by blast+
  let ?g = "\<lambda>k. (k, host_totals (the (py_table s k)), shown (opt_limit s) (the (py_table s k)))"
  let ?ks = "sorted_cmp key_compare keys"
  note st = process_stat [OF ok(2)]
  have ks: "set ?ks = dom (py_table s)" using assms(3) by (auto simp: key_compare_sort st)
  have fs: "map fst (map ?g ?ks) = ?ks" by (simp add: comp_def)
  show ?thesis
  proof (intro exI conjI)
    show "print_stat keys (process s) = Some (map ?g ?ks)"
      unfolding print_stat_def by (rule those_map) (use ks in \<open>auto simp: st\<close>)
    show "fst ` set (map ?g ?ks) = dom (py_table s)" using ks by force
    show "sorted_wrt (\<lambda>k k'. fst k < fst k' \<or> fst k = fst k' \<and> snd k < snd k') (map fst (map ?g ?ks))"
      unfolding fs by (rule sorted_lan_keys [OF assms(2)]) (use ok(1) assms(3) in \<open>auto simp: st\<close>)
    show "\<forall>(k, tot, cs) \<in> set (map ?g ?ks). \<exists>info. py_table s k = Some info \<and> host_listing (opt_limit s) info tot cs"
    proof clarify
      fix k tot cs
      assume "(k, tot, cs) \<in> set (map ?g ?ks)"
      with ks obtain info where i: "py_table s k = Some info" "tot = host_totals info" "cs = shown (opt_limit s) info"
        by auto
      with host_listed [of "opt_limit s" info] show "\<exists>info. py_table s k = Some info \<and> host_listing (opt_limit s) info tot cs" by blast
    qed
  qed
qed

text \<open>A message of one host, one entry allowed.\<close>

theorem listing_ordered_witness:
  "\<exists>s cs. s = fold (recv_step Some) [Message ''NWSTAT/AUTO/42'' (message ilp32 [lan_conn 6 100])]
       (idle_receiver\<lparr>opt_limit := Some 1\<rparr>) \<and>
     print_stat [(42, 0xAC100005)] (process s) = Some [((42, 0xAC100005), (100, 0, 100), cs)] \<and> length cs = 1"
proof -
  let ?i = "idle_receiver\<lparr>opt_port := False, opt_limit := Some 1\<rparr>"
  let ?s = "fold (recv_step Some) [Message ''NWSTAT/AUTO/42'' (message ilp32 [lan_conn 6 100])] ?i"
  have i: "\<not> opt_port ?i" "py_table ?i = table_of []" "stat ?i = Map.empty" "opt_limit ?i = Some 1"
    by (simp_all add: idle_receiver_def table_of_Nil)
  have s: "?s = ?i\<lparr>received := received ?i + 1, py_table := table_of (map (Pair 42) [row_of (lan_conn 6 100)])\<rparr>"
    using on_message_rows [OF lan_carries i(1,2), of 6 100] by simp
  have r: "inner_ip (row_of (lan_conn 6 100)) = 0xAC100005" "row_recv (row_of (lan_conn 6 100)) = 100"
      "row_send (row_of (lan_conn 6 100)) = 0"
  proof -
    have "ntohl 0x050010AC = 0xAC100005" by code_simp
    then show "inner_ip (row_of (lan_conn 6 100)) = 0xAC100005" "row_recv (row_of (lan_conn 6 100)) = 100"
      "row_send (row_of (lan_conn 6 100)) = 0" by (simp_all add: row_of_def lan_conn_def)
  qed
  have T: "py_table ?s = [(42, 0xAC100005) \<mapsto> [merged (outer_ip (row_of (lan_conn 6 100))) [row_of (lan_conn 6 100)]]]"
    unfolding s by (auto simp: table_of_def host_rows_def r in_lan_def grouped_def rows_from_def firsts_def fun_eq_iff)
  have st: "dom (stat (process ?s)) = {(42, 0xAC100005)}" "opt_limit ?s = Some 1"
    unfolding process_fields T unfolding s by (simp_all add: idle_receiver_def)
  have "\<exists>hosts. print_stat [(42, 0xAC100005)] (process ?s) = Some hosts \<and> fst ` set hosts = dom (py_table ?s) \<and>
     sorted_wrt (\<lambda>k k'. fst k < fst k' \<or> fst k = fst k' \<and> snd k < snd k') (map fst hosts) \<and>
     (\<forall>(k, tot, cs) \<in> set hosts. \<exists>info. py_table ?s k = Some info \<and> host_listing (opt_limit ?s) info tot cs)"
    by (rule listing_ordered [OF refl]) (simp_all only: st(1), simp_all)
  then obtain hosts where h: "print_stat [(42, 0xAC100005)] (process ?s) = Some hosts" "fst ` set hosts = {(42, 0xAC100005)}"
      "sorted_wrt (\<lambda>k k'. fst k < fst k' \<or> fst k = fst k' \<and> snd k < snd k') (map fst hosts)"
      "\<forall>(k, tot, cs) \<in> set hosts. \<exists>info. py_table ?s k = Some info \<and> host_listing (Some 1) info tot cs"
    unfolding st(2) T by auto
  obtain tot cs where one: "hosts = [((42, 0xAC100005), tot, cs)]"
  proof (cases hosts)
    case (Cons x xs)
    with h(2) have "fst x = (42, 0xAC100005)" by auto
    moreover have "xs = []" using h(2,3) Cons calculation by (cases xs) auto
    ultimately show thesis using that [of "fst (snd x)" "snd (snd x)"] Cons by (cases x) auto
  qed (use h(2) in simp)
  with h(4) T have "host_listing (Some 1) [merged (outer_ip (row_of (lan_conn 6 100))) [row_of (lan_conn 6 100)]] tot cs"
    by auto
  then have "tot = (100, 0, 100)" "length cs = 1" by (simp_all add: host_listing_def merged_def r)
  with h(1) one show ?thesis by (intro exI [of _ ?s] exI [of _ cs]) (simp add: idle_receiver_def)
qed

end
