(* ===== verification/EndToEnd.thy ===== *)
theory EndToEnd
  imports Monitor Receiver
begin

text \<open>
  The program and its receiver together: from the packets of a run, over the message that a data
  request publishes, to the table of the receiver that takes it in. The receiver's request and its
  table are those of \<open>Receiver\<close>, the program's run and its specification those of \<open>Monitor\<close>.
\<close>

unbundle bit_operations_syntax

subsection \<open>The topics of the client stay\<close>

definition same_topics :: "mqtt \<Rightarrow> mqtt \<Rightarrow> bool" where
  "same_topics m m' \<longleftrightarrow> my_send_topic m' = my_send_topic m \<and> my_retrieve_topic m' = my_retrieve_topic m"

lemma same_topics_refl [simp]: "same_topics m m"
  by (simp add: same_topics_def)

lemma same_topics_trans [trans]: "same_topics m m' \<Longrightarrow> same_topics m' m'' \<Longrightarrow> same_topics m m''"
  by (simp add: same_topics_def)

lemma compress_topics: "compress_msg deflate m = Some m' \<Longrightarrow> same_topics m m'"
  by (auto simp: compress_msg_def xmalloc_def same_topics_def bind_eq_Some_conv Let_def)

lemma construct_topics:
  "construct_MQTT_msg abi deflate n hs m = Some (rc, m') \<Longrightarrow> same_topics m m'"
  by (auto simp: construct_MQTT_msg_def xmalloc_def bind_eq_Some_conv Let_def same_topics_def
      dest!: compress_topics split: if_splits)

lemma free_topics: "free_buffers m = Some m' \<Longrightarrow> same_topics m m'"
  by (auto simp: free_buffers_def same_topics_def bind_eq_Some_conv)

lemma connect_topics:
  assumes "connect_and_subscribe ok m = Some (rc, m')"
  shows "same_topics m m'"
proof -
  obtain m1 where "same_topics m m1"
      "(if \<not> ok then Some (1, m1) else Some (0, m1\<lparr>subscribed := subscribed m1 @ [BROADCST, my_retrieve_topic m1],
          connection := MQTT_CONNECT_ON\<rparr>)) = Some (rc, m')"
    using assms unfolding connect_and_subscribe_def bind_eq_Some_conv
    by (cases "status m = MQTT_STATUS_PENDING")
      (simp only: if_True if_False bind_eq_Some_conv option.inject ex_simps, elim exE conjE, rule that,
        auto simp: same_topics_def bind_eq_Some_conv)
  then show ?thesis by (cases ok) (auto simp: same_topics_def)
qed

lemma connection_topics:
  assumes "check_MQTT_connection t ok m = Some m'"
  shows "same_topics m m'"
proof (cases "connection m = MQTT_CONNECT_OFF \<and> t - last_try m > RECONNECT_INTERVAL")
  case True
  with assms obtain rc where "connect_and_subscribe ok (m\<lparr>last_try := t\<rparr>) = Some (rc, m')"
    by (auto simp: check_MQTT_connection_def bind_eq_Some_conv)
  from connect_topics [OF this] show ?thesis by (simp add: same_topics_def)
next
  case False
  show ?thesis using assms unfolding check_MQTT_connection_def if_not_P [OF False] by simp
qed

lemma status_topics:
  assumes "check_status m = Some m'"
  shows "same_topics m m'"
proof (cases "deliveredtoken m = token m")
  case True
  with assms obtain m1 where "free_buffers (m\<lparr>deliveredtoken := 0\<rparr>) = Some m1" "m' = m1\<lparr>status := MQTT_STATUS_COMPLETE\<rparr>"
    by (auto simp: check_status_def bind_eq_Some_conv)
  with free_topics [of "m\<lparr>deliveredtoken := 0\<rparr>" m1] show ?thesis by (simp add: same_topics_def)
qed (use assms in \<open>simp add: check_status_def\<close>)

lemma send_topics:
  assumes "send_MQTT_msg pub m = Some m'"
  shows "same_topics m m'"
proof (cases "connection m = MQTT_CONNECT_OFF")
  case True
  with assms have "free_buffers (m\<lparr>status := MQTT_STATUS_COMPLETE\<rparr>) = Some m'" by (simp add: send_MQTT_msg_def)
  from free_topics [OF this] show ?thesis by (simp add: same_topics_def)
next
  case False
  with assms obtain b x y z where "m' = m\<lparr>deliveredtoken := x, token := y, published := z\<rparr>"
    unfolding send_MQTT_msg_def by (simp only: if_False bind_eq_Some_conv) blast
  then show ?thesis by (simp add: same_topics_def)
qed

lemma build_client:
  "tick_build env send t w = Some (r, w') \<Longrightarrow> mqtt_client w' = mqtt_client w \<or>
     (\<exists>n hs rc. construct_MQTT_msg (e_abi env) (e_deflate env) n hs (mqtt_client w) = Some (rc, mqtt_client w'))"
  unfolding tick_build_def Let_def bind_Some_eq
  by (elim exE conjE) (simp add: case_prod_unfold bind_Some_eq split: if_splits, auto)

lemma build_topics: "tick_build env send t w = Some (r, w') \<Longrightarrow> same_topics (mqtt_client w) (mqtt_client w')"
  by (drule build_client) (auto dest: construct_topics)

lemma tick_topics:
  assumes "tick env send t w = Some w'"
  shows "same_topics (mqtt_client w) (mqtt_client w')"
proof -
  obtain w1 m where w1: "(if send \<noteq> 0 \<or> t - last_timestamp w \<ge> RESOLUTION then do {
             (msg_ready, w) \<leftarrow> tick_build env send t w;
             mq \<leftarrow> check_MQTT_connection t (e_connect env) (mqtt_client w);
             mq \<leftarrow> (if msg_ready then send_MQTT_msg (e_publish env) mq else Some mq);
             Some (w\<lparr>mqtt_client := mq, last_timestamp := t\<rparr>) }
           else Some w) = Some w1" "check_status (mqtt_client w1) = Some m" "mqtt_client w' = m"
    using assms unfolding tick_def by (auto simp: bind_eq_Some_conv)
  have "same_topics (mqtt_client w) (mqtt_client w1)"
  proof (cases "send \<noteq> 0 \<or> t - last_timestamp w \<ge> RESOLUTION")
    case True
    then obtain r w0 m1 m2 where "tick_build env send t w = Some (r, w0)"
        "check_MQTT_connection t (e_connect env) (mqtt_client w0) = Some m1"
        "(if r then send_MQTT_msg (e_publish env) m1 else Some m1) = Some m2" "mqtt_client w1 = m2"
      using w1(1) by (auto simp: bind_eq_Some_conv)
    then show ?thesis
      using build_topics connection_topics send_topics
      by (cases r) (metis same_topics_trans option.inject)+
  qed (use w1(1) in simp)
  then show ?thesis using status_topics [OF w1(2)] w1(3) same_topics_trans by blast
qed

lemma step_topics:
  assumes "prog_step e p = Some p'"
  shows "same_topics (mqtt_client (globals p)) (mqtt_client (globals p'))"
proof (cases e)
  case (Packet env iptr dir)
  with assms show ?thesis
    by (cases "pc p = Waiting") (auto simp: packet_begin_def bind_eq_Some_conv dest: tick_topics)
next
  case Capture
  with assms show ?thesis by (simp add: capture_client)
next
  case (Key env c)
  with assms show ?thesis
    by (cases "c = CHR ''u''") (auto simp: in_globals_def loop_key_def dest: tick_topics)
next
  case (Request env)
  with assms show ?thesis by (auto simp: in_globals_def msgarrvd_def dest: tick_topics)
next
  case Confirmed
  with assms show ?thesis by (auto simp: in_globals_def confirm_def delivered_def same_topics_def Let_def)
qed

lemma run_topics:
  "prog_run es p = Some p' \<Longrightarrow> same_topics (mqtt_client (globals p)) (mqtt_client (globals p'))"
proof (induction es arbitrary: p)
  case (Cons e es)
  then obtain p1 where "prog_step e p = Some p1" "prog_run es p1 = Some p'" by (auto simp: bind_eq_Some_conv)
  then show ?case using step_topics Cons.IH same_topics_trans by blast
qed simp

lemma boot_topics:
  assumes "boot e argv = Ok (dlt, w)"
  shows "my_send_topic (mqtt_client w) = SEND_TOPIC @ o_device e" "my_retrieve_topic (mqtt_client w) = RETRIEVE @ o_device e"
proof -
  obtain s m where "configure_here e argv = Ok s"
    and m: "init_MQTT (o_abi e) (o_device e) (o_connect e) (o_mqtt_time e) mqtt_initial = Some m"
      "w = start (o_history_time e) (Options.opts s) (Options.ports s) (ifhost w) m"
    by (rule boot_Ok [OF assms])
  have w: "mqtt_client w = m" by (subst m(2)) simp
  have "my_send_topic m = SEND_TOPIC @ o_device e \<and> my_retrieve_topic m = RETRIEVE @ o_device e"
    using m(1) by (auto simp: init_MQTT_def construct_topic_def topic_into_def connect_and_subscribe_def mqtt_initial_def
        bind_eq_Some_conv split: if_splits)
  with w show "my_send_topic (mqtt_client w) = SEND_TOPIC @ o_device e"
      "my_retrieve_topic (mqtt_client w) = RETRIEVE @ o_device e" by simp_all
qed

subsection \<open>The rows of a report in the table\<close>

text \<open>The reported connections between a host of the receiver's network and an outer address.\<close>

definition conns_of :: "(addr_pair \<rightharpoonup> history_type) \<Rightarrow> int \<Rightarrow> int \<Rightarrow> addr_pair set" where
  "conns_of R inner outer = {k \<in> dom R. uint (ntohl (dst k)) = inner \<and> uint (ntohl (src k)) = outer}"

lemma sum_rows:
  assumes "distinct (map fst xs)" and "map_of xs = R"
  shows "(\<Sum>r \<leftarrow> filter P (map row_of xs). g r) = (\<Sum>k \<in> {k \<in> dom R. P (row_of (k, the (R k)))}. g (row_of (k, the (R k))))"
proof -
  let ?ys = "filter (P \<circ> row_of) xs"
  have "(\<Sum>r \<leftarrow> filter P (map row_of xs). g r) = (\<Sum>x \<leftarrow> ?ys. g (row_of x))"
    by (simp add: filter_map comp_def)
  also have "\<dots> = (\<Sum>x \<in> set ?ys. g (row_of x))"
    by (rule sum_list_distinct_conv_sum_set) (use assms(1) in \<open>simp add: distinct_map\<close>)
  also have "\<dots> = (\<Sum>k \<in> {k \<in> dom R. P (row_of (k, the (R k)))}. g (row_of (k, the (R k))))"
  proof (rule sum.reindex_bij_witness [of _ "\<lambda>k. (k, the (R k))" fst])
    fix x assume x: "x \<in> set ?ys"
    then have "R (fst x) = Some (snd x)" using map_of_is_SomeI [OF assms(1), of "fst x" "snd x"] assms(2) by simp
    with x show "(fst x, the (R (fst x))) = x" "fst x \<in> {k \<in> dom R. P (row_of (k, the (R k)))}"
      "g (row_of (fst x, the (R (fst x)))) = g (row_of x)" by auto
  next
    fix k assume k: "k \<in> {k \<in> dom R. P (row_of (k, the (R k)))}"
    then obtain d where "map_of xs k = Some d" using assms(2) by auto
    then have "(k, the (R k)) \<in> set xs" using assms(2) map_of_SomeD [of xs k d] by simp
    with k show "fst (k, the (R k)) = k" "(k, the (R k)) \<in> set ?ys" by auto
  qed
  finally show ?thesis .
qed

lemma conns_of_rows:
  assumes "map_of xs = R"
  shows "conns_of R i ip \<noteq> {} \<longleftrightarrow> ip \<in> outer_ip ` set (filter (\<lambda>r. inner_ip r = i) (map row_of xs))"
proof -
  have "conns_of R i ip = fst ` {x \<in> set xs. inner_ip (row_of x) = i \<and> outer_ip (row_of x) = ip}"
    unfolding conns_of_def using assms dom_map_of_conv_image_fst [of xs] by (auto simp: row_of_def)
  then show ?thesis by auto
qed

text \<open>What the list of a host should hold for a report: one entry per outer address that the host has
  connections with, and in it the sums over these connections. What an outer address has sent is
  what the host has received.\<close>

definition host_entry :: "(addr_pair \<rightharpoonup> history_type) \<Rightarrow> int \<Rightarrow> py_conn list \<Rightarrow> bool" where
  "host_entry R i info \<longleftrightarrow> distinct (map c_ip info) \<and> c_ip ` set info = {ip. conns_of R i ip \<noteq> {}} \<and>
     (\<forall>c \<in> set info. c_recv c = (\<Sum>k \<in> conns_of R i (c_ip c). uint (total_sent (the (R k)))) \<and>
        c_send c = (\<Sum>k \<in> conns_of R i (c_ip c). uint (total_recv (the (R k)))))"

lemma grouped_entry:
  assumes "distinct (map fst xs)" and "map_of xs = R"
  shows "host_entry R i (grouped (filter (\<lambda>r. inner_ip r = i) (map row_of xs)))"
proof -
  let ?rs = "filter (\<lambda>r. inner_ip r = i) (map row_of xs)"
  have conns: "conns_of R i ip = {k \<in> dom R. inner_ip (row_of (k, the (R k))) = i \<and> outer_ip (row_of (k, the (R k))) = ip}" for ip
    by (simp add: conns_of_def row_of_def)
  have ff: "rows_from ip ?rs = filter (\<lambda>r. inner_ip r = i \<and> outer_ip r = ip) (map row_of xs)" for ip
    by (simp add: rows_from_def conj_commute)
  have r: "row_recv (row_of (k, d)) = uint (total_sent d)" "row_send (row_of (k, d)) = uint (total_recv d)" for k d
    by (simp_all add: row_of_def)
  have "c_ip ` set (grouped ?rs) = outer_ip ` set ?rs" by (force simp: grouped_def merged_def)
  moreover have "c_recv c = (\<Sum>k \<in> conns_of R i (c_ip c). uint (total_sent (the (R k)))) \<and>
        c_send c = (\<Sum>k \<in> conns_of R i (c_ip c). uint (total_recv (the (R k))))" if "c \<in> set (grouped ?rs)" for c
  proof -
    obtain ip where "c = merged ip (rows_from ip ?rs)" using \<open>c \<in> set (grouped ?rs)\<close> by (auto simp: grouped_def)
    then have "c_ip c = ip" "c_recv c = sum_list (map row_recv (rows_from ip ?rs))"
        "c_send c = sum_list (map row_send (rows_from ip ?rs))" by (simp_all add: merged_def)
    then show ?thesis unfolding ff sum_rows [OF assms] conns by (simp add: r)
  qed
  ultimately show ?thesis
    unfolding host_entry_def conns_of_rows [OF assms(2)] using distinct_grouped [of ?rs] by simp
qed

lemma table_entry:
  assumes "distinct (map fst xs)" and "map_of xs = R" and "T = table_of (map (Pair b) (map row_of xs))"
  shows "case T (b', i) of
      None \<Rightarrow> \<not> (b' = b \<and> in_lan i \<and> (\<exists>ip. conns_of R i ip \<noteq> {}))
    | Some info \<Rightarrow> b' = b \<and> in_lan i \<and> (\<exists>ip. conns_of R i ip \<noteq> {}) \<and> host_entry R i info"
proof -
  let ?rs = "filter (\<lambda>r. inner_ip r = i) (map row_of xs)"
  have h: "host_rows (b', i) (map (Pair b) (map row_of xs)) = (if b' = b then ?rs else [])"
    by (induction xs) (auto simp: host_rows_def)
  have "(\<exists>ip. conns_of R i ip \<noteq> {}) \<longleftrightarrow> ?rs \<noteq> []"
    unfolding conns_of_rows [OF assms(2)] by (metis empty_iff empty_set ex_in_conv imageI image_empty list.set_intros(1) neq_Nil_conv)
  with grouped_entry [OF assms(1,2), of i] show ?thesis
    unfolding assms(3) table_of_def h by simp
qed

subsection \<open>The receiver's requests\<close>

lemma split_retrieve:
  assumes "dev \<noteq> []" and "list_all is_digit dev"
  shows "py_split (''r '' @ dev) = [''r'', dev]"
proof -
  have c: "\<not> is_space c" if "c \<in> set dev" for c
    using assms(2) that digit_not_space [of c] by (simp add: list_all_iff)
  have "is_space CHR '' ''" by (simp add: is_space_def)
  with c have s: "CHR '' '' \<notin> set dev" by blast
  have "map (\<lambda>c. if is_space c then CHR '' '' else c) dev = dev"
    by (rule map_idI) (use c in simp)
  then have "py_split (''r '' @ dev) = tokens CHR '' '' (join_with CHR '' '' [''r'', dev])"
    by (simp add: py_split_def is_space_def)
  also have "\<dots> = [''r'', dev]" by (rule tokens_join) (use assms(1) s in simp)
  finally show ?thesis .
qed

lemma boot_subscribed:
  assumes "boot e argv = Ok (dlt, w)" and "o_connect e"
  shows "set (subscribed (mqtt_client w)) = {BROADCST, RETRIEVE @ o_device e}"
proof -
  obtain s m where "configure_here e argv = Ok s"
    and m: "init_MQTT (o_abi e) (o_device e) (o_connect e) (o_mqtt_time e) mqtt_initial = Some m"
      "w = start (o_history_time e) (Options.opts s) (Options.ports s) (ifhost w) m"
    by (rule boot_Ok [OF assms(1)])
  have w: "mqtt_client w = m" by (subst m(2)) simp
  have "subscribed m = [BROADCST, RETRIEVE @ o_device e]"
    using m(1) assms(2) by (auto simp: init_MQTT_def construct_topic_def topic_into_def connect_and_subscribe_def
        mqtt_initial_def bind_eq_Some_conv split: if_splits)
  with w show ?thesis by simp
qed

subsection \<open>Properties\<close>

text \<open>What the receiver's table holds after a report: for the box that sent it and each address of the
  local network that has reported connections, the entry of that address; nothing else.\<close>

definition table_holds :: "int \<Rightarrow> (addr_pair \<rightharpoonup> history_type) \<Rightarrow> py_table \<Rightarrow> bool" where
  "table_holds b R T \<longleftrightarrow> (\<forall>b' i. case T (b', i) of
      None \<Rightarrow> \<not> (b' = b \<and> in_lan i \<and> (\<exists>ip. conns_of R i ip \<noteq> {}))
    | Some info \<Rightarrow> b' = b \<and> in_lan i \<and> (\<exists>ip. conns_of R i ip \<noteq> {}) \<and> host_entry R i info)"

lemma published_topic:
  assumes "boot e argv = Ok (dlt, w)" and "prog_run es \<lparr>globals = w, pc = Waiting\<rparr> = Some p"
  shows "my_send_topic (mqtt_client (globals p)) = SEND_TOPIC @ o_device e"
  using boot_topics(1) [OF assms(1)] run_topics [OF assms(2)] by (simp add: same_topics_def)


text \<open>A packet from 172.16.0.5 port 8080 to 8.8.8.8 port 50000, and its connection.\<close>

definition lan_packet :: "byte list" where
  "lan_packet = [0x45, 0, 0, 100, 0, 0, 0, 0, 64, 17, 0, 0, 172, 16, 0, 5, 8, 8, 8, 8, 0x1F, 0x90, 0xC3, 0x50]"

definition lan_hdr :: ip_hdr where
  "lan_hdr = \<lparr>h_p = 17, h_src = 0x050010AC, h_dst = 0x08080808, h_sport = 8080, h_dport = 50000\<rparr>"

definition lan_pair :: addr_pair where
  "lan_pair = \<lparr>protocol = 17, src_port = 50000, src = 0x08080808, dst_port = 8080, dst = 0x050010AC\<rparr>"

lemma decode_lan_packet: "decode_ip lan_packet = Some lan_hdr"
  by code_simp

lemma lan_first: "first_of_conn lan_packet lan_pair"
proof -
  have "case configure 32 0 (\<lambda>s. None) (\<lambda>s. None) (\<lambda>s. True) (Some [''eth0'']) None 0 (\<lambda>p. None) None [''iftop''] of Ok s \<Rightarrow>
     packet_key (Options.opts s) no_host (Options.ports s) 0 lan_packet (-1) = Some (Some (lan_pair, 0)) \<and>
     duration (Options.opts s) = 0 \<and> threshold (Options.opts s) = 0 | _ \<Rightarrow> False"
    by code_simp
  moreover have "total_length lan_packet = 100" by code_simp
  moreover have "h_src lan_hdr \<noteq> src lan_pair" by (simp add: lan_hdr_def lan_pair_def)
  ultimately show ?thesis unfolding first_of_conn_def using decode_lan_packet by blast
qed

lemma lan_pair_addresses: "uint (ntohl (src lan_pair)) = 0x08080808" "uint (ntohl (dst lan_pair)) = 0xAC100005"
  by code_simp+

lemma lan_conns: "conns_of [lan_pair \<mapsto> d] 0xAC100005 ip = (if ip = 0x08080808 then {lan_pair} else {})"
  by (auto simp: conns_of_def lan_pair_addresses)

lemma distinct_singleton:
  assumes "distinct xs" and "set xs = {a}"
  shows "xs = [a]"
proof (cases xs)
  case (Cons x ys)
  then have "ys = []" using assms by (cases ys) auto
  with Cons assms show ?thesis by simp
qed (use assms in simp)


text \<open>With a net filter the program puts the address inside the network first.\<close>

lemma filtered_key:
  assumes "netfilter os \<noteq> 0" and "event_conn os hst pl ev = Some (k, d)"
  shows "in_filter_net os (src k) \<and> \<not> in_filter_net os (dst k)"
  using assms by (cases ev)
    (auto simp: event_conn_def key_spec_def direction_spec_def net_spec_def ports_spec_def forward_key_def opt_simps
      bind_eq_Some_conv split: if_splits)

definition task_key :: "task \<Rightarrow> addr_pair set" where
  "task_key t = (case t of Ready \<Rightarrow> {} | Find _ _ k _ \<Rightarrow> {k} | Count _ _ k _ \<Rightarrow> {k})"

definition mon_keys :: "monitor \<Rightarrow> addr_pair set" where
  "mon_keys s = dom (conns s) \<union> task_key (task s)"

lemma tick_keys: "mon_keys (mon_tick os send t s) \<subseteq> mon_keys s"
  by (auto simp: mon_keys_def mon_tick_def bind_eq_Some_conv)

lemma step_keys:
  assumes "k \<in> mon_keys (mon_step os hst pl e s)"
  shows "k \<in> mon_keys s \<or> (\<exists>ev d. event_conn os hst pl ev = Some (k, d))"
proof (cases e)
  case (Packet env iptr dir)
  let ?s = "mon_tick os 0 (e_time env) s"
  have "k \<in> mon_keys s \<or> k \<in> mon_keys ?s \<or> (\<exists>ev d. event_conn os hst pl ev = Some (k, d))"
  proof (cases "task s = Ready")
    case True
    then show ?thesis using assms Packet
      by (cases "event_conn os hst pl (env, iptr, dir)") (auto simp: mon_keys_def mon_tick_def task_key_def)
  qed (use assms Packet in simp)
  then show ?thesis using tick_keys by blast
next
  case Capture
  then show ?thesis using assms
    by (auto simp: mon_keys_def task_key_def mon_count_def split: task.splits)
next
  case (Key env c)
  then show ?thesis using assms tick_keys [of os 0 "e_time env" s] by (auto split: if_splits)
next
  case (Request env)
  then show ?thesis using assms tick_keys [of os 1 "e_time env" s] by auto
qed (use assms in simp)

lemma fold_keys:
  "k \<in> mon_keys (fold (mon_step os hst pl) es s) \<Longrightarrow> k \<in> mon_keys s \<or> (\<exists>ev d. event_conn os hst pl ev = Some (k, d))"
proof (induction es arbitrary: s)
  case (Cons e es)
  then show ?case using step_keys by fastforce
qed simp

lemma start_keys: "mon_keys (mon_start t) = {}"
  by (simp add: mon_keys_def mon_start_def task_key_def)

lemma outside_rows_dropped:
  "(\<And>r. r \<in> set rs \<Longrightarrow> \<not> in_lan (inner_ip r)) \<Longrightarrow> fold (save_row port b) rs T = T"
  by (induction rs) (simp_all add: save_row_def)

text \<open>C21. The net filter hides the hosts from the receiver. With a filter network (\<open>-F\<close>) that contains the
  receiver's 172.16.0.0/16, the program keys every connection with the address inside the network as
  its source, while the receiver takes the destination for the inside address: whatever was
  captured, the receiver unpacks every row of the message and then drops it, and its table
  stays as it was.\<close>

theorem net_filter_hides_hosts:
  assumes "netfilter os \<noteq> 0" and "\<And>a. in_lan (uint (ntohl a)) \<Longrightarrow> in_filter_net os a"
    and "distinct (map fst xs)" and "map_of xs = reported (fold (mon_step os hst pl) es (mon_start t))"
    and "\<And>k d. map_of xs k = Some d \<Longrightarrow> times_fit d"
  shows "save_data_rows (message ilp32 xs) = Some (map row_of xs) \<and>
    save_data port b (message ilp32 xs) T = (T, False)"
proof -
  have r: "reported s k = Some d \<Longrightarrow> k \<in> mon_keys s \<and> approval d \<noteq> 0" for s k d
    by (auto simp: reported_def mon_keys_def approved_conn_def bind_eq_Some_conv split: if_splits)
  have m: "map_of xs k = Some d" if "(k, d) \<in> set xs" for k d using map_of_is_SomeI [OF assms(3) that] .
  have "approved xs = xs" unfolding approved_def
    by (rule filter_True) (use m r assms(4) in \<open>fastforce\<close>)
  with save_data_message [of xs] m assms(5) have rows: "save_data_rows (message ilp32 xs) = Some (map row_of xs)" by auto
  have "\<not> in_lan (inner_ip (row_of (k, d)))" if "(k, d) \<in> set xs" for k d
  proof -
    from m [OF that] assms(4) have "reported (fold (mon_step os hst pl) es (mon_start t)) k = Some d" by simp
    with r fold_keys [of k os hst pl es "mon_start t"] start_keys obtain ev dir where "event_conn os hst pl ev = Some (k, dir)"
      by blast
    from filtered_key [OF assms(1) this] assms(2) show ?thesis by (auto simp: row_of_def)
  qed
  then have "fold (save_row port b) (map row_of xs) T = T" by (intro outside_rows_dropped) auto
  with save_data_fold [OF rows, of port b T] rows show ?thesis by simp
qed

text \<open>A filter on 172.16.0.0/16 itself, and the connection of the packet under it.\<close>

definition lan_options :: options_t where
  "lan_options = udp_options\<lparr>netfilter := 1, netfilternet := 0x000010AC, netfiltermask := 0x0000FFFF,
     duration := 0, threshold := 0\<rparr>"

definition lan_out :: addr_pair where
  "lan_out = \<lparr>protocol = 17, src_port = 8080, src = 0x050010AC, dst_port = 0, dst = 0x08080808\<rparr>"

definition lan_rec :: history_type where
  "lan_rec = history_empty\<lparr>total_sent := 100, create_time := 5, last_update_time := 5, approval := 1\<rparr>"

lemma lan_net:
  assumes "in_lan (uint (ntohl a))"
  shows "a AND 0xFFFF = 0x10AC"
proof -
  let ?b = "ntohl a" 
  have m: "(0xFFFF :: u32) = mask 16" "(0xFF00 :: u32) = push_bit 8 (mask 8)" "(0xFF0000 :: u32) = push_bit 16 (mask 8)"
      "(0xFFFF0000 :: u32) = push_bit 16 (mask 16)"
    by (simp_all add: mask_eq_exp_minus_1 push_bit_eq_mult)
  have "uint (?b AND 0xFFFF0000) = uint (0xAC100000 :: u32)"
    using assms by (simp add: in_lan_def uint_and)
  then have B: "?b AND 0xFFFF0000 = 0xAC100000" by (simp only: word_uint_eq_iff)
  have "a AND 0xFFFF = drop_bit 24 ?b OR (drop_bit 8 ?b AND 0xFF00)"
    unfolding ntohl_def m by (rule bit_word_eqI) (auto simp: bit_simps)
  also have "\<dots> = drop_bit 24 (?b AND 0xFFFF0000) OR (drop_bit 8 (?b AND 0xFFFF0000) AND 0xFF00)"
    unfolding m by (rule bit_word_eqI) (auto simp: bit_simps dest: bit_imp_le_length)
  also have "\<dots> = 0x10AC" unfolding B by simp
  finally show ?thesis .
qed
lemma lan_out_conn: "event_conn lan_options no_host udp_ports (first_env, lan_packet, -1) = Some (lan_out, 1)"
proof -
  have "lists_ok lan_options udp_ports 0" using udp_lists_ok(1) by (simp add: lists_ok_def lan_options_def)
  moreover have "packet_key lan_options no_host udp_ports 0 lan_packet (-1) = Some (Some (lan_out, 1))" by code_simp
  ultimately have "key_spec lan_options no_host udp_ports 0 lan_hdr (-1) = Some (lan_out, 1)"
    using packet_key_spec [OF _ decode_lan_packet, of lan_options udp_ports 0 no_host "-1"] by simp
  then show ?thesis by (simp add: event_conn_def decode_lan_packet)
qed

lemma lan_out_reported:
  "reported (fold (mon_step lan_options no_host udp_ports) (first_events lan_packet @ [Request sample_env]) (mon_start 5)) =
     [lan_out \<mapsto> lan_rec]"
proof -
  have s: "ip_src lan_packet = Some (src lan_out)" using decode_fields(2) [OF decode_lan_packet]
    by (simp add: lan_hdr_def lan_out_def)
  have l: "total_length lan_packet = 100" by code_simp
  have o: "duration lan_options = 0" "threshold lan_options = 0" by (simp_all add: lan_options_def)
  have "fold (mon_step lan_options no_host udp_ports) (first_events lan_packet) (mon_start 5) =
    \<lparr>conns = [lan_out \<mapsto> lan_rec\<lparr>approval := 0\<rparr>], rotated = 5, totals = history_empty\<lparr>total_sent := 100\<rparr>, task = Ready\<rparr>"
    using s l by (simp add: first_events_def mon_start_def mon_tick_def RESOLUTION_def mon_count_def
        fresh_conn_def count_packet_def add_totals_def lan_rec_def history_empty_def lan_out_conn)
  then show ?thesis using o by (simp add: reported_def mon_tick_def fun_eq_iff rotate_conn_def is_short_connection_def
      is_low_traffic_connection_def satisfies_criteria_def approved_conn_def lan_rec_def history_empty_def)
qed

theorem net_filter_hides_hosts_witness:
  "\<exists>xs. xs \<noteq> [] \<and>
     map_of xs = reported (fold (mon_step lan_options no_host udp_ports) (first_events lan_packet @ [Request sample_env])
       (mon_start 5)) \<and>
     save_data_rows (message ilp32 xs) = Some (map row_of xs) \<and>
     save_data False 42 (message ilp32 xs) Map.empty = (Map.empty, False)"
proof -
  let ?xs = "[(lan_out, lan_rec)]"
  have R: "map_of ?xs = reported (fold (mon_step lan_options no_host udp_ports)
      (first_events lan_packet @ [Request sample_env]) (mon_start 5))"
    unfolding lan_out_reported by simp
  have t: "times_fit d" if "map_of ?xs k = Some d" for k d
    using that by (auto simp: times_fit_def lan_rec_def history_empty_def split: if_splits)
  have f: "netfilter lan_options \<noteq> 0" "in_filter_net lan_options a" if "in_lan (uint (ntohl a))" for a
    using lan_net [OF that] by (simp_all add: lan_options_def in_filter_net_def)
  have n: "netfilter lan_options \<noteq> 0" by (simp add: lan_options_def)
  have "save_data_rows (message ilp32 ?xs) = Some (map row_of ?xs) \<and>
     save_data False 42 (message ilp32 ?xs) Map.empty = (Map.empty, False)"
    by (rule net_filter_hides_hosts [OF n f(2) _ R]) (assumption, simp, rule t)
  with R show ?thesis by blast
qed

text \<open>C19. A request reaches its box. After a start with a connection to the broker, the client has
  subscribed to exactly the topics to which the receiver's commands publish for this box: \<open>b\<close> for all
  boxes, \<open>r\<close> with the identifier of the box (of decimal digits) for one. Either command empties the receiver's table
  before it publishes, so that the answer is counted from an empty one.\<close>

theorem commands_reach_box:
  assumes "boot e argv = Ok (dlt, w)" and "o_connect e" and "o_device e \<noteq> []" and "list_all is_digit (o_device e)"
  shows "\<exists>s1 s2 t1 t2. command ''b'' s = Some s1 \<and> command (''r '' @ o_device e) s = Some s2 \<and>
     posts s1 = posts s @ [(t1, ''broadcast'')] \<and> posts s2 = posts s @ [(t2, ''retrieve'')] \<and>
     set (subscribed (mqtt_client w)) = {t1, t2} \<and> py_table s1 = Map.empty \<and> py_table s2 = Map.empty"
  unfolding boot_subscribed [OF assms(1,2)]
  by (simp add: command_def split_retrieve [OF assms(3,4), simplified] clear_history_def BROADCST_def RETRIEVE_def)

theorem commands_reach_box_witness:
  "\<exists>w s. boot plain_outside [''iftop''] = Ok (DLT_EN10MB, w) \<and> command ''r 42'' idle_receiver = Some s \<and>
     (''NWSTAT/RETV/42'', ''retrieve'') \<in> set (posts s) \<and> ''NWSTAT/RETV/42'' \<in> set (subscribed (mqtt_client w))"
proof -
  obtain w where w: "boot plain_outside [''iftop''] = Ok (DLT_EN10MB, w)" by (rule plain_booted [OF lan_first])
  have dev: "o_device plain_outside = ''42''" "o_connect plain_outside" by (simp_all add: plain_outside_def sample_outside_def)
  have d: "''42'' \<noteq> ''''" "list_all is_digit ''42''" by code_simp+
  from commands_reach_box [OF w dev(2) d [folded dev(1)], of idle_receiver]
  obtain s2 t2 where c: "command ''r 42'' idle_receiver = Some s2" "posts s2 = [(t2, ''retrieve'')]"
      "t2 \<in> set (subscribed (mqtt_client w))"
    unfolding dev(1) by (auto simp: idle_receiver_def)
  from boot_subscribed [OF w dev(2)] c(3) have "t2 = ''NWSTAT/BROADCAST'' \<or> t2 = ''NWSTAT/RETV/42''"
    unfolding dev(1) by (auto simp: BROADCST_def RETRIEVE_def)
  moreover have "posts s2 = [(''NWSTAT/RETV/42'', ''retrieve'')]"
    using c(1) split_retrieve [OF d] by (auto simp: command_def idle_receiver_def clear_history_def)
  ultimately show ?thesis using w c by (intro exI [of _ w] exI [of _ s2]) simp
qed

end
