(* ===== verification/IpLocator.thy ===== *)
theory IpLocator
  imports CString IftopApi
begin

text \<open>
  The class \<open>IPLocator\<close> of Python_Client/mqtt_client.py, which looks up the place of an address in a
  file of the qqwry format: an index of 7-byte entries, sorted by the first address of a range, each
  with the offset of a record that holds the last address and two texts, which may be shared. The
  file is a list of bytes, the position of the next read is passed along, and a read that does not get its
  bytes (\<open>struct.error\<close>) is \<open>None\<close>.
\<close>

subsection \<open>Reading the file\<close>

definition get_uint :: "byte list \<Rightarrow> nat \<Rightarrow> nat \<Rightarrow> int option" where
  "get_uint db pos n = map_option le_value (get_bytes db pos n)"

fun read_string :: "byte list \<Rightarrow> byte list option" where
  "read_string [] = None"
| "read_string (b # bs) = (if b \<noteq> 0 then map_option ((#) b) (read_string bs) else Some [])"

text \<open>An offset of 0 means the current position.\<close>

definition seek_to :: "nat \<Rightarrow> nat \<Rightarrow> nat" where
  "seek_to offset pos = (if offset \<noteq> 0 then offset else pos)"

definition getString :: "byte list \<Rightarrow> nat \<Rightarrow> nat \<Rightarrow> (byte list \<times> nat) option" where
  "getString db offset pos =
     (let pos = seek_to offset pos
      in map_option (\<lambda>s. (s, pos + length s + 1)) (read_string (drop pos db)))"

text \<open>\<open>struct.unpack('HB', ...)\<close>, at the current position.\<close>

definition getLong3 :: "byte list \<Rightarrow> nat \<Rightarrow> (nat \<times> nat) option" where
  "getLong3 db pos = do {
     a \<leftarrow> get_uint db pos 2;
     b \<leftarrow> get_uint db (pos + 2) 1;
     Some (nat (push_bit 16 b + a), pos + 3)
   }"

definition getAreaAddr :: "byte list \<Rightarrow> nat \<Rightarrow> nat \<Rightarrow> (byte list \<times> nat) option" where
  "getAreaAddr db offset pos =
     (let pos = seek_to offset pos
      in do {
        byte \<leftarrow> get8 db pos;
        if byte = 1 \<or> byte = 2 then do {
          (p, pos) \<leftarrow> getLong3 db (pos + 1);
          if p \<noteq> 0 then getString db p pos else Some ([], pos) }
        else getString db offset pos })"

definition getAddr :: "byte list \<Rightarrow> nat \<Rightarrow> byte list option" where
  "getAddr db offset = do {
     byte \<leftarrow> get8 db (offset + 4);
     (country, area) \<leftarrow>
       (if byte = 1 then do {
          (countryOffset, pos) \<leftarrow> getLong3 db (offset + 5);
          b \<leftarrow> get8 db countryOffset;
          (country, pos) \<leftarrow>
            (if b = 2 then do {
               (p, pos) \<leftarrow> getLong3 db (countryOffset + 1);
               (country, pos) \<leftarrow> getString db p pos;
               Some (country, countryOffset + 4) }
             else getString db countryOffset (countryOffset + 1));
          (area, pos) \<leftarrow> getAreaAddr db 0 pos;
          Some (country, area) }
        else if byte = 2 then do {
          (p, pos) \<leftarrow> getLong3 db (offset + 5);
          (country, pos) \<leftarrow> getString db p pos;
          (area, pos) \<leftarrow> getAreaAddr db (offset + 8) pos;
          Some (country, area) }
        else do {
          (country, pos) \<leftarrow> getString db (offset + 4) (offset + 5);
          (area, pos) \<leftarrow> getAreaAddr db 0 pos;
          Some (country, area) });
     Some (country @ [0x20] @ area)
   }"

subsection \<open>The index\<close>

record locator =
  ipdb :: "byte list"
  firstIndex :: int
  lastIndex :: int
  indexCount :: int

text \<open>\<open>__init__\<close>, without the version it prints.\<close>

definition open_locator :: "byte list \<Rightarrow> locator option" where
  "open_locator db = do {
     f \<leftarrow> get_uint db 0 4;
     l \<leftarrow> get_uint db 4 4;
     Some \<lparr>ipdb = db, firstIndex = f, lastIndex = l, indexCount = (l - f) div 7 + 1\<rparr>
   }"

text \<open>\<open>setIpRange\<close>: the first address, the offset of the record and the last address of an entry. A
  negative offset cannot be sought.\<close>

definition setIpRange :: "locator \<Rightarrow> int \<Rightarrow> (int \<times> nat \<times> int) option" where
  "setIpRange c index =
     (let offset = firstIndex c + index * 7
      in if offset < 0 then None
         else do {
           start \<leftarrow> get_uint (ipdb c) (nat offset) 4;
           of1 \<leftarrow> get_uint (ipdb c) (nat offset + 4) 2;
           of2 \<leftarrow> get_uint (ipdb c) (nat offset + 6) 1;
           let endOffset = nat (of1 + push_bit 16 of2);
           fin \<leftarrow> get_uint (ipdb c) endOffset 4;
           Some (start, endOffset, fin) })"

function search :: "locator \<Rightarrow> int \<Rightarrow> int \<Rightarrow> int \<Rightarrow> (int \<times> int) option" where
  "search c ip L R =
     (if L < R - 1 then
        (let M = (L + R) div 2
         in case setIpRange c M of
              None \<Rightarrow> None
            | Some (start, off, fin) \<Rightarrow>
                (if ip = start then Some (M, R) else if ip > start then search c ip M R else search c ip L M))
      else Some (L, R))"
  by pat_completeness auto
termination by (relation "measure (\<lambda>(c, ip, L, R). nat (R - L))") auto

declare search.simps [simp del]

text \<open>The range at which \<open>getIpAddr\<close> stops: \<open>curStartIp\<close>, \<open>curEndIpOffset\<close> and \<open>curEndIp\<close>.\<close>

definition cur_range :: "locator \<Rightarrow> int \<Rightarrow> (int \<times> nat \<times> int) option" where
  "cur_range c ip = do {
     (L, R) \<leftarrow> search c ip 0 (indexCount c - 1);
     range \<leftarrow> setIpRange c L;
     (if ip AND 0xFFFFFF00 = 0xFFFFFF00 then setIpRange c R else Some range)
   }"

text \<open>\<open>getIpAddr\<close> up to the decoding of the text (\<open>gbk\<close>, a parameter that may raise); an inner \<open>None\<close>
  is the text for an address that is not found.\<close>

definition getIpAddr :: "(byte list \<Rightarrow> string option) \<Rightarrow> locator \<Rightarrow> int \<Rightarrow> string option option" where
  "getIpAddr gbk c ip = do {
     (start, off, fin) \<leftarrow> cur_range c ip;
     if start \<le> ip \<and> ip \<le> fin then do {
       address \<leftarrow> getAddr (ipdb c) off;
       text \<leftarrow> gbk address;
       Some (Some text) }
     else Some None
   }"

definition ip2str :: "int \<Rightarrow> string" where
  "ip2str ip = show_nat (nat (drop_bit 24 ip)) @ ''.'' @ show_nat (nat (drop_bit 16 ip AND 0xFF)) @ ''.'' @
     show_nat (nat (drop_bit 8 ip AND 0xFF)) @ ''.'' @ show_nat (nat (ip AND 0xFF))"

definition getIpRange :: "(byte list \<Rightarrow> string option) \<Rightarrow> locator \<Rightarrow> int \<Rightarrow> string option" where
  "getIpRange gbk c ip = do {
     _ \<leftarrow> getIpAddr gbk c ip;
     (start, off, fin) \<leftarrow> cur_range c ip;
     Some (ip2str start @ '' - '' @ ip2str fin)
   }"

subsection \<open>The search is a linear search\<close>

text \<open>An index that can be read, with disjoint ranges in ascending order.\<close>

definition index_ok :: "locator \<Rightarrow> (int \<times> nat \<times> int) list \<Rightarrow> bool" where
  "index_ok c es \<longleftrightarrow> int (length es) = indexCount c \<and> (\<forall>i < length es. setIpRange c (int i) = Some (es ! i)) \<and>
     sorted_wrt (\<lambda>(s, _, e) (s', _, e'). s < s' \<and> e < s') es"

lemma index_sorted:
  "index_ok c es \<Longrightarrow> i < j \<Longrightarrow> j < length es \<Longrightarrow> fst (es ! i) < fst (es ! j) \<and> snd (snd (es ! i)) < fst (es ! j)"
  unfolding index_ok_def by (auto dest: sorted_wrt_nth_less split: prod.splits)

lemma index_read: "index_ok c es \<Longrightarrow> i < length es \<Longrightarrow> setIpRange c (int i) = Some (es ! i)"
  by (simp add: index_ok_def)

text \<open>The loop keeps the first address below one bound and, unless the other bound is the last entry, below the
  start of the other.\<close>

lemma search_spec:
  assumes "index_ok c es" and "r < length es" and "l < r"
    and "l = 0 \<or> fst (es ! l) \<le> ip" and "r = length es - 1 \<or> ip < fst (es ! r)"
  shows "\<exists>m r'. search c ip (int l) (int r) = Some (int m, r') \<and> m < length es - 1 \<and>
     (m = 0 \<or> fst (es ! m) \<le> ip) \<and> (m + 1 = length es - 1 \<or> ip < fst (es ! (m + 1)))"
  using assms(2-5)
proof (induction "r - l" arbitrary: l r rule: less_induct)
  case less
  show ?case
  proof (cases "int l < int r - 1")
    case False
    with less.prems have "r = l + 1" by linarith
    with less.prems False show ?thesis by (subst search.simps) auto
  next
    case True
    let ?m = "(l + r) div 2"
    have m: "l < ?m" "?m < r" "(int l + int r) div 2 = int ?m" using True by (simp_all add: zdiv_int)
    obtain s off e where e: "es ! ?m = (s, off, e)" by (cases "es ! ?m")
    have rd: "setIpRange c (int ?m) = Some (s, off, e)" using index_read [OF assms(1), of ?m] m less.prems(1) e by simp
    note step = search.simps [of c ip "int l" "int r"]
    consider "ip = s" | "s < ip" | "ip < s" by linarith
    then show ?thesis
    proof cases
      case 1
      have "?m + 1 = length es - 1 \<or> ip < fst (es ! (?m + 1))"
        using index_sorted [OF assms(1), of ?m "?m + 1"] 1 e m less.prems(1) by auto
      with 1 e m less.prems(1) True rd show ?thesis unfolding step m(3) by auto
    next
      case 2
      from less.hyps [of r ?m] m less.prems 2 e True rd show ?thesis unfolding step m(3) by auto
    next
      case 3
      from less.hyps [of ?m l] m less.prems 3 e True rd show ?thesis unfolding step m(3) by auto
    qed
  qed
qed

text \<open>The reference: the first entry but the last whose range contains the address.\<close>

definition range_of :: "(int \<times> nat \<times> int) list \<Rightarrow> int \<Rightarrow> (int \<times> nat \<times> int) option" where
  "range_of es ip = find (\<lambda>(s, _, e). s \<le> ip \<and> ip \<le> e) (butlast es)"

lemma range_of_at:
  assumes "index_ok c es" and "m < length es - 1" and "m = 0 \<or> fst (es ! m) \<le> ip"
    and "m + 1 = length es - 1 \<or> ip < fst (es ! (m + 1))"
  shows "range_of es ip = (case es ! m of (s, off, e) \<Rightarrow> if s \<le> ip \<and> ip \<le> e then Some (s, off, e) else None)"
proof -
  obtain s off e where m: "es ! m = (s, off, e)" by (cases "es ! m")
  have other: "\<not> (fst (es ! i) \<le> ip \<and> ip \<le> snd (snd (es ! i)))" if "i < length es - 1" "i \<noteq> m" for i
  proof (cases "i < m")
    case True
    moreover have "m < length es" using assms(2) by simp
    ultimately show ?thesis using index_sorted [OF assms(1) True] assms(3) by auto
  next
    case False
    with that have i: "m < i" by simp
    then have "m + 1 \<noteq> length es - 1" using that(1) by simp
    with assms(4) have "ip < fst (es ! (m + 1))" by simp
    moreover have "fst (es ! (m + 1)) \<le> fst (es ! i)"
    proof (cases "m + 1 = i")
      case False
      then have "m + 1 < i" "i < length es" using i that(1) by simp_all
      from index_sorted [OF assms(1) this] show ?thesis by simp
    qed simp
    ultimately show ?thesis by simp
  qed
  have b: "butlast es ! i = es ! i" if "i < length es - 1" for i using that by (simp add: nth_butlast)
  show ?thesis
  proof (cases "s \<le> ip \<and> ip \<le> e")
    case True
    have "find (\<lambda>(s, _, e). s \<le> ip \<and> ip \<le> e) (butlast es) = Some (s, off, e)"
      unfolding find_Some_iff using True m assms(2) b other
      by (intro exI [of _ m]) (auto simp: split_beta)
    with True m show ?thesis by (simp add: range_of_def)
  next
    case False
    have no: "\<not> (fst (es ! i) \<le> ip \<and> ip \<le> snd (snd (es ! i)))" if "i < length es - 1" for i
      using that other [of i] False m by (cases "i = m") simp_all
    have "\<not> (case x of (s, _, e) \<Rightarrow> s \<le> ip \<and> ip \<le> e)" if x: "x \<in> set (butlast es)" for x
    proof -
      obtain i where "i < length es - 1" "x = es ! i" using x b unfolding in_set_conv_nth by auto
      with no [of i] show ?thesis by (simp add: split_beta)
    qed
    then have "find (\<lambda>(s, _, e). s \<le> ip \<and> ip \<le> e) (butlast es) = None" by (auto simp: find_None_iff)
    with False m show ?thesis by (auto simp: range_of_def)
  qed
qed

subsection \<open>Properties\<close>

text \<open>C22. The lookup of a place. On an index of at least two disjoint ranges in ascending order the binary
  search ends and finds what a linear search over all entries but the last finds: the text of the
  range that contains the address, or that there is none. The last entry is only used for the
  addresses 255.255.255.x, which hold the version of the file.\<close>

theorem place_lookup:
  assumes "index_ok c es" and "2 \<le> length es" and "ip AND 0xFFFFFF00 \<noteq> 0xFFFFFF00"
  shows "getIpAddr gbk c ip = (case range_of es ip of
      None \<Rightarrow> Some None
    | Some (s, off, e) \<Rightarrow> Option.bind (getAddr (ipdb c) off) (\<lambda>address. map_option Some (gbk address)))"
proof -
  have n: "indexCount c - 1 = int (length es - 1)" using assms(1,2) by (simp add: index_ok_def)
  obtain m r where m: "search c ip 0 (indexCount c - 1) = Some (int m, r)" "m < length es - 1"
      "m = 0 \<or> fst (es ! m) \<le> ip" "m + 1 = length es - 1 \<or> ip < fst (es ! (m + 1))"
  proof -
    have "length es - 1 < length es" "0 < length es - 1" using assms(2) by simp_all
    then obtain m r where "search c ip (int 0) (int (length es - 1)) = Some (int m, r)" "m < length es - 1"
        "m = 0 \<or> fst (es ! m) \<le> ip" "m + 1 = length es - 1 \<or> ip < fst (es ! (m + 1))"
      using search_spec [OF assms(1), of "length es - 1" 0 ip] by blast
    then show thesis using that [of m r] by (simp add: n)
  qed
  obtain s off e where e: "es ! m = (s, off, e)" by (cases "es ! m")
  have tx: "Option.bind x (\<lambda>t. Some (Some t)) = map_option Some x" for x :: "string option" by (cases x) simp_all
  have "setIpRange c (int m) = Some (s, off, e)" using index_read [OF assms(1), of m] m(2) e by simp
  with m(1) assms(3) range_of_at [OF assms(1) m(2-4)] e show ?thesis
    by (auto simp: getIpAddr_def cur_range_def tx)
qed

text \<open>A file with three ranges: the second takes its country from the record of the first, the last is
  the version.\<close>

definition sample_db :: "byte list" where
  "sample_db =
     [34, 0, 0, 0, 48, 0, 0, 0] @
     [9, 0, 0, 1, 88, 0, 89, 0] @
     [255, 255, 0, 1, 2, 12, 0, 0, 90, 0] @
     [255, 255, 255, 255, 86, 0, 49, 0] @
     [0, 0, 0, 1, 8, 0, 0] @ [0, 128, 0, 1, 16, 0, 0] @ [0, 255, 255, 255, 26, 0, 0]"

definition sample_locator :: locator where
  "sample_locator = \<lparr>ipdb = sample_db, firstIndex = 34, lastIndex = 48, indexCount = 3\<rparr>"

definition latin1 :: "byte list \<Rightarrow> string option" where
  "latin1 bs = Some (map (\<lambda>b. char_of (unat b)) bs)"

lemma sample_locator_open: "open_locator sample_db = Some sample_locator"
  by code_simp

lemma sample_range: "getIpRange latin1 sample_locator 0x01009000 = Some ''1.0.128.0 - 1.0.255.255''"
  by code_simp

theorem place_lookup_witness:
  "getIpAddr latin1 sample_locator 0x01009000 = Some (Some ''X Z'') \<and>
   getIpAddr latin1 sample_locator 0x01000010 = Some None"
proof -
  let ?es = "[(0x01000000, 8, 0x01000009), (0x01008000, 16, 0x0100FFFF), (0xFFFFFF00, 26, 0xFFFFFFFF)] :: (int \<times> nat \<times> int) list"
  have "list_all (\<lambda>i. setIpRange sample_locator (int i) = Some (?es ! i)) [0, 1, 2]" by code_simp
  then have "setIpRange sample_locator (int i) = Some (?es ! i)" if "i < 3" for i
    using that by (auto simp: numeral_3_eq_3 less_Suc_eq)
  then have ok: "index_ok sample_locator ?es" by (simp add: index_ok_def) (simp add: sample_locator_def)
  have "getAddr (ipdb sample_locator) 16 = Some [88, 32, 90]" by code_simp
  moreover have "(0x01009000 :: int) AND 0xFFFFFF00 \<noteq> 0xFFFFFF00" "(0x01000010 :: int) AND 0xFFFFFF00 \<noteq> 0xFFFFFF00"
    by simp_all
  moreover have "latin1 [88, 32, 90] = Some ''X Z''" by code_simp
  ultimately show ?thesis
    using place_lookup [OF ok, of "0x01009000" latin1]
      place_lookup [OF ok, of "0x01000010" latin1]
    by (simp add: range_of_def)
qed

end
