(* ===== verification/ThreadProf.thy ===== *)
theory ThreadProf
  imports Simulation
begin

text \<open>
  threadprof.c: the wrapper of \<open>pthread_create\<close> that hands the profiling timer of the creator to the
  new thread. The data passed between the two threads lives in the stack frame of the creator, so the
  handshake over its mutex and condition decides whether the new thread reads a live frame. Both
  threads are step functions over the shared frame; a step that touches the frame after the creator
  has returned is a fault. Routines, arguments and timer values are numbers.
\<close>

subsection \<open>The shared frame and the two threads\<close>

datatype owner = Creator | Created

text \<open>\<open>lock\<close> is the holder of the mutex, \<open>wait\<close> tells whether the creator sleeps on the condition.\<close>

record wrapper_t =
  start_routine :: nat
  arg :: nat
  lock :: "owner option"
  wait :: bool
  itimer :: nat

text \<open>Where \<open>gprof_pthread_create\<close> stands: before the call, at the real \<open>pthread_create\<close>, at
  \<open>pthread_cond_wait\<close>, inside it, at the unlock, at the destruction of mutex and condition, returned.\<close>

datatype creator_pc = Setup | Creating | Waiting_call | Asleep | Unlock int | Leave int | Returned int

text \<open>Where \<open>wrapper_routine\<close> stands: not started, at its first line, at \<open>setitimer\<close>, at the lock, at
  the signal, at the unlock, in the real function.\<close>

datatype created_pc = Absent | Start | Timer nat nat | Lock nat nat | Signal nat nat | Release nat nat | Running nat nat

record prof =
  frame :: "wrapper_t option"
  creator :: creator_pc
  created :: created_pc
  creator_timer :: nat
  created_timer :: nat

text \<open>The steps of the creator; \<open>ret\<close> is what the real \<open>pthread_create\<close> returns. A step on a lock or
  a condition that is not ready leaves the state as it is.\<close>

definition in_frame :: "(wrapper_t \<Rightarrow> wrapper_t) \<Rightarrow> prof \<Rightarrow> prof option" where
  "in_frame f s = map_option (\<lambda>w. s\<lparr>frame := Some (f w)\<rparr>) (frame s)"

definition gprof_pthread_create :: "int \<Rightarrow> nat \<Rightarrow> nat \<Rightarrow> prof \<Rightarrow> prof option" where
  "gprof_pthread_create ret routine a s =
     (case creator s of
        Setup \<Rightarrow> Some (s\<lparr>frame := Some \<lparr>start_routine = routine, arg = a, lock = Some Creator, wait = False,
                    itimer = creator_timer s\<rparr>, creator := Creating\<rparr>)
      | Creating \<Rightarrow> Some (if ret = 0 then s\<lparr>created := Start, creator := Waiting_call\<rparr> else s\<lparr>creator := Unlock ret\<rparr>)
      | Waiting_call \<Rightarrow> in_frame (\<lambda>w. w\<lparr>lock := None, wait := True\<rparr>) (s\<lparr>creator := Asleep\<rparr>)
      | Asleep \<Rightarrow> (case frame s of
            None \<Rightarrow> None
          | Some w \<Rightarrow> (if \<not> wait w \<and> lock w = None
              then Some (s\<lparr>frame := Some (w\<lparr>lock := Some Creator\<rparr>), creator := Unlock ret\<rparr>) else Some s))
      | Unlock r \<Rightarrow> in_frame (\<lambda>w. w\<lparr>lock := None\<rparr>) (s\<lparr>creator := Leave r\<rparr>)
      | Leave r \<Rightarrow> Some (s\<lparr>frame := None, creator := Returned r\<rparr>)
      | Returned r \<Rightarrow> Some s)"

definition wrapper_routine :: "prof \<Rightarrow> prof option" where
  "wrapper_routine s =
     (case created s of
        Absent \<Rightarrow> Some s
      | Start \<Rightarrow> map_option (\<lambda>w. s\<lparr>created := Timer (start_routine w) (arg w)\<rparr>) (frame s)
      | Timer f a \<Rightarrow> map_option (\<lambda>w. s\<lparr>created_timer := itimer w, created := Lock f a\<rparr>) (frame s)
      | Lock f a \<Rightarrow> (case frame s of
            None \<Rightarrow> None
          | Some w \<Rightarrow> (if lock w = None then Some (s\<lparr>frame := Some (w\<lparr>lock := Some Created\<rparr>), created := Signal f a\<rparr>)
              else Some s))
      | Signal f a \<Rightarrow> in_frame (\<lambda>w. w\<lparr>wait := False\<rparr>) (s\<lparr>created := Release f a\<rparr>)
      | Release f a \<Rightarrow> in_frame (\<lambda>w. w\<lparr>lock := None\<rparr>) (s\<lparr>created := Running f a\<rparr>)
      | Running f a \<Rightarrow> Some s)"

text \<open>The threads interleave; POSIX also allows a condition to wake a thread that nobody signalled.\<close>

datatype prof_event = CreatorStep | CreatedStep | Spurious

fun prof_step :: "int \<Rightarrow> nat \<Rightarrow> nat \<Rightarrow> prof_event \<Rightarrow> prof \<Rightarrow> prof option" where
  "prof_step ret f a CreatorStep s = gprof_pthread_create ret f a s"
| "prof_step ret f a CreatedStep s = wrapper_routine s"
| "prof_step ret f a Spurious s =
     (if creator s = Asleep then in_frame (\<lambda>w. w\<lparr>wait := False\<rparr>) s else Some s)"

abbreviation prof_steps :: "int \<Rightarrow> nat \<Rightarrow> nat \<Rightarrow> prof_event list \<Rightarrow> prof \<Rightarrow> prof option" where
  "prof_steps ret f a \<equiv> run_events (prof_step ret f a)"

definition prof_start :: "nat \<Rightarrow> nat \<Rightarrow> prof" where
  "prof_start t t' = \<lparr>frame = None, creator = Setup, created = Absent, creator_timer = t, created_timer = t'\<rparr>"

subsection \<open>The invariant of the handshake\<close>

text \<open>What the frame holds, who holds its lock and whether the creator sleeps, for every pair of places
  the two threads can be at.\<close>

definition handshake :: "creator_pc \<Rightarrow> created_pc \<Rightarrow> owner option \<Rightarrow> bool \<Rightarrow> bool" where
  "handshake c d l wt \<longleftrightarrow> (case c of
      Creating \<Rightarrow> d = Absent \<and> l = Some Creator
    | Waiting_call \<Rightarrow> (case d of Start \<Rightarrow> True | Timer _ _ \<Rightarrow> True | Lock _ _ \<Rightarrow> True | _ \<Rightarrow> False) \<and> l = Some Creator
    | Asleep \<Rightarrow> (case d of
          Start \<Rightarrow> wt \<and> l = None | Timer _ _ \<Rightarrow> wt \<and> l = None | Lock _ _ \<Rightarrow> wt \<and> l = None
        | Signal _ _ \<Rightarrow> wt \<and> l = Some Created | Release _ _ \<Rightarrow> \<not> wt \<and> l = Some Created
        | Running _ _ \<Rightarrow> \<not> wt \<and> l = None | Absent \<Rightarrow> False)
    | Unlock r \<Rightarrow> (case d of Absent \<Rightarrow> r \<noteq> 0 | Running _ _ \<Rightarrow> r = 0 | _ \<Rightarrow> False) \<and> l = Some Creator
    | Leave r \<Rightarrow> (case d of Absent \<Rightarrow> r \<noteq> 0 | Running _ _ \<Rightarrow> r = 0 | _ \<Rightarrow> False) \<and> l = None
    | _ \<Rightarrow> False)"

definition passed :: "nat \<Rightarrow> nat \<Rightarrow> nat \<Rightarrow> prof \<Rightarrow> bool" where
  "passed f a t s \<longleftrightarrow> (case created s of
      Absent \<Rightarrow> True | Start \<Rightarrow> True
    | Timer f' a' \<Rightarrow> f' = f \<and> a' = a
    | Lock f' a' \<Rightarrow> f' = f \<and> a' = a \<and> created_timer s = t
    | Signal f' a' \<Rightarrow> f' = f \<and> a' = a \<and> created_timer s = t
    | Release f' a' \<Rightarrow> f' = f \<and> a' = a \<and> created_timer s = t
    | Running f' a' \<Rightarrow> f' = f \<and> a' = a \<and> created_timer s = t)"

definition prof_inv :: "int \<Rightarrow> nat \<Rightarrow> nat \<Rightarrow> nat \<Rightarrow> prof \<Rightarrow> bool" where
  "prof_inv ret f a t s \<longleftrightarrow> creator_timer s = t \<and> passed f a t s \<and>
     (case creator s of
        Setup \<Rightarrow> created s = Absent
      | Returned r \<Rightarrow> r = ret \<and> (case created s of Absent \<Rightarrow> ret \<noteq> 0 | Running _ _ \<Rightarrow> ret = 0 | _ \<Rightarrow> False)
      | c \<Rightarrow> (\<forall>r. c = Unlock r \<or> c = Leave r \<longrightarrow> r = ret) \<and> (created s \<noteq> Absent \<longrightarrow> ret = 0) \<and>
          (\<exists>w. frame s = Some w \<and> start_routine w = f \<and> arg w = a \<and> itimer w = t \<and>
             handshake c (created s) (lock w) (wait w)))"

lemmas prof_inv_defs = prof_inv_def handshake_def passed_def

lemma creator_inv:
  assumes "prof_inv ret f a t s"
  shows "\<exists>s'. gprof_pthread_create ret f a s = Some s' \<and> prof_inv ret f a t s'"
  using assms
  by (cases "creator s"; cases "created s")
    (auto simp: gprof_pthread_create_def in_frame_def prof_inv_defs)

lemma created_inv:
  assumes "prof_inv ret f a t s"
  shows "\<exists>s'. wrapper_routine s = Some s' \<and> prof_inv ret f a t s'"
  using assms
  by (cases "creator s"; cases "created s")
    (auto simp: wrapper_routine_def in_frame_def prof_inv_defs)

interpretation profile: safe_machine "prof_step ret f a" "prof_inv ret f a t" "\<lambda>e s. e \<noteq> Spurious"
  for ret f a t
proof unfold_locales
  fix s e
  assume "prof_inv ret f a t s" "e \<noteq> Spurious"
  then show "\<exists>s'. prof_step ret f a e s = Some s' \<and> prof_inv ret f a t s'"
    using creator_inv [of ret f a t s] created_inv [of ret f a t s] by (cases e) simp_all
qed

lemma prof_steps_inv:
  assumes "Spurious \<notin> set es" and "prof_inv ret f a t s"
  shows "\<exists>s'. prof_steps ret f a es s = Some s' \<and> prof_inv ret f a t s'"
  by (rule profile.run_safe [OF assms(2)]) (use assms(1) in auto)

lemma prof_start_inv: "prof_inv ret f a t (prof_start t t')"
  by (simp add: prof_inv_defs prof_start_def)

text \<open>Each step makes progress: the steps left to either thread are counted down, and never does every
  thread wait for the other.\<close>

definition steps_left :: "prof \<Rightarrow> nat" where
  "steps_left s =
     (case creator s of Setup \<Rightarrow> 6 | Creating \<Rightarrow> 5 | Waiting_call \<Rightarrow> 4 | Asleep \<Rightarrow> 3 | Unlock _ \<Rightarrow> 2 | Leave _ \<Rightarrow> 1
      | Returned _ \<Rightarrow> 0) +
     (case created s of Absent \<Rightarrow> 6 | Start \<Rightarrow> 6 | Timer _ _ \<Rightarrow> 5 | Lock _ _ \<Rightarrow> 4 | Signal _ _ \<Rightarrow> 3 | Release _ _ \<Rightarrow> 2
      | Running _ _ \<Rightarrow> 0)"

definition finished :: "prof \<Rightarrow> bool" where
  "finished s \<longleftrightarrow> (case creator s of Returned _ \<Rightarrow> True | _ \<Rightarrow> False)"

lemma progress:
  assumes "prof_inv ret f a t s" and "\<not> finished s"
  shows "\<exists>e s'. e \<noteq> Spurious \<and> prof_step ret f a e s = Some s' \<and> steps_left s' < steps_left s"
proof -
  let ?next = "\<lambda>e. \<exists>s'. prof_step ret f a e s = Some s' \<and> steps_left s' < steps_left s"
  have "?next CreatorStep \<or> ?next CreatedStep"
    using assms
    by (cases "creator s"; cases "created s")
      (auto simp: gprof_pthread_create_def wrapper_routine_def in_frame_def prof_inv_defs finished_def steps_left_def)
  then show ?thesis by blast
qed

lemma reaches_end:
  "prof_inv ret f a t s \<Longrightarrow> \<exists>es s'. Spurious \<notin> set es \<and> prof_steps ret f a es s = Some s' \<and> finished s'"
proof (induction "steps_left s" arbitrary: s rule: less_induct)
  case less
  show ?case
  proof (cases "finished s")
    case True
    then show ?thesis by (intro exI [of _ "[]"] exI [of _ s]) simp
  next
    case False
    from progress [OF less.prems this] obtain e s1 where e: "e \<noteq> Spurious" "prof_step ret f a e s = Some s1"
        "steps_left s1 < steps_left s" by blast
    from prof_steps_inv [of "[e]", OF _ less.prems] e(1,2) have "prof_inv ret f a t s1" by auto
    from less.hyps [OF e(3) this] obtain es s' where "Spurious \<notin> set es" "prof_steps ret f a es s1 = Some s'" "finished s'"
      by blast
    with e(1,2) show ?thesis by (intro exI [of _ "e # es"] exI [of _ s']) simp
  qed
qed

subsection \<open>Properties\<close>

text \<open>C16. The handshake of the profiling wrapper. Unless a condition wakes the creator without a
  signal, no interleaving of the two threads touches the creator's frame after it has returned, the
  creator returns what \<open>pthread_create\<close> returned, and when that is success the new thread has by then
  taken over the routine, its argument and the creator's profiling timer. The threads never wait for
  each other for ever: from every state reached they can finish.\<close>

theorem wrapper_handshake:
  assumes "Spurious \<notin> set es"
  shows "\<exists>s. prof_steps ret f a es (prof_start t t') = Some s \<and>
     (\<forall>r. creator s = Returned r \<longrightarrow> r = ret \<and> (ret = 0 \<longrightarrow> created s = Running f a \<and> created_timer s = t)) \<and>
     (\<exists>es' s'. prof_steps ret f a es' s = Some s' \<and> finished s')"
proof -
  obtain s where s: "prof_steps ret f a es (prof_start t t') = Some s" "prof_inv ret f a t s"
    using prof_steps_inv [OF assms prof_start_inv] by blast
  have "r = ret \<and> (ret = 0 \<longrightarrow> created s = Running f a \<and> created_timer s = t)" if "creator s = Returned r" for r
    using s(2) that by (cases "created s") (auto simp: prof_inv_defs)
  with s(1) reaches_end [OF s(2)] show ?thesis by blast
qed

theorem wrapper_handshake_witness:
  "\<exists>s. prof_steps 0 7 8 (concat (replicate 9 [CreatorStep, CreatedStep])) (prof_start 100 0) = Some s \<and>
     creator s = Returned 0 \<and> created s = Running 7 8 \<and> created_timer s = 100"
proof -
  have h: "Spurious \<notin> set (concat (replicate 9 [CreatorStep, CreatedStep]))" by (auto simp: set_replicate_conv_if)
  have r: "map_option creator (prof_steps 0 7 8 (concat (replicate 9 [CreatorStep, CreatedStep])) (prof_start 100 0))
      = Some (Returned 0)" by code_simp
  from wrapper_handshake [OF h, of 0 7 8 100 0] r show ?thesis by fastforce
qed

text \<open>The wait is not in a loop over a predicate: one wakeup without a signal, which POSIX allows, lets
  the creator return while the new thread has yet to read the frame.\<close>

lemma spurious_wakeup_faults:
  "prof_steps 0 f a [CreatorStep, CreatorStep, CreatorStep, Spurious, CreatorStep, CreatorStep, CreatorStep, CreatedStep]
     (prof_start t t') = None"
  by (simp add: prof_start_def gprof_pthread_create_def wrapper_routine_def in_frame_def)

end
