(* ===== verification/NsHash.thy ===== *)
theory NsHash
  imports AddrHash
begin

text \<open>
  ns_hash.c: the table of resolved host names, keyed by 16 bytes that the code treats as a
  \<open>struct in6_addr\<close> and reads as four 32-bit words.
\<close>

record in6_addr =
  addr6_0 :: u32
  addr6_1 :: u32
  addr6_2 :: u32
  addr6_3 :: u32

definition ns_hash_table_size :: nat where
  "ns_hash_table_size = 256"

text \<open>\<open>IN6_ARE_ADDR_EQUAL\<close> compares the four words.\<close>

definition ns_hash_compare :: "in6_addr \<Rightarrow> in6_addr \<Rightarrow> bool" where
  "ns_hash_compare aa bb \<longleftrightarrow> addr6_0 aa = addr6_0 bb \<and> addr6_1 aa = addr6_1 bb
     \<and> addr6_2 aa = addr6_2 bb \<and> addr6_3 aa = addr6_3 bb"

definition ns_hash_hash :: "in6_addr \<Rightarrow> int" where
  "ns_hash_hash key = (hash_uint32 (addr6_0 key) + hash_uint32 (addr6_1 key)
     + hash_uint32 (addr6_2 key) + hash_uint32 (addr6_3 key)) smod 0xFF"

definition ns_hash_copy_key :: "in6_addr \<Rightarrow> in6_addr" where
  "ns_hash_copy_key orig = orig"

definition ns_hash_create :: "in6_addr hash_type" where
  "ns_hash_create = hash_initialise
     \<lparr>compare_fn = ns_hash_compare, hash_fn = ns_hash_hash, copy_key_fn = ns_hash_copy_key,
      table = [], hsize = ns_hash_table_size\<rparr>"

interpretation ns_table: hash_keys ns_hash_compare ns_hash_hash ns_hash_copy_key
  ns_hash_table_size "\<lambda>_. True"
proof unfold_locales
  fix a b :: in6_addr
  show "ns_hash_compare a b \<longleftrightarrow> a = b"
    by (cases a; cases b) (auto simp: ns_hash_compare_def)
  show "0 \<le> ns_hash_hash a \<and> ns_hash_hash a < int ns_hash_table_size"
    using pos_mod_bound [of 255 "hash_uint32 (addr6_0 a) + hash_uint32 (addr6_1 a)
       + hash_uint32 (addr6_2 a) + hash_uint32 (addr6_3 a)"]
    by (simp add: ns_hash_hash_def smod_nonneg_eq ns_hash_table_size_def)
qed (simp add: ns_hash_copy_key_def)

lemma ns_hash_create_fns:
  "table_fns \<lparr>compare_fn = ns_hash_compare, hash_fn = ns_hash_hash, copy_key_fn = ns_hash_copy_key,
     table = [], hsize = ns_hash_table_size\<rparr>
   = (ns_hash_compare, ns_hash_hash, ns_hash_copy_key, ns_hash_table_size)"
  by (simp add: table_fns_def)

lemma ns_hash_create_inv:
  "ns_table.table_inv ns_hash_create heap_empty (replicate ns_hash_table_size [])"
  unfolding ns_hash_create_def by (rule ns_table.create_inv [OF ns_hash_create_fns])

end
