(* ===== verification/Resolver.thy ===== *)
theory Resolver
  imports NsHash Simulation CString IftopTypes
begin

text \<open>
  resolver.c: the queue of addresses waiting for a name, the table of names, the client call
  \<open>resolve\<close> and the worker threads. A critical section under \<open>resolver_queue_mutex\<close> is one step;
  the steps of the client and of the workers interleave. Names are objects of a heap, so that a
  pointer to a name which has been freed is recognised. \<open>do_resolve\<close> is the variant config.h
  selects (\<open>gethostbyaddr_r\<close>, with an int result); \<open>gethostbyaddr_r\<close> and \<open>inet_ntop\<close> are
  parameters. The locale \<open>bounded_fifo\<close> is the contract of the queue.
\<close>

definition RESOLVE_QUEUE_LENGTH :: nat where "RESOLVE_QUEUE_LENGTH = 20"

definition AF_INET :: int where "AF_INET = 2"

definition AF_INET6 :: int where "AF_INET6 = 10"

text \<open>The union is its 16 bytes.\<close>

record addr_storage =
  as_af :: int
  as_len :: nat
  as_addr :: "byte list"

subsection \<open>The queue\<close>

record ring =
  resolve_queue :: "addr_storage list"
  head :: nat
  tail :: nat

text \<open>\<open>None\<close> where the queue is full.\<close>

definition queue_add :: "addr_storage \<Rightarrow> ring \<Rightarrow> ring option" where
  "queue_add a q =
     (if (head q + 1) mod RESOLVE_QUEUE_LENGTH = tail q then None
      else Some (q\<lparr>resolve_queue := (resolve_queue q)[head q := a],
                   head := (head q + 1) mod RESOLVE_QUEUE_LENGTH\<rparr>))"

text \<open>\<open>None\<close> where \<open>head == tail\<close>.\<close>

definition queue_take :: "ring \<Rightarrow> (addr_storage \<times> ring) option" where
  "queue_take q =
     (if head q = tail q then None
      else Some (resolve_queue q ! tail q, q\<lparr>tail := (tail q + 1) mod RESOLVE_QUEUE_LENGTH\<rparr>))"

definition ring_ok :: "ring \<Rightarrow> bool" where
  "ring_ok q \<longleftrightarrow> length (resolve_queue q) = 20 \<and> head q < 20 \<and> tail q < 20"

definition ring_size :: "ring \<Rightarrow> nat" where
  "ring_size q = (head q + 20 - tail q) mod 20"

definition ring_items :: "ring \<Rightarrow> addr_storage list" where
  "ring_items q = map (\<lambda>i. resolve_queue q ! ((tail q + i) mod 20)) [0..<ring_size q]"

text \<open>The contract: a queue that holds at most \<open>cap\<close> items and gives them out in order.\<close>

locale bounded_fifo =
  fixes enq :: "'a \<Rightarrow> 's \<Rightarrow> 's option"
    and deq :: "'s \<Rightarrow> ('a \<times> 's) option"
    and contents :: "'s \<Rightarrow> 'a list"
    and ok :: "'s \<Rightarrow> bool"
    and cap :: nat
  assumes bound: "ok s \<Longrightarrow> length (contents s) \<le> cap"
    and enq_room: "ok s \<Longrightarrow> length (contents s) < cap \<Longrightarrow>
      \<exists>s'. enq x s = Some s' \<and> ok s' \<and> contents s' = contents s @ [x]"
    and enq_full: "ok s \<Longrightarrow> length (contents s) = cap \<Longrightarrow> enq x s = None"
    and deq_empty: "ok s \<Longrightarrow> contents s = [] \<Longrightarrow> deq s = None"
    and deq_item: "ok s \<Longrightarrow> contents s = x # xs \<Longrightarrow> \<exists>s'. deq s = Some (x, s') \<and> ok s' \<and> contents s' = xs"
begin

lemma enq_cases:
  assumes "ok s"
  obtains (full) "enq x s = None" "length (contents s) = cap"
  | (room) s' where "enq x s = Some s'" "ok s'" "contents s' = contents s @ [x]" "length (contents s) < cap"
  using bound [OF assms] enq_room [OF assms] enq_full [OF assms] by (metis nat_less_le)

lemma deq_cases:
  assumes "ok s"
  obtains (empty) "deq s = None" "contents s = []"
  | (item) x s' where "deq s = Some (x, s')" "ok s'" "contents s = x # contents s'"
  using deq_empty [OF assms] deq_item [OF assms] by (metis list.exhaust)

text \<open>A producer that drops what does not fit, and a consumer.\<close>

fun fifo_run :: "'a option list \<Rightarrow> 's \<Rightarrow> 'a list \<times> 'a list \<times> 's" where
  "fifo_run [] s = ([], [], s)"
| "fifo_run (Some x # es) s =
     (case enq x s of
        None \<Rightarrow> fifo_run es s
      | Some s' \<Rightarrow> (case fifo_run es s' of (ins, outs, t) \<Rightarrow> (x # ins, outs, t)))"
| "fifo_run (None # es) s =
     (case deq s of
        None \<Rightarrow> fifo_run es s
      | Some (x, s') \<Rightarrow> (case fifo_run es s' of (ins, outs, t) \<Rightarrow> (ins, x # outs, t)))"

lemma fifo_order:
  "ok s \<Longrightarrow> fifo_run es s = (ins, outs, t) \<Longrightarrow> ok t \<and> contents s @ ins = outs @ contents t"
proof (induction es s arbitrary: ins outs t rule: fifo_run.induct)
  case (1 s)
  then show ?case by simp
next
  case (2 x es s)
  show ?case
    using 2(3)
  proof (cases rule: enq_cases [where x = x])
    case full
    with 2(1) [OF full(1) 2(3)] 2(4) show ?thesis by simp
  next
    case (room s')
    obtain i o' t' where R: "fifo_run es s' = (i, o', t')" by (metis prod_cases3)
    from 2(2) [OF room(1,2) R] 2(4) room R show ?thesis by auto
  qed
next
  case (3 es s)
  show ?case
    using 3(3)
  proof (cases rule: deq_cases)
    case empty
    with 3(1) [OF empty(1) 3(3)] 3(4) show ?thesis by simp
  next
    case (item x s')
    obtain i o' t' where R: "fifo_run es s' = (i, o', t')" by (metis prod_cases3)
    from 3(2) [OF item(1) refl item(2) R] 3(4) item R show ?thesis by auto
  qed
qed

end

lemma mod20: "x < 40 \<Longrightarrow> x mod 20 = (if x < 20 then x else x - 20)" for x :: nat
  by (auto simp: mod_if)

lemma ring_step:
  assumes h: "head q < 20" and t: "tail q < 20"
  shows "(head q + 1) mod 20 = tail q \<longleftrightarrow> ring_size q = 19"
    and "head q = tail q \<longleftrightarrow> ring_size q = 0"
    and "ring_size q < 20"
    and "(tail q + ring_size q) mod 20 = head q"
    and "i < ring_size q \<Longrightarrow> (tail q + i) mod 20 \<noteq> head q"
    and "ring_size q < 19 \<Longrightarrow> ((head q + 1) mod 20 + 20 - tail q) mod 20 = Suc (ring_size q)"
    and "0 < ring_size q \<Longrightarrow> Suc ((head q + 20 - (tail q + 1) mod 20) mod 20) = ring_size q"
    and "(((tail q + 1) mod 20) + i) mod 20 = (tail q + Suc i) mod 20"
proof -
  have n: "ring_size q = (if tail q \<le> head q then head q - tail q else head q + 20 - tail q)"
    using h t by (auto simp: ring_size_def mod20)
  have h1: "(head q + 1) mod 20 = (if head q = 19 then 0 else head q + 1)"
    and t1: "(tail q + 1) mod 20 = (if tail q = 19 then 0 else tail q + 1)" using h t by (auto simp: mod20)
  show "(head q + 1) mod 20 = tail q \<longleftrightarrow> ring_size q = 19" unfolding n h1 using h t by auto
  show "head q = tail q \<longleftrightarrow> ring_size q = 0" unfolding n using h t by auto
  show "ring_size q < 20" unfolding n using h t by auto
  show "(tail q + ring_size q) mod 20 = head q" unfolding n using h t by (auto simp: mod20)
  show "i < ring_size q \<Longrightarrow> (tail q + i) mod 20 \<noteq> head q"
    unfolding n using h t by (subst mod20) (auto split: if_splits)
  show "ring_size q < 19 \<Longrightarrow> ((head q + 1) mod 20 + 20 - tail q) mod 20 = Suc (ring_size q)"
    unfolding n h1 using h t by (subst mod20) (auto split: if_splits)
  show "0 < ring_size q \<Longrightarrow> Suc ((head q + 20 - (tail q + 1) mod 20) mod 20) = ring_size q"
    unfolding n t1 using h t by (subst mod20) (auto split: if_splits)
  show "(((tail q + 1) mod 20) + i) mod 20 = (tail q + Suc i) mod 20"
    by (simp add: mod_simps)
qed

interpretation rq: bounded_fifo queue_add queue_take ring_items ring_ok 19
proof unfold_locales
  fix q :: ring and x :: addr_storage and xs
  assume ok: "ring_ok q"
  then have b: "head q < 20" "tail q < 20" "length (resolve_queue q) = 20" by (simp_all add: ring_ok_def)
  note S = ring_step [OF b(1,2)]
  show "length (ring_items q) \<le> 19" using S(3) by (simp add: ring_items_def)
  show "\<exists>q'. queue_add x q = Some q' \<and> ring_ok q' \<and> ring_items q' = ring_items q @ [x]"
    if "length (ring_items q) < 19"
  proof -
    have n: "ring_size q < 19" using that by (simp add: ring_items_def)
    let ?q = "q\<lparr>resolve_queue := (resolve_queue q)[head q := x], head := (head q + 1) mod 20\<rparr>"
    have sz: "ring_size ?q = Suc (ring_size q)" using S(6) [OF n] by (simp add: ring_size_def)
    have "ring_items ?q = ring_items q @ [x]"
      unfolding ring_items_def sz using S(4) b S(5) [THEN not_sym] by (simp add: nth_list_update)
    moreover have "queue_add x q = Some ?q" using S(1) n by (simp add: queue_add_def RESOLVE_QUEUE_LENGTH_def)
    ultimately show ?thesis using b by (auto simp: ring_ok_def)
  qed
  show "queue_add x q = None" if "length (ring_items q) = 19"
    using that S(1) by (simp add: ring_items_def queue_add_def RESOLVE_QUEUE_LENGTH_def)
  show "queue_take q = None" if "ring_items q = []"
    using that S(2) by (simp add: ring_items_def queue_take_def)
  show "\<exists>q'. queue_take q = Some (x, q') \<and> ring_ok q' \<and> ring_items q' = xs" if "ring_items q = x # xs"
  proof -
    have n: "0 < ring_size q" using that by (cases "ring_size q") (auto simp: ring_items_def)
    let ?q = "q\<lparr>tail := (tail q + 1) mod 20\<rparr>"
    have sz: "ring_size q = Suc (ring_size ?q)" using S(7) [OF n] by (simp add: ring_size_def)
    have "ring_items q = resolve_queue q ! tail q # ring_items ?q"
      unfolding ring_items_def sz using S(8) b by (simp add: map_upt_Suc del: upt_Suc)
    moreover have "queue_take q = Some (resolve_queue q ! tail q, ?q)"
      using S(2) n by (simp add: queue_take_def RESOLVE_QUEUE_LENGTH_def)
    ultimately show ?thesis using that b by (auto simp: ring_ok_def)
  qed
qed

subsection \<open>Looking up one address\<close>

text \<open>\<open>gethostbyaddr_r\<close> with a buffer of the given size: the buffer is too small
  (\<open>ERANGE\<close>), or another result code with the name, if there is one.\<close>

datatype hostent_r = ERANGE | Answer int "string option"

text \<open>The loop doubles the buffer while it is too small; a loop that never ends is \<open>None\<close>.\<close>

partial_function (option) grow_loop :: "(nat \<Rightarrow> hostent_r) \<Rightarrow> nat \<Rightarrow> (int \<times> string option) option" where
  "grow_loop call hstbuflen =
     (case call hstbuflen of ERANGE \<Rightarrow> grow_loop call (hstbuflen * 2) | Answer res hp \<Rightarrow> Some (res, hp))"

definition do_resolve :: "(addr_storage \<Rightarrow> nat \<Rightarrow> hostent_r) \<Rightarrow> addr_storage \<Rightarrow> string option option" where
  "do_resolve gethostbyaddr_r addr =
     (if as_af addr = AF_INET \<or> as_af addr = AF_INET6
      then Option.bind (grow_loop (gethostbyaddr_r addr) 1024)
             (\<lambda>(res, hp). Some (if res \<noteq> 0 then None else hp))
      else Some None)"

subsection \<open>The table of names and the client\<close>

text \<open>The table compares the first 16 bytes of an \<open>addr_storage\<close>, as the four words of a
  \<open>struct in6_addr\<close>: the family, the length and the first 8 bytes of the address.\<close>

definition ns_key :: "addr_storage \<Rightarrow> in6_addr" where
  "ns_key a = \<lparr>addr6_0 = word_of_int (as_af a), addr6_1 = word_of_nat (as_len a),
     addr6_2 = word_of_int (le_value (take 4 (as_addr a))),
     addr6_3 = word_of_int (le_value (take 4 (drop 4 (as_addr a))))\<rparr>"

record resolver =
  queue :: ring
  ns_hash :: "in6_addr hash_type"
  ns_nodes :: "(in6_addr, addr) node_heap"
  names :: "string heap"

definition resolver_initialise :: "addr_storage list \<Rightarrow> resolver" where
  "resolver_initialise q =
     \<lparr>queue = \<lparr>resolve_queue = q, head = 0, tail = 0\<rparr>, ns_hash = ns_hash_create,
      ns_nodes = heap_empty, names = heap_empty\<rparr>"

definition raddr :: "int \<Rightarrow> byte list \<Rightarrow> addr_storage option" where
  "raddr af addr =
     (let len = (if af = AF_INET then 4 else 16)
      in map_option (\<lambda>bs. \<lparr>as_af = af, as_len = len, as_addr = bs @ replicate (16 - len) 0\<rparr>)
           (get_bytes addr 0 len))"

text \<open>\<open>IN6_IS_ADDR_LINKLOCAL\<close> or \<open>IN6_IS_ADDR_SITELOCAL\<close>.\<close>

definition local6 :: "addr_storage \<Rightarrow> bool" where
  "local6 a \<longleftrightarrow> as_addr a ! 0 = 0xfe \<and> as_addr a ! 1 AND 0xc0 \<in> {0x80, 0xc0}"

text \<open>The critical section of \<open>resolve\<close>: the pointer to the name, and \<open>added\<close>.\<close>

definition resolve_section ::
  "(addr_storage \<Rightarrow> string) \<Rightarrow> addr_storage \<Rightarrow> resolver \<Rightarrow> (addr \<times> bool \<times> resolver) option" where
  "resolve_section inet_ntop a r = do {
     (st, v) \<leftarrow> hash_find (ns_hash r) (ns_nodes r) (ns_key a);
     (case v of
        Some hostname \<Rightarrow> Some (hostname, False, r)
      | None \<Rightarrow> do {
          let (hostname, nm) = xmalloc (names r) (inet_ntop a);
          (st, T, h) \<leftarrow> hash_insert (ns_hash r) (ns_nodes r) (ns_key a) hostname;
          let r' = r\<lparr>ns_hash := T, ns_nodes := h, names := nm\<rparr>;
          Some (if (head (queue r') + 1) mod RESOLVE_QUEUE_LENGTH = tail (queue r') then (hostname, False, r')
                else if as_af a = AF_INET6 \<and> local6 a then (hostname, False, r')
                else (hostname, True, r'\<lparr>queue := the (queue_add a (queue r'))\<rparr>))
        })
   }"

text \<open>The copy after the critical section; \<open>None\<close> is a fault, \<open>Some None\<close> copies nothing.\<close>

definition resolve_copy :: "addr \<Rightarrow> int \<Rightarrow> resolver \<Rightarrow> string option option" where
  "resolve_copy hostname buflen r =
     (if buflen > 1 then map_option (\<lambda>s. Some (take (nat (buflen - 1)) s)) (hread (names r) hostname)
      else Some None)"

text \<open>\<open>resolve\<close>, when no worker runs between its two parts.\<close>

definition resolve ::
  "(addr_storage \<Rightarrow> string) \<Rightarrow> options_t \<Rightarrow> int \<Rightarrow> byte list \<Rightarrow> int \<Rightarrow> resolver \<Rightarrow> (string option \<times> resolver) option" where
  "resolve inet_ntop options af addr buflen r =
     (if dnsresolution options = 1 then do {
        a \<leftarrow> raddr af addr;
        (hostname, added, r') \<leftarrow> resolve_section inet_ntop a r;
        out \<leftarrow> resolve_copy hostname buflen r';
        Some (out, r')
      } else Some (None, r))"

subsection \<open>The workers\<close>

definition worker_take :: "resolver \<Rightarrow> (addr_storage \<times> resolver) option" where
  "worker_take r = map_option (\<lambda>(a, q). (a, r\<lparr>queue := q\<rparr>)) (queue_take (queue r))"

text \<open>What a worker does with the result of \<open>do_resolve\<close>, back under the mutex.\<close>

definition worker_store :: "addr_storage \<Rightarrow> string option \<Rightarrow> resolver \<Rightarrow> resolver option" where
  "worker_store a hostname r =
     (case hostname of
        None \<Rightarrow> Some r
      | Some s \<Rightarrow> do {
          let (p, nm) = xmalloc (names r) s;
          (st, v) \<leftarrow> hash_find (ns_hash r) (ns_nodes r) (ns_key a);
          (T, h, nm) \<leftarrow> (case v of
             Some old \<Rightarrow> do {
               (st, T, h) \<leftarrow> hash_delete (ns_hash r) (ns_nodes r) (ns_key a);
               nm \<leftarrow> xfree nm (Some old);
               Some (T, h, nm) }
           | None \<Rightarrow> Some (ns_hash r, ns_nodes r, nm));
          (st, T, h) \<leftarrow> hash_insert T h (ns_key a) p;
          Some (r\<lparr>ns_hash := T, ns_nodes := h, names := nm\<rparr>)
        })"

text \<open>The program: the resolver and the addresses the workers are resolving. The client calls
  \<open>resolve\<close>; a worker takes an address, or stores the name of one that was taken.\<close>

record machine =
  res :: resolver
  busy :: "addr_storage list"

datatype rstep = Client addr_storage int | Take | Store nat

definition resolver_step ::
  "(addr_storage \<Rightarrow> string) \<Rightarrow> (addr_storage \<Rightarrow> nat \<Rightarrow> hostent_r) \<Rightarrow> rstep \<Rightarrow> machine \<Rightarrow> machine option" where
  "resolver_step inet_ntop gethostbyaddr_r e m =
     (case e of
        Client a buflen \<Rightarrow> do {
          (hostname, added, r) \<leftarrow> resolve_section inet_ntop a (res m);
          out \<leftarrow> resolve_copy hostname buflen r;
          Some (m\<lparr>res := r\<rparr>) }
      | Take \<Rightarrow> Some (case worker_take (res m) of
                        None \<Rightarrow> m | Some (a, r) \<Rightarrow> m\<lparr>res := r, busy := busy m @ [a]\<rparr>)
      | Store i \<Rightarrow>
          (if i < length (busy m) then do {
             hostname \<leftarrow> do_resolve gethostbyaddr_r (busy m ! i);
             r \<leftarrow> worker_store (busy m ! i) hostname (res m);
             Some (m\<lparr>res := r, busy := take i (busy m) @ drop (Suc i) (busy m)\<rparr>) }
           else Some m))"

abbreviation resolver_run ::
  "(addr_storage \<Rightarrow> string) \<Rightarrow> (addr_storage \<Rightarrow> nat \<Rightarrow> hostent_r) \<Rightarrow> rstep list \<Rightarrow> machine \<Rightarrow> machine option" where
  "resolver_run ntop gh \<equiv> run_events (resolver_step ntop gh)"

subsection \<open>The invariant\<close>

definition ns_rel :: "in6_addr hash_type \<Rightarrow> (in6_addr, addr) node_heap \<Rightarrow> (in6_addr \<rightharpoonup> addr) \<Rightarrow> bool" where
  "ns_rel T h m \<longleftrightarrow> (\<exists>Cs. ns_table.table_inv T h Cs \<and> map_of (entries h Cs) = m)"

lemma ns_find:
  "ns_rel T h m \<Longrightarrow> hash_find T h k = Some (case m k of
     None \<Rightarrow> (HASH_STATUS_KEY_NOT_FOUND, None) | Some v \<Rightarrow> (HASH_STATUS_OK, Some v))"
  unfolding ns_rel_def using ns_table.find_inv by blast

lemma ns_insert:
  assumes "ns_rel T h m" and "m k = None"
  obtains T' h' where "hash_insert T h k v = Some (HASH_STATUS_OK, T', h')" "ns_rel T' h' (m(k \<mapsto> v))"
  using assms ns_table.insert_inv unfolding ns_rel_def by (metis (no_types, lifting))

lemma ns_delete:
  assumes "ns_rel T h m" and "m k \<noteq> None"
  obtains T' h' where "hash_delete T h k = Some (HASH_STATUS_OK, T', h')" "ns_rel T' h' (m(k := None))"
  using assms ns_table.delete_inv unfolding ns_rel_def by (metis (no_types, lifting))

text \<open>Every name in the table is a live object that belongs to one key.\<close>

definition names_ok :: "string heap \<Rightarrow> (in6_addr \<rightharpoonup> addr) \<Rightarrow> bool" where
  "names_ok nm m \<longleftrightarrow> heap_ok nm \<and> (\<forall>k p. m k = Some p \<longrightarrow> cells nm p \<noteq> None) \<and>
     (\<forall>k k' p. m k = Some p \<longrightarrow> m k' = Some p \<longrightarrow> k = k')"

text \<open>The addresses waiting or being resolved have different keys, all in the table.\<close>

definition waiting_ok :: "addr_storage list \<Rightarrow> (in6_addr \<rightharpoonup> addr) \<Rightarrow> bool" where
  "waiting_ok w m \<longleftrightarrow> distinct (map ns_key w) \<and> (\<forall>a \<in> set w. m (ns_key a) \<noteq> None)"

definition resolver_inv :: "machine \<Rightarrow> (in6_addr \<rightharpoonup> addr) \<Rightarrow> bool" where
  "resolver_inv s m \<longleftrightarrow> ns_rel (ns_hash (res s)) (ns_nodes (res s)) m \<and> names_ok (names (res s)) m \<and>
     ring_ok (queue (res s)) \<and> waiting_ok (ring_items (queue (res s)) @ busy s) m"

lemma names_ok_new:
  assumes "names_ok nm m" and "xmalloc nm s = (p, nm')"
  shows "names_ok nm' (m(k \<mapsto> p))" and "cells nm' p = Some s" and "q \<noteq> p \<Longrightarrow> cells nm' q = cells nm q"
    and "m k' = Some q \<Longrightarrow> q \<noteq> p"
proof -
  have f: "cells nm p = None" "p = brk nm" "nm' = nm\<lparr>cells := (cells nm)(p \<mapsto> s), brk := Suc (brk nm)\<rparr>"
    using assms heap_ok_fresh by (auto simp: names_ok_def xmalloc_def)
  show p: "m k' = Some q \<Longrightarrow> q \<noteq> p" for k' q
    using assms(1) f(1) unfolding names_ok_def by blast
  show "cells nm' p = Some s" "q \<noteq> p \<Longrightarrow> cells nm' q = cells nm q" using f(3) by auto
  have "heap_ok nm'" using assms(1) f by (auto simp: names_ok_def heap_ok_def less_Suc_eq)
  then show "names_ok nm' (m(k \<mapsto> p))" using assms(1) p f(3) unfolding names_ok_def by auto
qed

lemma names_ok_free:
  assumes "names_ok nm m" and "m k = Some old"
  shows "\<exists>nm'. hfree nm old = Some nm' \<and> names_ok nm' (m(k := None)) \<and> (\<forall>q. q \<noteq> old \<longrightarrow> cells nm' q = cells nm q)"
proof -
  have "cells nm old \<noteq> None" using assms by (auto simp: names_ok_def)
  then have f: "hfree nm old = Some (nm\<lparr>cells := (cells nm)(old := None)\<rparr>)" by (simp add: hfree_def)
  have "k' = k" if "m k' = Some old" for k' using assms that by (auto simp: names_ok_def)
  then show ?thesis using assms(1) f by (auto simp: names_ok_def heap_ok_upd heap_ok_def)
qed

lemma waiting_ok_more: "waiting_ok w m \<Longrightarrow> dom m \<subseteq> dom m' \<Longrightarrow> waiting_ok w m'"
  unfolding waiting_ok_def by blast

lemma waiting_ok_add:
  assumes "waiting_ok (xs @ ys) m" and "m (ns_key a) = None"
  shows "waiting_ok ((xs @ [a]) @ ys) (m(ns_key a \<mapsto> p))"
proof -
  have "ns_key a \<notin> ns_key ` set (xs @ ys)" using assms unfolding waiting_ok_def by force
  with assms(1) show ?thesis unfolding waiting_ok_def by auto
qed

lemma waiting_ok_remove:
  assumes "waiting_ok (xs @ ys) m" and "i < length ys"
  shows "waiting_ok (xs @ take i ys @ drop (Suc i) ys) m"
proof -
  have y: "ys = take i ys @ ys ! i # drop (Suc i) ys" using assms(2) by (simp add: id_take_nth_drop)
  have "waiting_ok (xs @ take i ys @ ys ! i # drop (Suc i) ys) m" using assms(1) unfolding y [symmetric] .
  then show ?thesis unfolding waiting_ok_def by auto
qed

text \<open>The critical section of the client.\<close>

lemma resolve_section_inv:
  assumes "resolver_inv s m"
  shows "\<exists>p added r' m'. resolve_section inet_ntop a (res s) = Some (p, added, r') \<and>
     resolver_inv (s\<lparr>res := r'\<rparr>) m' \<and> m' (ns_key a) = Some p \<and> dom m \<subseteq> dom m' \<and>
     (m (ns_key a) \<noteq> None \<longrightarrow> r' = res s \<and> \<not> added \<and> m' = m) \<and>
     (m (ns_key a) = None \<longrightarrow> cells (names r') p = Some (inet_ntop a) \<and>
        (added \<longleftrightarrow> length (ring_items (queue (res s))) < 19 \<and> \<not> (as_af a = AF_INET6 \<and> local6 a)) \<and>
        ring_items (queue r') = ring_items (queue (res s)) @ (if added then [a] else []))"
proof (cases "m (ns_key a)")
  case (Some p)
  have "hash_find (ns_hash (res s)) (ns_nodes (res s)) (ns_key a) = Some (HASH_STATUS_OK, Some p)"
    using assms Some ns_find [of "ns_hash (res s)" "ns_nodes (res s)" m "ns_key a"] by (simp add: resolver_inv_def)
  then have "resolve_section inet_ntop a (res s) = Some (p, False, res s)"
    by (simp add: resolve_section_def)
  with assms Some show ?thesis by auto
next
  case None
  let ?r = "res s"
  have I: "ns_rel (ns_hash ?r) (ns_nodes ?r) m" "names_ok (names ?r) m" "ring_ok (queue ?r)"
      "waiting_ok (ring_items (queue ?r) @ busy s) m"
    using assms by (simp_all add: resolver_inv_def)
  obtain p nm where A: "xmalloc (names ?r) (inet_ntop a) = (p, nm)" by fastforce
  note N = names_ok_new [OF I(2) A]
  obtain T h where H: "hash_insert (ns_hash ?r) (ns_nodes ?r) (ns_key a) p = Some (HASH_STATUS_OK, T, h)"
      "ns_rel T h (m(ns_key a \<mapsto> p))"
    using ns_insert [OF I(1) None] .
  let ?r1 = "?r\<lparr>ns_hash := T, ns_nodes := h, names := nm\<rparr>"
  let ?m = "m(ns_key a \<mapsto> p)"
  let ?full = "(head (queue ?r) + 1) mod RESOLVE_QUEUE_LENGTH = tail (queue ?r)"
  let ?local = "as_af a = AF_INET6 \<and> local6 a"
  have S: "resolve_section inet_ntop a ?r = Some (if ?full then (p, False, ?r1) else if ?local then (p, False, ?r1)
      else (p, True, ?r1\<lparr>queue := the (queue_add a (queue ?r))\<rparr>))"
    using H(1) A None I(1) by (simp add: resolve_section_def ns_find Let_def)
  have W: "waiting_ok (ring_items (queue ?r) @ busy s) (m(ns_key a \<mapsto> p))"
    by (rule waiting_ok_more [OF I(4)]) auto
  show ?thesis
    using I(3)
  proof (cases rule: rq.enq_cases [where x = a])
    case full
    then have "?full" by (auto simp: queue_add_def split: if_splits)
    with S have R: "resolve_section inet_ntop a ?r = Some (p, False, ?r1)" by simp
    have "resolver_inv (s\<lparr>res := ?r1\<rparr>) ?m" using H(2) N(1) I(3) W by (simp add: resolver_inv_def)
    with R N(2) full(2) None show ?thesis
      by (intro exI [of _ p] exI [of _ False] exI [of _ ?r1] exI [of _ ?m]) (simp add: subset_insertI)
  next
    case (room q)
    then have f: "\<not> ?full" by (auto simp: queue_add_def)
    have W': "waiting_ok (ring_items q @ busy s) ?m"
      using waiting_ok_add [OF I(4) None] by (simp add: room(3))
    show ?thesis
    proof (cases ?local)
      case True
      with S f have R: "resolve_section inet_ntop a ?r = Some (p, False, ?r1)" by simp
      have "resolver_inv (s\<lparr>res := ?r1\<rparr>) ?m" using H(2) N(1) I(3) W by (simp add: resolver_inv_def)
      with R N(2) True None show ?thesis
        by (intro exI [of _ p] exI [of _ False] exI [of _ ?r1] exI [of _ ?m]) (simp add: subset_insertI)
    next
      case False
      let ?r2 = "?r1\<lparr>queue := q\<rparr>"
      have R: "resolve_section inet_ntop a ?r = Some (p, True, ?r2)"
        using S f False unfolding room(1) by (simp only: if_False option.sel)
      have "resolver_inv (s\<lparr>res := ?r2\<rparr>) ?m" using H(2) N(1) room(2) W' by (simp add: resolver_inv_def)
      with R N(2) False room None show ?thesis
        by (intro exI [of _ p] exI [of _ True] exI [of _ ?r2] exI [of _ ?m]) (simp add: subset_insertI)
    qed
  qed
qed

text \<open>A worker's steps.\<close>

lemma worker_take_inv:
  assumes "resolver_inv s m"
  shows "case worker_take (res s) of
     None \<Rightarrow> ring_items (queue (res s)) = []
   | Some (a, r) \<Rightarrow> resolver_inv (s\<lparr>res := r, busy := busy s @ [a]\<rparr>) m \<and>
       ring_items (queue (res s)) = a # ring_items (queue r) \<and> names r = names (res s)"
proof -
  have ok: "ring_ok (queue (res s))" using assms by (simp add: resolver_inv_def)
  show ?thesis
    using ok
  proof (cases rule: rq.deq_cases)
    case empty
    then show ?thesis by (simp add: worker_take_def)
  next
    case (item a q)
    have "waiting_ok (ring_items q @ busy s @ [a]) m"
      using assms item(3) unfolding resolver_inv_def waiting_ok_def by auto
    with assms item show ?thesis by (simp add: worker_take_def resolver_inv_def)
  qed
qed

lemma worker_store_inv:
  assumes "resolver_inv s m" and "m (ns_key a) = Some old"
  shows "\<exists>r m'. worker_store a hostname (res s) = Some r \<and> resolver_inv (s\<lparr>res := r\<rparr>) m' \<and> dom m' = dom m \<and>
     queue r = queue (res s) \<and> (hostname \<noteq> None \<longrightarrow> cells (names r) old = None)"
proof (cases hostname)
  case None
  with assms show ?thesis by (auto simp: worker_store_def)
next
  case (Some n)
  let ?r = "res s"
  have I: "ns_rel (ns_hash ?r) (ns_nodes ?r) m" "names_ok (names ?r) m"
    using assms by (simp_all add: resolver_inv_def)
  obtain p nm where A: "xmalloc (names ?r) n = (p, nm)" by fastforce
  note N = names_ok_new [OF I(2) A]
  have ne: "old \<noteq> p" using N(4) assms(2) by blast
  obtain T h where D: "hash_delete (ns_hash ?r) (ns_nodes ?r) (ns_key a) = Some (HASH_STATUS_OK, T, h)"
      "ns_rel T h (m(ns_key a := None))"
    using ns_delete [OF I(1), of "ns_key a"] assms(2) by auto
  obtain T' h' where H: "hash_insert T h (ns_key a) p = Some (HASH_STATUS_OK, T', h')"
      "ns_rel T' h' (m(ns_key a \<mapsto> p))"
    using ns_insert [OF D(2), of "ns_key a" p] by auto
  have live: "cells nm old \<noteq> None" using N(3) [OF ne] I(2) assms(2) unfolding names_ok_def by metis
  let ?nm = "nm\<lparr>cells := (cells nm)(old := None)\<rparr>"
  let ?r' = "?r\<lparr>ns_hash := T', ns_nodes := h', names := ?nm\<rparr>"
  have f: "hfree nm old = Some ?nm" using live by (simp add: hfree_def)
  have off: "k = ns_key a" if "m k = Some old" for k
    using that assms(2) I(2) unfolding names_ok_def by blast
  note M = N(1) [of "ns_key a"]
  have q: "q \<noteq> old" if "(m(ns_key a \<mapsto> p)) k = Some q" for k q
  proof
    assume "q = old"
    have k: "k \<noteq> ns_key a"
    proof
      assume "k = ns_key a"
      then have "q = p" using that by simp
      with \<open>q = old\<close> ne show False by simp
    qed
    then have "m k = Some old" using that \<open>q = old\<close> by simp
    with off k show False by blast
  qed
  have "heap_ok nm" using M unfolding names_ok_def by (rule conjunct1)
  then have "heap_ok ?nm" by (simp add: heap_ok_def)
  moreover have "cells ?nm q \<noteq> None" if "(m(ns_key a \<mapsto> p)) k = Some q" for k q
  proof -
    have "cells nm q \<noteq> None" using that M unfolding names_ok_def by blast
    with q [OF that] show ?thesis by simp
  qed
  ultimately have "names_ok ?nm (m(ns_key a \<mapsto> p))" using M unfolding names_ok_def by blast
  moreover have "worker_store a hostname ?r = Some ?r'"
    using Some A D(1) H(1) f ns_find [OF I(1), of "ns_key a"] assms(2)
    by (simp add: worker_store_def Let_def xfree_def)
  moreover have "waiting_ok (ring_items (queue ?r) @ busy s) m" "ring_ok (queue ?r)"
    using assms(1) unfolding resolver_inv_def by blast+
  then have "waiting_ok (ring_items (queue ?r) @ busy s) (m(ns_key a \<mapsto> p))" "ring_ok (queue ?r)"
    using waiting_ok_more [of _ m "m(ns_key a \<mapsto> p)"] by auto
  moreover have "dom (m(ns_key a \<mapsto> p)) = dom m" using assms(2) by (auto simp: insert_absorb domI)
  ultimately show ?thesis
    using H(2) by (intro exI [of _ ?r'] exI [of _ "m(ns_key a \<mapsto> p)"]) (simp add: resolver_inv_def)
qed

lemma resolver_step_inv:
  assumes I: "resolver_inv s m" and gh: "\<And>a. do_resolve gh a \<noteq> None"
  shows "\<exists>s' m'. resolver_step ntop gh e s = Some s' \<and> resolver_inv s' m' \<and> dom m \<subseteq> dom m'"
proof (cases e)
  case (Client a buflen)
  obtain p added r m' where S: "resolve_section ntop a (res s) = Some (p, added, r)"
      "resolver_inv (s\<lparr>res := r\<rparr>) m'" "m' (ns_key a) = Some p" "dom m \<subseteq> dom m'"
    using resolve_section_inv [OF I] by blast
  then have "cells (names r) p \<noteq> None" unfolding resolver_inv_def names_ok_def by simp
  then have "resolve_copy p buflen r \<noteq> None" by (auto simp: resolve_copy_def hread_def)
  with S Client show ?thesis by (auto simp: resolver_step_def)
next
  case Take
  with worker_take_inv [OF I] I show ?thesis by (auto simp: resolver_step_def split: option.splits)
next
  case (Store i)
  show ?thesis
  proof (cases "i < length (busy s)")
    case True
    let ?a = "busy s ! i"
    obtain name where n: "do_resolve gh ?a = Some name" using gh [of ?a] by blast
    have "?a \<in> set (busy s)" using True by simp
    moreover have "waiting_ok (ring_items (queue (res s)) @ busy s) m" using I by (simp add: resolver_inv_def)
    ultimately have "m (ns_key ?a) \<noteq> None" unfolding waiting_ok_def by (simp del: not_None_eq)
    then obtain old where o: "m (ns_key ?a) = Some old" by blast
    obtain r m' where W: "worker_store ?a name (res s) = Some r" "resolver_inv (s\<lparr>res := r\<rparr>) m'" "dom m' = dom m"
      using worker_store_inv [OF I o] by blast
    let ?b = "take i (busy s) @ drop (Suc i) (busy s)"
    have "waiting_ok (ring_items (queue r) @ ?b) m'"
      using W(2) waiting_ok_remove [OF _ True, of "ring_items (queue r)" m'] by (simp add: resolver_inv_def)
    with W n True Store show ?thesis by (auto simp: resolver_step_def resolver_inv_def)
  next
    case False
    with Store I show ?thesis by (auto simp: resolver_step_def)
  qed
qed

interpretation workers: safe_machine "resolver_step ntop gh" "\<lambda>s. \<exists>m. resolver_inv s m" "\<lambda>e s. \<forall>a. do_resolve gh a \<noteq> None"
  for ntop gh
  by unfold_locales (use resolver_step_inv in blast)

lemma resolver_run_inv:
  assumes "resolver_inv s m" and "\<And>a. do_resolve gh a \<noteq> None"
  shows "\<exists>s' m'. resolver_run ntop gh es s = Some s' \<and> resolver_inv s' m'"
  using workers.run_safe [of s es gh ntop] assms by blast

definition resolver_start :: "addr_storage list \<Rightarrow> machine" where
  "resolver_start q = \<lparr>res = resolver_initialise q, busy = []\<rparr>"

lemma resolver_start_inv:
  assumes "length q = RESOLVE_QUEUE_LENGTH"
  shows "resolver_inv (resolver_start q) Map.empty"
proof -
  have "ns_rel ns_hash_create heap_empty Map.empty"
    unfolding ns_rel_def using ns_hash_create_inv by (metis entries_replicate map_of.simps(1))
  then show ?thesis using assms
    by (simp add: resolver_inv_def resolver_start_def resolver_initialise_def names_ok_def ring_ok_def
        waiting_ok_def ring_items_def ring_size_def RESOLVE_QUEUE_LENGTH_def)
qed

subsection \<open>Properties\<close>


definition sample_addr :: "byte \<Rightarrow> addr_storage" where
  "sample_addr x = \<lparr>as_af = AF_INET, as_len = 4, as_addr = [10, 0, 0, x] @ replicate 12 0\<rparr>"

definition sample_gh :: "addr_storage \<Rightarrow> nat \<Rightarrow> hostent_r" where
  "sample_gh a n = (if n < 4096 then ERANGE else Answer 0 (Some ''host''))"

lemma sample_gh_returns: "do_resolve sample_gh a \<noteq> None"
  by (simp add: do_resolve_def grow_loop.simps sample_gh_def)


text \<open>C37. The copy of the name is made after the mutex is released. When a client has just queued a
  new address and, before it copies, a worker resolves that address, the worker frees the numeric name
  the client still points to: the copy, which would have delivered the numeric address, reads freed
  memory.\<close>

theorem resolve_copy_race:
  assumes "resolver_inv s m" and "m (ns_key a) = None" and "ring_items (queue (res s)) = []" and "busy s = []"
    and "\<not> (as_af a = AF_INET6 \<and> local6 a)" and "do_resolve gh a = Some (Some n)" and "1 < buflen"
  shows "\<exists>p r s'. resolve_section ntop a (res s) = Some (p, True, r) \<and>
     resolve_copy p buflen r = Some (Some (take (nat (buflen - 1)) (ntop a))) \<and>
     resolver_run ntop gh [Take, Store 0] (s\<lparr>res := r\<rparr>) = Some s' \<and>
     resolve_copy p buflen (res s') = None"
proof -
  obtain p r m1 where S: "resolve_section ntop a (res s) = Some (p, True, r)" "resolver_inv (s\<lparr>res := r\<rparr>) m1"
      "m1 (ns_key a) = Some p" "cells (names r) p = Some (ntop a)" "ring_items (queue r) = [a]"
    using resolve_section_inv [OF assms(1), of ntop a] assms(2,3,5) by auto
  note T = worker_take_inv [OF S(2)]
  obtain r2 where T2: "worker_take r = Some (a, r2)" "resolver_inv (s\<lparr>res := r2, busy := [a]\<rparr>) m1"
    using T S(5) assms(4) by (cases "worker_take r") auto
  obtain r3 where W: "worker_store a (Some n) r2 = Some r3" "cells (names r3) p = None"
    using worker_store_inv [OF T2(2) S(3), of "Some n"] by auto
  have "resolver_run ntop gh [Take, Store 0] (s\<lparr>res := r\<rparr>) = Some (s\<lparr>res := r3, busy := []\<rparr>)"
    using T2(1) W(1) assms(4,6) by (simp add: resolver_step_def)
  with S(1,4) W(2) assms(7) show ?thesis by (auto simp: resolve_copy_def hread_def)
qed

theorem resolve_copy_race_witness:
  "\<exists>p r s'. resolve_section (\<lambda>a. ''10.0.0.1'') (sample_addr 1)
        (res (resolver_start (replicate 20 (sample_addr 0)))) = Some (p, True, r) \<and>
     resolver_run (\<lambda>a. ''10.0.0.1'') sample_gh [Take, Store 0]
       ((resolver_start (replicate 20 (sample_addr 0)))\<lparr>res := r\<rparr>) = Some s' \<and>
     resolve_copy p 40 (res s') = None"
proof -
  let ?s = "resolver_start (replicate 20 (sample_addr 0))"
  have i: "resolver_inv ?s Map.empty" by (rule resolver_start_inv) (simp add: RESOLVE_QUEUE_LENGTH_def)
  have e: "ring_items (queue (res ?s)) = []" "busy ?s = []"
    by (simp_all add: resolver_start_def resolver_initialise_def ring_items_def ring_size_def)
  have d: "do_resolve sample_gh (sample_addr 1) = Some (Some ''host'')"
    by (simp add: do_resolve_def grow_loop.simps sample_gh_def sample_addr_def)
  have l: "\<not> (as_af (sample_addr 1) = AF_INET6 \<and> local6 (sample_addr 1))"
    by (simp add: sample_addr_def AF_INET_def AF_INET6_def)
  from resolve_copy_race [OF i _ e l d, of 40 "\<lambda>a. ''10.0.0.1''"] show ?thesis by auto
qed

text \<open>The table's key holds only the first 8 bytes of an address. Two IPv6 addresses with the
  same first 64 bits share an entry: after the first has been looked up, \<open>resolve\<close> gives the second
  the name of the first, and never queues it.\<close>

theorem resolve_prefix_collision:
  assumes "resolver_inv s m" and "raddr AF_INET6 x = Some a" and "raddr AF_INET6 y = Some b"
    and "take 8 x = take 8 y"
  shows "\<exists>p added r. resolve_section ntop a (res s) = Some (p, added, r) \<and>
     resolve_section ntop b r = Some (p, False, r)"
proof -
  have six: "AF_INET6 \<noteq> AF_INET" by (simp add: AF_INET_def AF_INET6_def)
  have ab: "a = \<lparr>as_af = AF_INET6, as_len = 16, as_addr = take 16 x\<rparr>"
      "b = \<lparr>as_af = AF_INET6, as_len = 16, as_addr = take 16 y\<rparr>"
    using assms(2,3) six by (auto simp: raddr_def get_bytes_def split: if_splits)
  have "take 4 (take 16 x) = take 4 (take 8 x)" "take 4 (take 16 y) = take 4 (take 8 y)"
    "take 4 (drop 4 (take 16 x)) = drop 4 (take 8 x)" "take 4 (drop 4 (take 16 y)) = drop 4 (take 8 y)"
    by (simp_all add: drop_take)
  then have k: "ns_key b = ns_key a" using assms(4) unfolding ab ns_key_def by (simp del: take_take)
  obtain p added r m' where S: "resolve_section ntop a (res s) = Some (p, added, r)"
      "resolver_inv (s\<lparr>res := r\<rparr>) m'" "m' (ns_key a) = Some p"
    using resolve_section_inv [OF assms(1)] by blast
  from resolve_section_inv [OF S(2), of ntop b] k S(3)
  have "resolve_section ntop b r = Some (p, False, r)" by auto
  with S(1) show ?thesis by blast
qed

theorem resolve_prefix_collision_witness:
  "\<exists>a b p added r. raddr AF_INET6 ([0x20, 0x01, 0x0d, 0xb8] @ replicate 11 0 @ [1]) = Some a \<and>
     raddr AF_INET6 ([0x20, 0x01, 0x0d, 0xb8] @ replicate 11 0 @ [2]) = Some b \<and> a \<noteq> b \<and>
     resolve_section (\<lambda>a. []) a (res (resolver_start (replicate 20 (sample_addr 0)))) = Some (p, added, r) \<and>
     resolve_section (\<lambda>a. []) b r = Some (p, False, r)"
proof -
  let ?s = "resolver_start (replicate 20 (sample_addr 0))"
  let ?x = "[0x20, 0x01, 0x0d, 0xb8] @ replicate 11 0 @ [1 :: byte]" and ?y = "[0x20, 0x01, 0x0d, 0xb8] @ replicate 11 0 @ [2 :: byte]"
  have i: "resolver_inv ?s Map.empty" by (rule resolver_start_inv) (simp add: RESOLVE_QUEUE_LENGTH_def)
  have r: "raddr AF_INET6 ?x = Some \<lparr>as_af = AF_INET6, as_len = 16, as_addr = ?x\<rparr>"
    "raddr AF_INET6 ?y = Some \<lparr>as_af = AF_INET6, as_len = 16, as_addr = ?y\<rparr>"
    by (simp_all add: raddr_def get_bytes_def AF_INET_def AF_INET6_def)
  have n: "\<lparr>as_af = AF_INET6, as_len = 16, as_addr = ?x\<rparr> \<noteq> \<lparr>as_af = AF_INET6, as_len = 16, as_addr = ?y\<rparr>" by simp
  have t: "take 8 ?x = take 8 ?y" by simp
  from resolve_prefix_collision [OF i r t, of "\<lambda>a. []"] r n show ?thesis by blast
qed

text \<open>C38. \<open>do_resolve\<close> returns whenever some doubling of the 1024-byte buffer is large enough: it
  then gives the name the library found, or no name if the library reports an error or finds none.\<close>

theorem do_resolve_returns:
  assumes "gh a (1024 * 2 ^ k) = Answer r hp" and "\<forall>j < k. gh a (1024 * 2 ^ j) = ERANGE"
    and "as_af a = AF_INET \<or> as_af a = AF_INET6"
  shows "do_resolve gh a = Some (if r \<noteq> 0 then None else hp)"
proof -
  have "grow_loop call n = Some (r, hp)"
    if "call (n * 2 ^ k) = Answer r hp" "\<forall>j < k. call (n * 2 ^ j) = ERANGE" for call n
    using that
  proof (induction k arbitrary: n)
    case 0
    then show ?case by (subst grow_loop.simps) simp
  next
    case (Suc k)
    have "call n = ERANGE" using Suc.prems(2) by (metis mult.right_neutral power_0 zero_less_Suc)
    moreover have "grow_loop call (n * 2) = Some (r, hp)"
      using Suc.prems by (intro Suc.IH) (simp_all add: mult.assoc power_Suc [symmetric] del: power_Suc)
    ultimately show ?case by (subst grow_loop.simps) simp
  qed
  with assms show ?thesis by (auto simp: do_resolve_def)
qed

theorem do_resolve_returns_witness:
  "do_resolve sample_gh (sample_addr 1) = Some (Some ''host'')"
proof -
  have "sample_gh (sample_addr 1) (1024 * 2 ^ 2) = Answer 0 (Some ''host'')" by (simp add: sample_gh_def)
  moreover have "\<forall>j < 2. sample_gh (sample_addr 1) (1024 * 2 ^ j) = ERANGE" by (auto simp: sample_gh_def less_2_cases_iff)
  ultimately show ?thesis using do_resolve_returns [of sample_gh "sample_addr 1" 2 0] by (simp add: sample_addr_def)
qed

end
