(* ===== verification/ResolverBackends.thy ===== *)
theory ResolverBackends
  imports Resolver IftopApi
begin

text \<open>
  resolver.c, lines 56 to 404: the variants of \<open>do_resolve\<close> that config.h does not select. Each is one
  definition over what the library it calls answers (\<open>getnameinfo\<close>, \<open>gethostbyaddr\<close>, libresolv, ares).
  The variant that forks a helper process is modelled with the helper and the socket between them:
  it never finds a name, because the two ends disagree on the size of a request.
\<close>

subsection \<open>getnameinfo\<close>

text \<open>\<open>getnameinfo\<close> gets the family and the bytes of the address and gives its result and the text in
  \<open>buf\<close>. The copies into the socket addresses are bounded by the size of their address field.\<close>

definition do_resolve_getnameinfo ::
  "(int \<Rightarrow> byte list \<Rightarrow> int \<times> string) \<Rightarrow> addr_storage \<Rightarrow> string option option" where
  "do_resolve_getnameinfo getnameinfo addr =
     (let room = (if as_af addr = AF_INET then Some 4 else if as_af addr = AF_INET6 then Some 16 else None)
      in case room of
           None \<Rightarrow> Some None
         | Some n \<Rightarrow>
             if as_len addr \<le> n then
               (let (ret, buf) = getnameinfo (as_af addr) (take (as_len addr) (as_addr addr))
                in Some (if ret = 0 then Some buf else None))
             else None)"

subsection \<open>gethostbyaddr\<close>

definition do_resolve_gethostbyaddr ::
  "(byte list \<Rightarrow> nat \<Rightarrow> int \<Rightarrow> string option) \<Rightarrow> addr_storage \<Rightarrow> string option" where
  "do_resolve_gethostbyaddr gethostbyaddr addr = gethostbyaddr (as_addr addr) (as_len addr) (as_af addr)"

subsection \<open>libresolv\<close>

text \<open>The name of the reverse query, as \<open>snprintf\<close> with 35 bytes leaves it.\<close>

definition reverse_name :: "byte list \<Rightarrow> string" where
  "reverse_name a = show_nat (unat (a ! 3)) @ ''.'' @ show_nat (unat (a ! 2)) @ ''.'' @
     show_nat (unat (a ! 1)) @ ''.'' @ show_nat (unat (a ! 0)) @ ''.in-addr.arpa.''"

text \<open>One record of the answer: not parsed, of another type, or a pointer record with the
  uncompressed name (\<open>None\<close>: \<open>ns_name_uncompress\<close> failed and left the buffer as it was).\<close>

datatype answer_rr = Unparsed | OtherType | Ptr "string option"

text \<open>The loop over the records: the last name, and the number of earlier ones, whose memory is lost.
  \<open>xstrdup\<close> of the uninitialised buffer is a fault.\<close>

fun ptr_loop :: "answer_rr list \<Rightarrow> string option \<Rightarrow> nat \<Rightarrow> (string option \<times> nat) option" where
  "ptr_loop [] ret lost = Some (ret, lost)"
| "ptr_loop (rr # rrs) ret lost =
     (case rr of
        Ptr None \<Rightarrow> None
      | Ptr (Some name) \<Rightarrow> ptr_loop rrs (Some name) (if ret = None then lost else lost + 1)
      | _ \<Rightarrow> ptr_loop rrs ret lost)"

text \<open>\<open>res_search\<close> gives the records of the reply, or \<open>None\<close> if it or \<open>ns_initparse\<close> fails.\<close>

definition do_resolve_libresolv ::
  "(string \<Rightarrow> answer_rr list option) \<Rightarrow> addr_storage \<Rightarrow> (string option \<times> nat) option" where
  "do_resolve_libresolv res_search addr =
     (if as_af addr \<noteq> AF_INET then Some (None, 0)
      else case res_search (take 34 (reverse_name (as_addr addr))) of
             None \<Rightarrow> Some (None, 0)
           | Some rrs \<Rightarrow> ptr_loop rrs None 0)"

subsection \<open>ares\<close>

text \<open>The channel of a thread, allocated or also initialised.\<close>

datatype ares_chan = Allocated | Initialised

text \<open>One pass of the waiting loop: no callback, a callback with an error, or one with an answer whose
  parsing gives a host name (\<open>None\<close>: it fails and leaves \<open>he\<close> uninitialised).\<close>

datatype ares_pass = NoCallback | ErrorCallback | AnswerCallback "string option"

text \<open>\<open>C.result\<close> and \<open>C.name\<close> after the loop; the inner \<open>None\<close> is a loop still waiting.\<close>

fun ares_wait :: "ares_pass list \<Rightarrow> (int \<times> string option) option option" where
  "ares_wait [] = Some None"
| "ares_wait (p # ps) =
     (case p of
        NoCallback \<Rightarrow> ares_wait ps
      | ErrorCallback \<Rightarrow> Some (Some (-1, None))
      | AnswerCallback None \<Rightarrow> None
      | AnswerCallback (Some name) \<Rightarrow> Some (Some (1, Some name)))"

text \<open>The result and the channel the thread keeps. \<open>init_ok\<close> is the result of \<open>ares_init\<close>,
  \<open>passes\<close> what happens for the query. A query on a channel that was not initialised is a fault.\<close>

definition do_resolve_ares ::
  "bool \<Rightarrow> (string \<Rightarrow> ares_pass list) \<Rightarrow> addr_storage \<Rightarrow> ares_chan option
     \<Rightarrow> (string option option \<times> ares_chan option) option" where
  "do_resolve_ares init_ok passes addr chan =
     (if as_af addr \<noteq> AF_INET then Some (Some None, chan)
      else if chan = None \<and> \<not> init_ok then Some (Some None, Some Allocated)
      else if chan = Some Allocated then None
      else case ares_wait (passes (reverse_name (as_addr addr))) of
             None \<Rightarrow> None
           | Some None \<Rightarrow> Some (None, Some Initialised)
           | Some (Some (result, name)) \<Rightarrow> Some (Some (if result = 1 then name else None), Some Initialised))"

subsection \<open>The forking resolver\<close>

definition NAMESIZE :: nat where "NAMESIZE = 64"

definition sizeof_addr_storage :: nat where "sizeof_addr_storage = 24"

definition sizeof_in6_addr :: nat where "sizeof_in6_addr = 16"

text \<open>The memory of an \<open>addr_storage\<close>, and the object at such a place.\<close>

definition addr_image :: "addr_storage \<Rightarrow> byte list" where
  "addr_image a = le_bytes 4 (as_af a) @ le_bytes 4 (int (as_len a)) @ as_addr a"

definition addr_of_image :: "byte list \<Rightarrow> addr_storage" where
  "addr_of_image bs = \<lparr>as_af = sint (word_of_int (le_value (take 4 bs)) :: u32),
     as_len = nat (le_value (take 4 (drop 4 bs))), as_addr = drop 8 bs\<rparr>"

text \<open>One turn of \<open>forking_resolver_worker\<close> on the bytes that are in the socket: the string in the
  reply of \<open>NAMESIZE\<close> bytes, or \<open>None\<close> when the helper returns and exits.\<close>

definition forking_resolver_worker :: "(addr_storage \<Rightarrow> string option) \<Rightarrow> byte list \<Rightarrow> string option" where
  "forking_resolver_worker gethostbyaddr request =
     (let a = take sizeof_addr_storage request
      in if length a \<noteq> sizeof_addr_storage then None
         else Some (case gethostbyaddr (addr_of_image a) of
                      None \<Rightarrow> []
                    | Some h_name \<Rightarrow> take (NAMESIZE - 1) h_name))"

text \<open>The helper a thread remembers. A failed \<open>fork\<close> leaves \<open>child = -1\<close> and a closed descriptor. The
  log holds the arguments of \<open>kill\<close>.\<close>

record workerinfo =
  fd_open :: bool
  child :: int

record fork_state =
  worker :: "workerinfo option"
  killed :: "int list"

record fork_env =
  socketpair_ok :: bool
  fork_result :: int

definition forking_exchange ::
  "(addr_storage \<Rightarrow> string option) \<Rightarrow> byte list \<Rightarrow> workerinfo \<Rightarrow> fork_state \<Rightarrow> string option \<times> fork_state" where
  "forking_exchange gethostbyaddr addr wi st =
     (case (if fd_open wi then forking_resolver_worker gethostbyaddr (take sizeof_in6_addr addr) else None) of
        None \<Rightarrow> (None, \<lparr>worker = None, killed = killed st @ [child wi]\<rparr>)
      | Some name \<Rightarrow> (if name = [] then None else Some name, st\<lparr>worker := Some wi\<rparr>))"

definition forking_do_resolve ::
  "(addr_storage \<Rightarrow> string option) \<Rightarrow> fork_env \<Rightarrow> addr_storage \<Rightarrow> fork_state \<Rightarrow> string option \<times> fork_state" where
  "forking_do_resolve gethostbyaddr fe addr st =
     (case worker st of
        Some wi \<Rightarrow> forking_exchange gethostbyaddr (addr_image addr) wi st
      | None \<Rightarrow>
          if \<not> socketpair_ok fe then (None, st)
          else if fork_result fe = -1 then (None, st\<lparr>worker := Some \<lparr>fd_open = False, child = -1\<rparr>\<rparr>)
          else forking_exchange gethostbyaddr (addr_image addr) \<lparr>fd_open = True, child = fork_result fe\<rparr> st)"

fun forking_run ::
  "(addr_storage \<Rightarrow> string option) \<Rightarrow> (fork_env \<times> addr_storage) list \<Rightarrow> fork_state \<Rightarrow> string option list \<times> fork_state" where
  "forking_run ghba [] st = ([], st)"
| "forking_run ghba ((fe, a) # cs) st =
     (let (r, st1) = forking_do_resolve ghba fe a st; (rs, st2) = forking_run ghba cs st1 in (r # rs, st2))"

subsection \<open>The reverse query\<close>

lemma show_nat_short:
  assumes "n < 256"
  shows "length (show_nat n) \<le> 3"
proof -
  have "n div 10 div 10 < 10" using assms by simp
  then have "length (show_nat_acc n []) \<le> 3"
    by (simp add: show_nat_acc.simps [of n] show_nat_acc.simps [of "n div 10"] show_nat_acc.simps [of "n div 10 div 10"] Let_def)
  then show ?thesis by (simp add: show_nat_def)
qed

lemma byte_short: "length (show_nat (unat (b :: byte))) \<le> 3"
  using show_nat_short [of "unat b"] unsigned_less [of b, where ?'a = nat] by simp

text \<open>The name of the query always fits in the 35 bytes of the buffer.\<close>

lemma reverse_name_fits: "length (reverse_name a) \<le> 30"
  using byte_short [of "a ! 0"] byte_short [of "a ! 1"] byte_short [of "a ! 2"] byte_short [of "a ! 3"]
  by (simp add: reverse_name_def)

text \<open>libresolv: the result is the name of the last pointer record; the copies of all the others are
  lost.\<close>

definition ptr_names :: "answer_rr list \<Rightarrow> string list" where
  "ptr_names = List.map_filter (\<lambda>rr. case rr of Ptr n \<Rightarrow> n | _ \<Rightarrow> None)"

lemma ptr_names_simps [simp]:
  "ptr_names [] = []"
  "ptr_names (Unparsed # rrs) = ptr_names rrs"
  "ptr_names (OtherType # rrs) = ptr_names rrs"
  "ptr_names (Ptr None # rrs) = ptr_names rrs"
  "ptr_names (Ptr (Some n) # rrs) = n # ptr_names rrs"
  by (simp_all add: ptr_names_def List.map_filter_simps)

lemma ptr_loop_names:
  "Ptr None \<notin> set rrs \<Longrightarrow> ptr_loop rrs ret lost =
     Some (if ptr_names rrs = [] then ret else Some (last (ptr_names rrs)),
           lost + (if ret = None then length (ptr_names rrs) - 1 else length (ptr_names rrs)))"
proof (induction rrs arbitrary: ret lost)
  case Nil
  show ?case by simp
next
  case (Cons rr rrs)
  show ?case
  proof (cases rr)
    case (Ptr n)
    with Cons.prems obtain name where "n = Some name" by (cases n) auto
    with Ptr show ?thesis using Cons by simp
  qed (use Cons in auto)
qed

lemma libresolv_last_name:
  assumes "as_af a = AF_INET" and "res_search (reverse_name (as_addr a)) = Some rrs" and "Ptr None \<notin> set rrs"
  shows "do_resolve_libresolv res_search a =
    Some (if ptr_names rrs = [] then None else Some (last (ptr_names rrs)), length (ptr_names rrs) - 1)"
  using assms reverse_name_fits [of "as_addr a"] by (simp add: do_resolve_libresolv_def ptr_loop_names)

text \<open>An ares channel whose initialisation failed is used uninitialised by the next call.\<close>

lemma ares_second_call_faults:
  assumes "as_af a = AF_INET" and "as_af b = AF_INET"
  shows "\<exists>chan. do_resolve_ares False passes a None = Some (Some None, chan) \<and>
    do_resolve_ares ok passes b chan = None"
  using assms by (simp add: do_resolve_ares_def)

subsection \<open>The helper process\<close>

text \<open>Given a whole \<open>addr_storage\<close>, the helper would answer with the name, cut to 63 characters.\<close>

lemma worker_whole_request:
  assumes "length (as_addr a) = 16" and "as_af a \<in> {AF_INET, AF_INET6}" and "as_len a \<le> 16"
  shows "addr_of_image (addr_image a) = a" and
    "forking_resolver_worker gethostbyaddr (addr_image a) =
       Some (case gethostbyaddr a of None \<Rightarrow> [] | Some n \<Rightarrow> take 63 n)"
proof -
  have "sint (word_of_int (as_af a) :: u32) = as_af a"
    using assms(2) by (auto simp: AF_INET_def AF_INET6_def)
  then show img: "addr_of_image (addr_image a) = a"
    using assms by (auto simp: addr_of_image_def addr_image_def le_value_le_bytes AF_INET_def AF_INET6_def)
  have "length (addr_image a) = 24" using assms(1) by (simp add: addr_image_def)
  then show "forking_resolver_worker gethostbyaddr (addr_image a) =
       Some (case gethostbyaddr a of None \<Rightarrow> [] | Some n \<Rightarrow> take 63 n)"
    using img by (simp add: forking_resolver_worker_def sizeof_addr_storage_def NAMESIZE_def cong: option.case_cong)
qed

text \<open>The parent writes the 16 bytes of a \<open>struct in6_addr\<close>, so the helper exits.\<close>

lemma exchange_fails:
  "forking_exchange ghba addr wi st = (None, \<lparr>worker = None, killed = killed st @ [child wi]\<rparr>)"
proof -
  have "length (take 24 (take 16 addr)) \<noteq> 24" by simp
  then show ?thesis
    unfolding forking_exchange_def forking_resolver_worker_def sizeof_addr_storage_def sizeof_in6_addr_def Let_def
    by (simp del: length_take take_take)
qed

lemma forking_call_None: "fst (forking_do_resolve ghba fe a st) = None"
  by (simp add: forking_do_resolve_def exchange_fails split: option.split)

text \<open>After a failed \<open>fork\<close>, the next call sends \<open>SIGKILL\<close> to process -1: to every process the program
  may signal.\<close>

lemma fork_failure_kills_all:
  assumes "worker st = None" and "socketpair_ok fe" and "fork_result fe = -1"
  shows "killed (snd (forking_do_resolve ghba fe' b (snd (forking_do_resolve ghba fe a st)))) = killed st @ [-1]"
  using assms by (simp add: forking_do_resolve_def exchange_fails)

lemma forking_run_None: "fst (forking_run ghba cs st) = replicate (length cs) None"
proof (induction cs arbitrary: st)
  case Nil
  show ?case by simp
next
  case (Cons c cs)
  obtain fe a where c: "c = (fe, a)" by (cases c)
  obtain r st1 where r: "forking_do_resolve ghba fe a st = (r, st1)" by fastforce
  with forking_call_None [of ghba fe a st] have "r = None" by simp
  with r c Cons.IH [of st1] show ?case by (simp add: case_prod_unfold)
qed

lemma forking_run_kills:
  assumes "\<forall>(fe, a) \<in> set cs. socketpair_ok fe \<and> fork_result fe \<noteq> -1"
  shows "snd (forking_run ghba cs \<lparr>worker = None, killed = ks\<rparr>) =
    \<lparr>worker = None, killed = ks @ map (\<lambda>(fe, a). fork_result fe) cs\<rparr>"
  using assms
proof (induction cs arbitrary: ks)
  case Nil
  show ?case by simp
next
  case (Cons c cs)
  obtain fe a where c: "c = (fe, a)" by (cases c)
  have "forking_do_resolve ghba fe a \<lparr>worker = None, killed = ks\<rparr> =
      (None, \<lparr>worker = None, killed = ks @ [fork_result fe]\<rparr>)"
    using Cons.prems c by (simp add: forking_do_resolve_def exchange_fails)
  with Cons c show ?case by (simp add: case_prod_unfold)
qed

text \<open>C24. The forking resolver never finds a name, whatever the helper's \<open>gethostbyaddr\<close> knows: in
  every sequence of calls each returns NULL, because the parent sends the 16 bytes of a
  \<open>struct in6_addr\<close> where the helper reads the 24 of a \<open>struct addr_storage\<close>, although the helper
  would answer a whole request. Each call that starts a helper also kills it.\<close>

theorem forking_resolver_never_resolves:
  assumes "length (as_addr b) = 16" and "as_af b \<in> {AF_INET, AF_INET6}" and "as_len b \<le> 16" and "ghba b = Some n"
    and "\<forall>(fe, a) \<in> set cs. socketpair_ok fe \<and> fork_result fe \<noteq> -1"
  shows "fst (forking_run ghba cs' st) = replicate (length cs') None \<and>
    killed (snd (forking_run ghba cs \<lparr>worker = None, killed = []\<rparr>)) = map (\<lambda>(fe, a). fork_result fe) cs \<and>
    forking_resolver_worker ghba (addr_image b) = Some (take 63 n)"
  using forking_run_None forking_run_kills [OF assms(5)] worker_whole_request(2) [OF assms(1-3)] assms(4) by simp

definition sample_address :: addr_storage where
  "sample_address = \<lparr>as_af = AF_INET, as_len = 4, as_addr = [10, 0, 0, 1] @ replicate 12 0\<rparr>"

theorem forking_resolver_never_resolves_witness:
  "fst (forking_run (\<lambda>_. Some ''gw'') (replicate 2 (\<lparr>socketpair_ok = True, fork_result = 7\<rparr>, sample_address))
     \<lparr>worker = None, killed = []\<rparr>) = [None, None] \<and>
   killed (snd (forking_run (\<lambda>_. Some ''gw'') (replicate 2 (\<lparr>socketpair_ok = True, fork_result = 7\<rparr>, sample_address))
     \<lparr>worker = None, killed = []\<rparr>)) = [7, 7] \<and>
   forking_resolver_worker (\<lambda>_. Some ''gw'') (addr_image sample_address) = Some ''gw''"
  using forking_resolver_never_resolves [of sample_address "\<lambda>_. Some ''gw''" "''gw''"
      "replicate 2 (\<lparr>socketpair_ok = True, fork_result = 7\<rparr>, sample_address)"
      "replicate 2 (\<lparr>socketpair_ok = True, fork_result = 7\<rparr>, sample_address)" "\<lparr>worker = None, killed = []\<rparr>"]
  by (simp add: sample_address_def numeral_2_eq_2)

end
