(* ===== verification/ServHash.thy ===== *)
theory ServHash
  imports AddrHash
begin

text \<open>
  serv_hash.c: service names keyed by port and protocol. The hash is
  \<open>protocol % 123\<close> on an \<open>int\<close>, so a negative protocol gives a negative bucket; the contract
  \<open>hash_keys\<close> holds for the non-negative ones, which are the only ones \<open>getprotobyname\<close>
  returns. The services database is a parameter: a list of \<open>servent\<close> entries and the function
  \<open>getprotobyname\<close>.
\<close>

record ip_service =
  port :: int
  serv_protocol :: int

record servent =
  s_name :: string
  s_port :: u16
  s_proto :: string

definition serv_hash_table_size :: int where
  "serv_hash_table_size = 123"

definition serv_hash_compare :: "ip_service \<Rightarrow> ip_service \<Rightarrow> bool" where
  "serv_hash_compare aa bb \<longleftrightarrow> port aa = port bb \<and> serv_protocol aa = serv_protocol bb"

definition serv_hash_hash :: "ip_service \<Rightarrow> int" where
  "serv_hash_hash serv = serv_protocol serv smod serv_hash_table_size"

definition serv_hash_copy_key :: "ip_service \<Rightarrow> ip_service" where
  "serv_hash_copy_key orig = orig"

definition serv_hash_create :: "ip_service hash_type" where
  "serv_hash_create = hash_initialise
     \<lparr>compare_fn = serv_hash_compare, hash_fn = serv_hash_hash, copy_key_fn = serv_hash_copy_key,
      table = [], hsize = nat serv_hash_table_size\<rparr>"

text \<open>The loop over \<open>getservent\<close>. Every entry whose protocol is known is inserted, without a
  look-up first, so later entries hide earlier ones with the same port and protocol.\<close>

fun serv_hash_initialise ::
  "(string \<Rightarrow> int option) \<Rightarrow> servent list \<Rightarrow> ip_service hash_type \<Rightarrow> (ip_service, string) node_heap
     \<Rightarrow> (ip_service hash_type \<times> (ip_service, string) node_heap) option" where
  "serv_hash_initialise getprotobyname [] T h = Some (T, h)"
| "serv_hash_initialise getprotobyname (ent # ents) T h =
     (case getprotobyname (s_proto ent) of
        None \<Rightarrow> serv_hash_initialise getprotobyname ents T h
      | Some p_proto \<Rightarrow> do {
          (_, T', h') \<leftarrow> hash_insert T h
             \<lparr>port = uint (ntohs (s_port ent)), serv_protocol = p_proto\<rparr> (s_name ent);
          serv_hash_initialise getprotobyname ents T' h'
        })"

definition serv_valid :: "ip_service \<Rightarrow> bool" where
  "serv_valid s \<longleftrightarrow> 0 \<le> serv_protocol s"

interpretation serv_table: hash_keys serv_hash_compare serv_hash_hash serv_hash_copy_key
  "nat serv_hash_table_size" serv_valid
proof unfold_locales
  fix a b :: ip_service
  show "serv_hash_compare a b \<longleftrightarrow> a = b"
    by (cases a; cases b) (auto simp: serv_hash_compare_def)
  show "0 \<le> serv_hash_hash a \<and> serv_hash_hash a < int (nat serv_hash_table_size)" if "serv_valid a"
    using that by (simp add: serv_hash_hash_def smod_nonneg_eq serv_hash_table_size_def serv_valid_def)
qed (simp add: serv_hash_copy_key_def)

text \<open>The binding an entry of the services database stands for.\<close>

definition serv_binding :: "(string \<Rightarrow> int option) \<Rightarrow> servent \<Rightarrow> (ip_service \<times> string) option" where
  "serv_binding getprotobyname ent =
     map_option (\<lambda>p. (\<lparr>port = uint (ntohs (s_port ent)), serv_protocol = p\<rparr>, s_name ent))
       (getprotobyname (s_proto ent))"

lemma serv_hash_initialise_map:
  assumes protos: "\<And>p n. getprotobyname p = Some n \<Longrightarrow> 0 \<le> n"
    and fns: "table_fns T = (serv_hash_compare, serv_hash_hash, serv_hash_copy_key, nat serv_hash_table_size)"
    and ok: "hash_ok T h Cs" and kv: "keys_ok serv_valid h Cs"
  shows "\<exists>T' h' Cs'. serv_hash_initialise getprotobyname ents T h = Some (T', h') \<and>
     hash_ok T' h' Cs' \<and> keys_ok serv_valid h' Cs' \<and> table_fns T' = table_fns T \<and>
     map_of (entries h' Cs') =
       map_of (rev (List.map_filter (serv_binding getprotobyname) ents) @ entries h Cs)"
  using fns ok kv
proof (induction ents arbitrary: T h Cs)
  case Nil
  then show ?case by (auto simp: List.map_filter_def)
next
  case (Cons ent ents)
  show ?case
  proof (cases "getprotobyname (s_proto ent)")
    case None
    with Cons show ?thesis by (simp add: List.map_filter_simps serv_binding_def)
  next
    case (Some p)
    let ?k = "\<lparr>port = uint (ntohs (s_port ent)), serv_protocol = p\<rparr>"
    have "serv_valid ?k" using protos [OF Some] by (simp add: serv_valid_def)
    then obtain T' h' Cs' where I: "hash_insert T h ?k (s_name ent) = Some (HASH_STATUS_OK, T', h')"
        "hash_ok T' h' Cs'" "keys_ok serv_valid h' Cs'" "table_fns T' = table_fns T"
        "map_of (entries h' Cs') = (map_of (entries h Cs))(?k \<mapsto> s_name ent)"
      using serv_table.insert_map [OF Cons.prems, of ?k "s_name ent"] by blast
    have "table_fns T' = (serv_hash_compare, serv_hash_hash, serv_hash_copy_key, nat serv_hash_table_size)"
      using I(4) Cons.prems(1) by simp
    from Cons.IH [OF this I(2,3)] I Some show ?thesis
      by (force simp: List.map_filter_simps serv_binding_def map_add_def fun_eq_iff split: option.split)
  qed
qed

end
