(* ===== verification/UiCommon.thy ===== *)
theory UiCommon
  imports ServHash History Options
begin

text \<open>
  ui_common.c: the text of a host and port, and the listing of all connections. \<open>inet_ntop\<close> is a
  parameter; a string printed into a buffer is the result. The \<open>float\<close> operations of \<open>readable_size\<close> are
  parameters.
\<close>

definition HISTORY_DIVISIONS :: nat where "HISTORY_DIVISIONS = 3"

definition HOSTNAME_LENGTH :: nat where "HOSTNAME_LENGTH = 256"

definition history_divs :: "int list" where "history_divs = [1, 5, 20]"

definition history_length :: "int \<Rightarrow> nat \<Rightarrow> int option" where
  "history_length history_len d =
     (if d < HISTORY_DIVISIONS
      then Some (if history_len < history_divs ! d then history_len * RESOLUTION else history_divs ! d * RESOLUTION)
      else None)"

text \<open>\<open>readable_size\<close>. What it asks of \<open>float\<close>: the order, products and quotients as the
  compiler rounds them, the value of an \<open>int\<close>, and the conversion \<open>%4.<p>f\<close>. The result is
  the text cut to the buffer.\<close>

record 'f float_ops =
  less_f :: "'f \<Rightarrow> 'f \<Rightarrow> bool"
  times_f :: "'f \<Rightarrow> 'f \<Rightarrow> 'f"
  divide_f :: "'f \<Rightarrow> 'f \<Rightarrow> 'f"
  int_f :: "int \<Rightarrow> 'f"
  show_f :: "nat \<Rightarrow> 'f \<Rightarrow> string"

definition UNIT_DIVISIONS :: nat where "UNIT_DIVISIONS = 4"

definition unit_bits :: "string list" where "unit_bits = [''b'', ''Kb'', ''Mb'', ''Gb'']"

definition unit_bytes :: "string list" where "unit_bytes = [''B'', ''KB'', ''MB'', ''GB'']"

definition print_size :: "'f float_ops \<Rightarrow> int \<Rightarrow> nat \<Rightarrow> 'f \<Rightarrow> nat \<Rightarrow> string" where
  "print_size F bytes prec x i = '' '' @ show_f F prec x @ (if bytes \<noteq> 0 then unit_bytes else unit_bits) ! i"

function size_loop :: "'f float_ops \<Rightarrow> 'f \<Rightarrow> int \<Rightarrow> int \<Rightarrow> nat \<Rightarrow> 'f \<Rightarrow> string" where
  "size_loop F n ksize bytes i sz =
     (if less_f F n (times_f F sz (int_f F 1000)) \<or> UNIT_DIVISIONS - 1 \<le> i
      then print_size F bytes 0 (divide_f F n sz) i
      else (let i = i + 1; sz = times_f F sz (int_f F ksize)
            in if less_f F n (times_f F sz (int_f F 10)) then print_size F bytes 2 (divide_f F n sz) i
               else if less_f F n (times_f F sz (int_f F 100)) then print_size F bytes 1 (divide_f F n sz) i
               else size_loop F n ksize bytes i sz))"
  by pat_completeness auto

termination by (relation "measure (\<lambda>(F, n, ksize, bytes, i, sz). UNIT_DIVISIONS - i)") auto

declare size_loop.simps [simp del]

definition readable_size :: "'f float_ops \<Rightarrow> 'f \<Rightarrow> nat \<Rightarrow> int \<Rightarrow> int \<Rightarrow> string" where
  "readable_size F n bsize ksize bytes =
     take (bsize - 1)
       (size_loop F (if bytes = 0 then times_f F n (int_f F 8) else n) ksize bytes 0 (int_f F 1))"

text \<open>Whatever the numbers are (also when the comparisons are those of a NaN), the loop ends with one of
  the four units: the arrays of unit names are never read outside.\<close>

lemma size_loop_unit:
  "i < UNIT_DIVISIONS \<Longrightarrow>
   \<exists>prec x j. j < UNIT_DIVISIONS \<and> size_loop F n ksize bytes i sz = print_size F bytes prec x j"
proof (induction F n ksize bytes i sz rule: size_loop.induct)
  case (1 F n ksize bytes i sz)
  show ?case
  proof (cases "less_f F n (times_f F sz (int_f F 1000)) \<or> UNIT_DIVISIONS - 1 \<le> i")
    case True
    with 1(2) show ?thesis by (subst size_loop.simps) auto
  next
    case False
    then have i: "i + 1 < UNIT_DIVISIONS" by (simp add: UNIT_DIVISIONS_def)
    from False 1(1) [OF False refl refl _ _ i] i show ?thesis
      by (subst size_loop.simps) (auto simp: Let_def)
  qed
qed

text \<open>The conversions \<open>%-*s\<close> and \<open>%-.*s\<close>.\<close>

definition pad_right :: "nat \<Rightarrow> string \<Rightarrow> string" where
  "pad_right w s = s @ replicate (w - length s) CHR '' ''"

text \<open>\<open>sprint_host\<close>. The first argument says whether the 16 bytes at the address are zero (for an
  IPv4 address these are more bytes than it has), the second is the text \<open>inet_ntop\<close> writes. The service is printed over the
  line from the position \<open>left\<close> on. The bound on \<open>left\<close> is computed in \<open>size_t\<close>: for a
  service longer than \<open>L\<close> it wraps to a number above every \<open>left\<close>. A negative width of
  \<open>%-*s\<close> counts as its absolute value. The line is a buffer of \<open>HOSTNAME_LENGTH\<close> bytes.\<close>

definition sprint_host ::
  "bool \<Rightarrow> string \<Rightarrow> options_t \<Rightarrow> ip_service hash_type \<Rightarrow> (ip_service, string) node_heap \<Rightarrow> bool \<Rightarrow> u16 \<Rightarrow> u16
     \<Rightarrow> nat \<Rightarrow> int \<Rightarrow> string option" where
  "sprint_host unspecified ntop options service_hash service_nodes inet prt proto L unspecified_as_star = do {
     let hostname = (if unspecified \<and> unspecified_as_star \<noteq> 0 then '' * '' else ntop);
     service \<leftarrow> (if prt \<noteq> 0 then
         (if portresolution options \<noteq> 0 then do {
            (st, s_name) \<leftarrow> hash_find service_hash service_nodes \<lparr>port = uint prt, serv_protocol = uint proto\<rparr>;
            Some (case s_name of Some s \<Rightarrow> take (HOSTNAME_LENGTH - 1) ('':'' @ s) | None \<Rightarrow> '':'' @ show_nat (unat prt)) }
          else Some ('':'' @ show_nat (unat prt)))
       else Some []);
     let bare = (prt = 0 \<or> inet \<or> L < 2);
     let line = (if bare then pad_right L hostname else ''['' @ take (L - 2) hostname @ '']'');
     let left = length hostname + (if bare then 0 else 2);
     let left = (if length service \<le> L \<and> left > L - length service then L - length service else left);
     let text = pad_right (nat \<bar>int L - int left\<bar>) service;
     (if length line < HOSTNAME_LENGTH \<and> left + length text < HOSTNAME_LENGTH
      then Some (if left \<le> length line then take left line @ text else line) else None)
   }"

text \<open>\<open>print_all_history\<close>: the lines printed for the connections, and the count. Of the many
  parameters of the two calls only the address text varies; the totals wrap at 64 bits.\<close>

definition history_line ::
  "(u32 \<Rightarrow> bool) \<Rightarrow> (u32 \<Rightarrow> string) \<Rightarrow> options_t \<Rightarrow> ip_service hash_type \<Rightarrow> (ip_service, string) node_heap
     \<Rightarrow> addr_pair \<times> history_type \<Rightarrow> string option" where
  "history_line unspec ntop options T h x = do {
     let (ap, d) = x;
     host1 \<leftarrow> sprint_host (unspec (src ap)) (ntop (src ap)) options T h True (src_port ap) (protocol ap) 40 (aggregate_src options);
     host2 \<leftarrow> sprint_host (unspec (dst ap)) (ntop (dst ap)) options T h True (dst_port ap) (protocol ap) 40 (aggregate_dest options);
     Some (host1 @ '' <->  '' @ host2 @ '' '' @ show_nat (unat (protocol ap)) @ '' '' @
           show_nat (unat (total_sent d + total_recv d)))
   }"

fun history_lines ::
  "(addr_pair \<times> history_type \<Rightarrow> string option) \<Rightarrow> (addr_pair \<times> history_type) list \<Rightarrow> string list option" where
  "history_lines f [] = Some []"
| "history_lines f (x # xs) = do { l \<leftarrow> f x; ls \<leftarrow> history_lines f xs; Some (l # ls) }"

definition print_all_history ::
  "(u32 \<Rightarrow> bool) \<Rightarrow> (u32 \<Rightarrow> string) \<Rightarrow> options_t \<Rightarrow> ip_service hash_type \<Rightarrow> (ip_service, string) node_heap
     \<Rightarrow> hist \<Rightarrow> (string list \<times> nat) option" where
  "print_all_history unspec ntop options T h hs = do {
     cs \<leftarrow> connections hs;
     ls \<leftarrow> history_lines (history_line unspec ntop options T h) cs;
     Some (ls, length cs)
   }"

subsection \<open>The layout of a host\<close>

lemma length_pad_right [simp]: "length (pad_right w s) = max w (length s)"
  by (simp add: pad_right_def)

text \<open>A service as it is printed when ports are not resolved.\<close>

definition service_text :: "u16 \<Rightarrow> string" where
  "service_text prt = (if prt = 0 then [] else '':'' @ show_nat (unat prt))"

lemma length_show_nat: "n < 10 ^ k \<Longrightarrow> 0 < k \<Longrightarrow> length (show_nat n) \<le> k"
proof (induction k arbitrary: n)
  case (Suc k)
  show ?case
  proof (cases "n < 10")
    case True
    then show ?thesis by (subst show_nat_unfold) simp
  next
    case False
    then have "n div 10 < 10 ^ k" "0 < k" using Suc.prems by (auto intro: gr0I)
    from Suc.IH [OF this] False show ?thesis by (subst show_nat_unfold) simp
  qed
qed simp

lemma length_service_text: "length (service_text prt) \<le> 6"
proof -
  have "unat prt < 2 ^ LENGTH(16)" by (rule unsigned_less)
  then have "unat prt < 65536" by simp
  then have "length (show_nat (unat prt)) \<le> 5" by (intro length_show_nat) auto
  then show ?thesis by (simp add: service_text_def)
qed

lemma nat_int_diff: "nat (int a - int b) = a - b"
  by simp

text \<open>A host and service that fit stand side by side, padded with blanks to the width.\<close>

lemma sprint_host_fits:
  assumes "portresolution options = 0" and "star = 0 \<or> \<not> unspec" and "length ntop + 6 \<le> L" and "L < HOSTNAME_LENGTH"
  shows "sprint_host unspec ntop options T h True prt proto L star = Some (pad_right L (ntop @ service_text prt))"
proof -
  have h: "(if unspec \<and> star \<noteq> 0 then '' * '' else ntop) = ntop" using assms(2) by auto
  have l: "length ntop + length (service_text prt) \<le> L" using assms(3) length_service_text [of prt] by simp
  show ?thesis
  proof (cases "prt = 0")
    case True
    then show ?thesis using assms(1,4) l unfolding sprint_host_def h
      by (simp add: Let_def pad_right_def service_text_def nat_int_diff)
  next
    case False
    then have "\<not> L - Suc (length (show_nat (unat prt))) < length ntop" using l by (simp add: service_text_def)
    with False show ?thesis using assms(1,4) l unfolding sprint_host_def h
      by (simp add: Let_def pad_right_def service_text_def nat_int_diff)
  qed
qed

text \<open>The line of a connection.\<close>

definition connection_text :: "(u32 \<Rightarrow> string) \<Rightarrow> addr_pair \<times> history_type \<Rightarrow> string" where
  "connection_text ntop x = (case x of (ap, d) \<Rightarrow>
     pad_right 40 (ntop (src ap) @ service_text (src_port ap)) @ '' <->  '' @
     pad_right 40 (ntop (dst ap) @ service_text (dst_port ap)) @ '' '' @ show_nat (unat (protocol ap)) @ '' '' @
     show_nat (unat (total_sent d + total_recv d)))"

lemma history_line_text:
  assumes "portresolution options = 0" and "aggregate_src options = 0" and "aggregate_dest options = 0"
    and "\<And>a. length (ntop a) \<le> 15"
  shows "history_line unspec ntop options T h x = Some (connection_text ntop x)"
proof -
  obtain ap d where x: "x = (ap, d)" by (cases x)
  have l: "length (ntop a) + 6 \<le> 40" for a using assms(4) [of a] by simp
  note S = sprint_host_fits [OF assms(1), where T = T and h = h and L = 40 and star = 0, OF _ l]
  have b: "(40 :: nat) < HOSTNAME_LENGTH" by (simp add: HOSTNAME_LENGTH_def)
  show ?thesis using S b assms(2,3) by (simp add: history_line_def x connection_text_def)
qed

lemma history_lines_map: "(\<And>x. f x = Some (g x)) \<Longrightarrow> history_lines f xs = Some (map g xs)"
  by (induction xs) simp_all

subsection \<open>Properties\<close>

text \<open>The listing of all connections. With ports and hosts shown as numbers and without
  aggregation, \<open>print_all_history\<close> prints for a well-formed history exactly one line per connection, in
  the order of the table, each with both ends padded to 40 columns, the protocol and the total of
  both directions modulo 2^64, and counts them.\<close>

theorem print_all_history_lists:
  assumes "hist_ok hs" and "portresolution options = 0" and "aggregate_src options = 0" and "aggregate_dest options = 0"
    and "\<And>a. length (ntop a) \<le> 15"
  shows "\<exists>cs. connections hs = Some cs \<and> map_of cs = hist_map hs \<and> distinct (map fst cs) \<and>
     print_all_history unspec ntop options T h hs = Some (map (connection_text ntop) cs, length cs)"
proof -
  obtain cs where cs: "connections hs = Some cs" "distinct (map fst cs)" "map_of cs = hist_map hs"
    using hist_connections [OF assms(1)] by blast
  have "history_lines (history_line unspec ntop options T h) cs = Some (map (connection_text ntop) cs)"
    by (rule history_lines_map, rule history_line_text [OF assms(2-5)])
  with cs show ?thesis by (simp add: print_all_history_def)
qed

theorem print_all_history_lists_witness:
  "\<exists>hs. one_conn sample_key sample_rec hs \<and>
     print_all_history (\<lambda>_. False) (\<lambda>a. ''10.0.0.1'') (options_initial\<lparr>portresolution := 0, aggregate_src := 0,
       aggregate_dest := 0\<rparr>) serv_hash_create heap_empty hs
       = Some ([connection_text (\<lambda>a. ''10.0.0.1'') (sample_key, sample_rec)], 1)"
proof -
  obtain hs where h: "one_conn sample_key sample_rec hs" using sample_history by blast
  let ?o = "options_initial\<lparr>portresolution := 0, aggregate_src := 0, aggregate_dest := 0\<rparr>"
  have ok: "hist_ok hs" "connections hs = Some [(sample_key, sample_rec)]" using h by (simp_all add: one_conn_def)
  have o: "portresolution ?o = 0" "aggregate_src ?o = 0" "aggregate_dest ?o = 0" by simp_all
  have n: "length ((\<lambda>a :: u32. ''10.0.0.1'') a) \<le> 15" for a by simp
  from print_all_history_lists [OF ok(1) o n, of "\<lambda>_. False" serv_hash_create heap_empty] ok(2) h
  show ?thesis by auto
qed

end
