(* ===== verification/SortedList.thy ===== *)
theory SortedList
  imports CHeap
begin

text \<open>
  sorted_list.c: a linked list kept in the order of a comparison function. Nodes are objects of a
  heap and the operations follow and rewire the pointers of the code; \<open>lseg\<close> relates a stretch of
  nodes to the list of their addresses and data. The list header's \<open>root\<close> is a node whose data is
  never read: it is represented by its \<open>next\<close> pointer, and a pointer to it by \<open>None\<close>. The
  node lists of read_target_ip.c use the same nodes and facts.
\<close>

record 'a sorted_list_node =
  sl_next :: "addr option"
  sl_data :: 'a

type_synonym 'a sl_heap = "'a sorted_list_node heap"

record 'a sorted_list_type =
  root_next :: "addr option"
  sl_compare :: "'a \<Rightarrow> 'a \<Rightarrow> int"

definition sorted_list_initialise :: "'a sorted_list_type \<Rightarrow> 'a sorted_list_type" where
  "sorted_list_initialise l = l\<lparr>root_next := None\<rparr>"

text \<open>The walk of \<open>sorted_list_insert\<close>: \<open>p\<close> is the node before the insertion point, \<open>nxt\<close>
  its successor.\<close>

partial_function (option) sl_walk ::
  "('a \<Rightarrow> 'a \<Rightarrow> int) \<Rightarrow> 'a sl_heap \<Rightarrow> 'a \<Rightarrow> addr option \<Rightarrow> addr option \<Rightarrow> (addr option \<times> addr option) option" where
  "sl_walk cmp h item p nxt =
     (case nxt of
        None \<Rightarrow> Some (p, None)
      | Some b \<Rightarrow> Option.bind (hread h b) (\<lambda>n.
          if cmp item (sl_data n) > 0 then sl_walk cmp h item (Some b) (sl_next n) else Some (p, Some b)))"

definition sorted_list_insert ::
  "'a sorted_list_type \<Rightarrow> 'a sl_heap \<Rightarrow> 'a \<Rightarrow> ('a sorted_list_type \<times> 'a sl_heap) option" where
  "sorted_list_insert l h item = do {
     (p, nxt) \<leftarrow> sl_walk (sl_compare l) h item None (root_next l);
     let (node, h) = xmalloc h \<lparr>sl_next = nxt, sl_data = item\<rparr>;
     (case p of
        None \<Rightarrow> Some (l\<lparr>root_next := Some node\<rparr>, h)
      | Some a \<Rightarrow> do { n \<leftarrow> hread h a; h \<leftarrow> hwrite h a (n\<lparr>sl_next := Some node\<rparr>); Some (l, h) })
   }"

definition sorted_list_next_item ::
  "'a sorted_list_type \<Rightarrow> 'a sl_heap \<Rightarrow> addr option \<Rightarrow> addr option option" where
  "sorted_list_next_item l h prev =
     (case prev of None \<Rightarrow> Some (root_next l) | Some a \<Rightarrow> map_option sl_next (hread h a))"

text \<open>The loop that frees the nodes.\<close>

partial_function (option) free_list :: "'a sl_heap \<Rightarrow> addr option \<Rightarrow> 'a sl_heap option" where
  "free_list h p =
     (case p of
        None \<Rightarrow> Some h
      | Some a \<Rightarrow> Option.bind (hread h a) (\<lambda>n. Option.bind (hfree h a) (\<lambda>h. free_list h (sl_next n))))"

definition sorted_list_destroy ::
  "'a sorted_list_type \<Rightarrow> 'a sl_heap \<Rightarrow> ('a sorted_list_type \<times> 'a sl_heap) option" where
  "sorted_list_destroy l h = map_option (\<lambda>h. (l\<lparr>root_next := None\<rparr>, h)) (free_list h (root_next l))"

text \<open>A client's loop \<open>while ((p = sorted_list_next_item(list, p)) != NULL)\<close>.\<close>

partial_function (option) sl_items :: "'a sorted_list_type \<Rightarrow> 'a sl_heap \<Rightarrow> addr option \<Rightarrow> 'a list option" where
  "sl_items l h prev = Option.bind (sorted_list_next_item l h prev) (\<lambda>p.
     case p of
       None \<Rightarrow> Some []
     | Some a \<Rightarrow> Option.bind (hread h a) (\<lambda>n.
         Option.bind (sl_items l h (Some a)) (\<lambda>ds. Some (sl_data n # ds))))"

subsection \<open>Segments of nodes\<close>

fun lseg :: "'a sl_heap \<Rightarrow> addr option \<Rightarrow> (addr \<times> 'a) list \<Rightarrow> addr option \<Rightarrow> bool" where
  "lseg h p [] q \<longleftrightarrow> p = q"
| "lseg h p ((a, d) # xs) q \<longleftrightarrow>
     p = Some a \<and> (\<exists>n. cells h a = Some n \<and> sl_data n = d \<and> lseg h (sl_next n) xs q)"

lemma lseg_append: "lseg h p (xs @ ys) q \<longleftrightarrow> (\<exists>r. lseg h p xs r \<and> lseg h r ys q)"
  by (induction h p xs q rule: lseg.induct) auto

lemma lseg_cong: "\<forall>a \<in> fst ` set xs. cells h' a = cells h a \<Longrightarrow> lseg h' p xs q = lseg h p xs q"
  by (induction h p xs q rule: lseg.induct) auto

lemma lseg_upd:
  assumes "a \<notin> fst ` set xs" and "cells h' = (cells h)(a := v)"
  shows "lseg h' p xs q = lseg h p xs q"
proof (rule lseg_cong, rule ballI)
  fix b assume "b \<in> fst ` set xs"
  with assms(1) have "b \<noteq> a" by blast
  then show "cells h' b = cells h b" using assms(2) by simp
qed

lemma lseg_live: "lseg h p xs q \<Longrightarrow> a \<in> fst ` set xs \<Longrightarrow> cells h a \<noteq> None"
  by (induction h p xs q rule: lseg.induct) auto

text \<open>A complete list with different nodes, all older than the next allocation.\<close>

definition sl_ok :: "'a sl_heap \<Rightarrow> addr option \<Rightarrow> (addr \<times> 'a) list \<Rightarrow> bool" where
  "sl_ok h p xs \<longleftrightarrow> heap_ok h \<and> lseg h p xs None \<and> distinct (map fst xs)"

lemma sl_walk_spec:
  assumes "lseg h nxt xs None"
  shows "sl_walk cmp h item p nxt = Some
     (let ys = takeWhile (\<lambda>x. cmp item (snd x) > 0) xs; zs = dropWhile (\<lambda>x. cmp item (snd x) > 0) xs
      in (if ys = [] then p else Some (fst (last ys)), if zs = [] then None else Some (fst (hd zs))))"
  using assms
proof (induction xs arbitrary: p nxt)
  case Nil
  then show ?case by (subst sl_walk.simps) simp
next
  case (Cons x xs)
  obtain a d where x: "x = (a, d)" by (cases x)
  obtain n where n: "nxt = Some a" "cells h a = Some n" "sl_data n = d" "lseg h (sl_next n) xs None"
    using Cons.prems x by auto
  show ?case
    using n x Cons.IH [OF n(4), of "Some a"] by (subst sl_walk.simps) (auto simp: hread_def Let_def)
qed

lemma free_list_spec:
  "lseg h p xs None \<Longrightarrow> distinct (map fst xs) \<Longrightarrow>
   \<exists>h'. free_list h p = Some h' \<and> (\<forall>a. cells h' a = (if a \<in> fst ` set xs then None else cells h a)) \<and> brk h' = brk h"
proof (induction xs arbitrary: h p)
  case Nil
  then show ?case by (subst free_list.simps) simp
next
  case (Cons x xs)
  obtain a d where x: "x = (a, d)" by (cases x)
  obtain n where n: "p = Some a" "cells h a = Some n" "lseg h (sl_next n) xs None"
    using Cons.prems x by auto
  let ?h = "h\<lparr>cells := (cells h)(a := None)\<rparr>"
  have "lseg ?h (sl_next n) xs None"
    using n(3) Cons.prems(2) x by (subst lseg_cong [of _ ?h h]) auto
  then obtain h' where "free_list ?h (sl_next n) = Some h'"
      "\<forall>b. cells h' b = (if b \<in> fst ` set xs then None else cells ?h b)" "brk h' = brk ?h"
    using Cons.IH [of ?h "sl_next n"] Cons.prems(2) by auto
  with n x show ?case by (subst free_list.simps) (auto simp: hread_def hfree_def)
qed

lemma sl_items_spec: "lseg h (root_next l) xs None \<Longrightarrow> sl_items l h None = Some (map snd xs)"
proof -
  have "sl_items l h p = Some (map snd zs)"
    if "sorted_list_next_item l h p = Some q" "lseg h q zs None" for p q zs
    using that
  proof (induction zs arbitrary: p q)
    case Nil
    then show ?case by (subst sl_items.simps) simp
  next
    case (Cons z zs)
    obtain a d where z: "z = (a, d)" by (cases z)
    obtain n where n: "q = Some a" "cells h a = Some n" "sl_data n = d" "lseg h (sl_next n) zs None"
      using Cons.prems z by auto
    have "sl_items l h (Some a) = Some (map snd zs)"
      by (rule Cons.IH [OF _ n(4)]) (simp add: sorted_list_next_item_def hread_def n(2))
    with Cons.prems(1) n z show ?case by (subst sl_items.simps) (simp add: hread_def)
  qed
  then show "lseg h (root_next l) xs None \<Longrightarrow> ?thesis" by (simp add: sorted_list_next_item_def)
qed

subsection \<open>Insertion\<close>

text \<open>Inserting a node between the two parts that the walk separates.\<close>

lemma sorted_list_insert_spec:
  assumes "sl_ok h (root_next l) xs"
  shows "\<exists>l' h' q. sorted_list_insert l h item = Some (l', h') \<and> sl_compare l' = sl_compare l \<and>
     sl_ok h' (root_next l') (takeWhile (\<lambda>x. sl_compare l item (snd x) > 0) xs @ (q, item) #
       dropWhile (\<lambda>x. sl_compare l item (snd x) > 0) xs) \<and>
     (\<forall>b. b \<noteq> q \<longrightarrow> cells h b = None \<longrightarrow> cells h' b = None)"
proof -
  define ys where "ys = takeWhile (\<lambda>x. sl_compare l item (snd x) > 0) xs"
  define zs where "zs = dropWhile (\<lambda>x. sl_compare l item (snd x) > 0) xs"
  have xs: "xs = ys @ zs" by (simp add: ys_def zs_def)
  have ok: "heap_ok h" "lseg h (root_next l) (ys @ zs) None" "distinct (map fst (ys @ zs))"
    using assms by (simp_all add: sl_ok_def xs)
  let ?p = "if ys = [] then None else Some (fst (last ys))"
  let ?nxt = "if zs = [] then None else Some (fst (hd zs))"
  have w: "sl_walk (sl_compare l) h item None (root_next l) = Some (?p, ?nxt)"
    using sl_walk_spec [of h "root_next l" xs "sl_compare l" item None] assms
    by (simp add: sl_ok_def Let_def ys_def zs_def)
  obtain r where r: "lseg h (root_next l) ys r" "lseg h r zs None" using ok(2) lseg_append by blast
  have nxt: "r = ?nxt" using r(2) by (cases zs) auto
  let ?q = "brk h"
  let ?h1 = "h\<lparr>cells := (cells h)(?q \<mapsto> \<lparr>sl_next = r, sl_data = item\<rparr>), brk := Suc ?q\<rparr>"
  have x: "xmalloc h \<lparr>sl_next = r, sl_data = item\<rparr> = (?q, ?h1)" by (simp add: xmalloc_def)
  have fresh: "?q \<notin> fst ` set ys" "?q \<notin> fst ` set zs"
  proof -
    have "?q \<notin> fst ` set (ys @ zs)" using lseg_live [OF ok(2)] heap_ok_fresh [OF ok(1)] by blast
    then show "?q \<notin> fst ` set ys" "?q \<notin> fst ` set zs" unfolding set_append image_Un by blast+
  qed
  have hok: "heap_ok ?h1" using ok(1) by (auto simp: heap_ok_def less_Suc_eq)
  have z1: "lseg ?h1 r zs None" using r(2) by (simp add: lseg_upd [OF fresh(2)])
  show ?thesis
  proof (cases ys rule: rev_cases)
    case Nil
    have "sorted_list_insert l h item = Some (l\<lparr>root_next := Some ?q\<rparr>, ?h1)"
      using w x nxt Nil by (simp add: sorted_list_insert_def)
    moreover have "sl_ok ?h1 (Some ?q) ((?q, item) # zs)"
      using z1 ok(3) fresh Nil hok by (simp add: sl_ok_def)
    ultimately show ?thesis unfolding ys_def [symmetric] zs_def [symmetric] using Nil
      by (intro exI [of _ "l\<lparr>root_next := Some ?q\<rparr>"] exI [of _ ?h1] exI [of _ ?q]) simp
  next
    case (snoc us u)
    obtain a d where u: "u = (a, d)" by (cases u)
    obtain s n where n: "lseg h (root_next l) us (Some a)" "cells h a = Some n" "sl_data n = d" "sl_next n = r"
      using r(1) snoc u by (auto simp: lseg_append)
    have aq: "a \<noteq> ?q" using fresh(1) snoc u by auto
    let ?h2 = "?h1\<lparr>cells := (cells ?h1)(a \<mapsto> n\<lparr>sl_next := Some ?q\<rparr>)\<rparr>"
    have i: "sorted_list_insert l h item = Some (l, ?h2)"
      using w x nxt snoc u n(2) aq by (simp add: sorted_list_insert_def hread_def hwrite_def)
    have au: "a \<notin> fst ` set us" "a \<notin> fst ` set zs" using ok(3) snoc u by auto
    have fu: "?q \<notin> fst ` set us" using fresh(1) snoc by auto
    have "lseg ?h1 (root_next l) us (Some a)" using n(1) by (simp add: lseg_upd [OF fu])
    then have "lseg ?h2 (root_next l) us (Some a)" by (subst lseg_upd [OF au(1), of ?h2 ?h1]) simp_all
    moreover have "lseg ?h2 r zs None" using z1 by (subst lseg_upd [OF au(2), of ?h2 ?h1]) simp_all
    ultimately have "lseg ?h2 (root_next l) (us @ (a, d) # (?q, item) # zs) None"
      using n(3) aq by (auto simp: lseg_append)
    moreover have "heap_ok ?h2" using hok n(2) ok(1) by (auto simp: heap_ok_def)
    ultimately have "sl_ok ?h2 (root_next l) (ys @ (?q, item) # zs)"
      using ok(3) fresh snoc u by (auto simp: sl_ok_def)
    then show ?thesis unfolding ys_def [symmetric] zs_def [symmetric] using i n(2)
      by (intro exI [of _ l] exI [of _ ?h2] exI [of _ ?q]) auto
  qed
qed

text \<open>With a comparison by a key, the insertion is that of insertion sort.\<close>

lemma insort_split:
  "takeWhile (\<lambda>x. k x < k item) xs @ item # dropWhile (\<lambda>x. k x < k item) xs = insort_key k item xs"
  for k :: "'a \<Rightarrow> 'b :: linorder"
  by (induction xs) auto

fun insert_all :: "'a list \<Rightarrow> 'a sorted_list_type \<times> 'a sl_heap \<Rightarrow> ('a sorted_list_type \<times> 'a sl_heap) option" where
  "insert_all [] s = Some s"
| "insert_all (x # xs) (l, h) = Option.bind (sorted_list_insert l h x) (insert_all xs)"

lemma insert_all_spec:
  assumes "\<And>a b. 0 < cmp a b \<longleftrightarrow> k b < (k a :: 'b :: linorder)"
  shows "sl_ok h (root_next l) zs \<Longrightarrow> sl_compare l = cmp \<Longrightarrow> (\<forall>a. cells h a \<noteq> None \<longrightarrow> a \<in> fst ` set zs) \<Longrightarrow>
   \<exists>l' h' zs'. insert_all xs (l, h) = Some (l', h') \<and> sl_compare l' = cmp \<and> sl_ok h' (root_next l') zs' \<and>
     map snd zs' = foldl (\<lambda>ys x. insort_key k x ys) (map snd zs) xs \<and>
     (\<forall>a. cells h' a \<noteq> None \<longrightarrow> a \<in> fst ` set zs')"
proof (induction xs arbitrary: l h zs)
  case Nil
  then show ?case by auto
next
  case (Cons x xs)
  have c: "(0 < sl_compare l x (snd y)) = (k (snd y) < k x)" for y using assms Cons.prems(2) by simp
  let ?ys = "takeWhile (\<lambda>y. k (snd y) < k x) zs" and ?ws = "dropWhile (\<lambda>y. k (snd y) < k x) zs"
  obtain l1 h1 q where 1: "sorted_list_insert l h x = Some (l1, h1)" "sl_compare l1 = sl_compare l"
      "sl_ok h1 (root_next l1) (?ys @ (q, x) # ?ws)" "\<forall>b. b \<noteq> q \<longrightarrow> cells h b = None \<longrightarrow> cells h1 b = None"
    using sorted_list_insert_spec [OF Cons.prems(1), of x] unfolding c by blast
  have zs: "set ?ys \<union> set ?ws = set zs" by (metis set_append takeWhile_dropWhile_id)
  have live: "\<forall>a. cells h1 a \<noteq> None \<longrightarrow> a \<in> fst ` set (?ys @ (q, x) # ?ws)"
  proof (intro allI impI)
    fix a assume "cells h1 a \<noteq> None"
    then have "a = q \<or> a \<in> fst ` set zs" using 1(4) Cons.prems(3) by metis
    then show "a \<in> fst ` set (?ys @ (q, x) # ?ws)" using zs by auto
  qed
  have "map snd ?ys = takeWhile (\<lambda>d. k d < k x) (map snd zs)" "map snd ?ws = dropWhile (\<lambda>d. k d < k x) (map snd zs)"
    by (simp_all add: takeWhile_map dropWhile_map comp_def)
  then have "map snd (?ys @ (q, x) # ?ws) = insort_key k x (map snd zs)" using insort_split [of k x] by simp
  with Cons.IH [OF 1(3) _ live] 1(1,2) Cons.prems(2) show ?case by auto
qed

subsection \<open>Properties\<close>

text \<open>C39. The sorted list. With a comparison function that orders items by a key, inserting items one
  after the other into a freshly initialised list never faults; the loop over
  \<open>sorted_list_next_item\<close> then yields the items sorted by key, those of equal key in the reverse of
  the order of insertion; and \<open>sorted_list_destroy\<close> frees every node and leaves an empty list.\<close>

theorem sorted_list_sorts:
  assumes "\<And>a b. 0 < cmp a b \<longleftrightarrow> k b < (k a :: 'b :: linorder)"
  shows "\<exists>l h h'. insert_all xs (sorted_list_initialise \<lparr>root_next = p, sl_compare = cmp\<rparr>, heap_empty) = Some (l, h) \<and>
     sl_items l h None = Some (sort_key k (rev xs)) \<and>
     sorted_list_destroy l h = Some (l\<lparr>root_next := None\<rparr>, h') \<and> (\<forall>a. cells h' a = None)"
proof -
  let ?l = "sorted_list_initialise \<lparr>root_next = p, sl_compare = cmp\<rparr>"
  have "sl_ok (heap_empty :: 'a sl_heap) (root_next ?l) []" by (simp add: sl_ok_def sorted_list_initialise_def)
  then obtain l h zs where R: "insert_all xs (?l, heap_empty) = Some (l, h)" "sl_ok h (root_next l) zs"
      "map snd zs = foldl (\<lambda>ys x. insort_key k x ys) [] xs" "\<forall>a. cells h a \<noteq> None \<longrightarrow> a \<in> fst ` set zs"
    using insert_all_spec [of cmp k heap_empty ?l "[]" xs, OF assms]
    by (auto simp: sorted_list_initialise_def heap_empty_def)
  have "foldl (\<lambda>ys x. insort_key k x ys) [] xs = sort_key k (rev xs)"
    by (simp add: sort_key_def foldr_conv_foldl)
  then have i: "sl_items l h None = Some (sort_key k (rev xs))"
    using sl_items_spec [of h l zs] R(2,3) by (simp add: sl_ok_def)
  obtain h' where "free_list h (root_next l) = Some h'" "\<forall>a. cells h' a = (if a \<in> fst ` set zs then None else cells h a)"
    using free_list_spec [of h "root_next l" zs] R(2) by (auto simp: sl_ok_def)
  with R(1,4) i show ?thesis by (auto simp: sorted_list_destroy_def)
qed

theorem sorted_list_sorts_witness:
  "\<exists>l h. insert_all [(3, 1), (1, 2), (3, 3)] (sorted_list_initialise
        \<lparr>root_next = Some 7, sl_compare = (\<lambda>a b. fst a - fst b)\<rparr>, heap_empty) = Some (l, h) \<and>
     sl_items l h None = Some [(1, 2), (3, 3), (3, 1 :: int)]"
proof -
  have k: "0 < (\<lambda>a b. fst a - fst b) a b \<longleftrightarrow> fst b < fst a" for a b :: "int \<times> int" by simp
  have s: "sort_key fst (rev [(3, 1), (1, 2), (3, 3)]) = [(1, 2), (3, 3), (3 :: int, 1 :: int)]" by simp
  from sorted_list_sorts [of "\<lambda>a b. fst a - fst b" fst "[(3, 1), (1, 2), (3, 3)]" "Some 7", OF k]
  show ?thesis unfolding s by blast
qed

end
