(* ===== verification/ReadTargetIp.thy ===== *)
theory ReadTargetIp
  imports SortedList CString
begin

text \<open>
  read_target_ip.c: a linked list of addresses read from a file. The nodes and the loop that frees
  them are those of sorted_list.c. \<open>inet_aton\<close> is a parameter; when it does not recognise an
  address the node's field keeps what \<open>malloc\<close> left there, the parameter \<open>junk\<close>. The state is the
  global \<open>head\<close> and the heap.
\<close>

definition MAXBUFFLEN :: nat where "MAXBUFFLEN = 32"

type_synonym addr_list = "addr option \<times> u32 sl_heap"

definition insert_ip :: "(string \<Rightarrow> u32 option) \<Rightarrow> u32 \<Rightarrow> string \<Rightarrow> addr_list \<Rightarrow> addr_list" where
  "insert_ip inet_aton junk a s =
     (case s of (head, h) \<Rightarrow>
        (case xmalloc h \<lparr>sl_next = head, sl_data = (case inet_aton a of Some w \<Rightarrow> w | None \<Rightarrow> junk)\<rparr> of
           (link, h') \<Rightarrow> (Some link, h')))"

text \<open>The numbers \<open>printList\<close> prints.\<close>

definition printList :: "addr_list \<Rightarrow> u32 list option" where
  "printList s = (case s of (head, h) \<Rightarrow> sl_items \<lparr>root_next = head, sl_compare = (\<lambda>_ _. 0)\<rparr> h None)"

text \<open>\<open>free_addr_list\<close> leaves \<open>head\<close> as it is.\<close>

definition free_addr_list :: "addr_list \<Rightarrow> addr_list option" where
  "free_addr_list s = (case s of (head, h) \<Rightarrow>
     (if head = None then Some s else map_option (Pair head) (free_list h head)))"

lemma fgets_ip_less: "fgets MAXBUFFLEN s = Some (l, r) \<Longrightarrow> length r < length s"
  by (auto simp: fgets_def fgets_len_def MAXBUFFLEN_def split: if_splits)

function read_ips :: "(string \<Rightarrow> u32 option) \<Rightarrow> u32 \<Rightarrow> string \<Rightarrow> addr_list \<Rightarrow> addr_list" where
  "read_ips inet_aton junk rest s =
     (case fgets MAXBUFFLEN rest of
        None \<Rightarrow> s
      | Some (l, rest') \<Rightarrow> read_ips inet_aton junk rest' (insert_ip inet_aton junk (cstr l) s))"
  by pat_completeness auto
termination by (relation "measure (\<lambda>(p, j, rest, s). length rest)") (auto dest: fgets_ip_less)

declare read_ips.simps [simp del]

definition read_ip_from_file ::
  "(string \<Rightarrow> u32 option) \<Rightarrow> u32 \<Rightarrow> string option \<Rightarrow> addr_list \<Rightarrow> int \<times> addr_list" where
  "read_ip_from_file inet_aton junk contents s =
     (case contents of None \<Rightarrow> (1, s) | Some t \<Rightarrow> (0, read_ips inet_aton junk t s))"

subsection \<open>What is stored\<close>

definition ips_ok :: "addr_list \<Rightarrow> (addr \<times> u32) list \<Rightarrow> bool" where
  "ips_ok s xs \<longleftrightarrow> sl_ok (snd s) (fst s) xs"

lemma insert_ip_ok:
  assumes "ips_ok s xs"
  shows "\<exists>q. ips_ok (insert_ip inet_aton junk a s)
     ((q, case inet_aton a of Some w \<Rightarrow> w | None \<Rightarrow> junk) # xs)"
proof -
  obtain head h where s: "s = (head, h)" by (cases s)
  have ok: "heap_ok h" "lseg h head xs None" "distinct (map fst xs)"
    using assms by (simp_all add: ips_ok_def sl_ok_def s)
  let ?v = "case inet_aton a of Some w \<Rightarrow> w | None \<Rightarrow> junk"
  let ?h = "h\<lparr>cells := (cells h)(brk h \<mapsto> \<lparr>sl_next = head, sl_data = ?v\<rparr>), brk := Suc (brk h)\<rparr>"
  have fresh: "brk h \<notin> fst ` set xs" using lseg_live [OF ok(2)] heap_ok_fresh [OF ok(1)] by blast
  have "lseg ?h head xs None" using ok(2) by (simp add: lseg_upd [OF fresh])
  moreover have "heap_ok ?h" using ok(1) by (auto simp: heap_ok_def less_Suc_eq)
  moreover have "insert_ip inet_aton junk a s = (Some (brk h), ?h)"
    by (simp add: insert_ip_def s xmalloc_def)
  ultimately show ?thesis using ok(3) fresh by (intro exI [of _ "brk h"]) (simp add: ips_ok_def sl_ok_def)
qed

lemma read_ips_ok: "ips_ok s xs \<Longrightarrow> \<exists>ys. ips_ok (read_ips inet_aton junk rest s) ys"
proof (induction inet_aton junk rest s arbitrary: xs rule: read_ips.induct)
  case (1 inet_aton junk rest s)
  show ?case
  proof (cases "fgets MAXBUFFLEN rest")
    case None
    with 1(2) show ?thesis by (subst read_ips.simps) auto
  next
    case (Some p)
    obtain l r where p: "p = (l, r)" by (cases p)
    obtain q where "ips_ok (insert_ip inet_aton junk (cstr l) s)
        ((q, case inet_aton (cstr l) of Some w \<Rightarrow> w | None \<Rightarrow> junk) # xs)"
      using insert_ip_ok [OF 1(2)] by blast
    from 1(1) [OF Some p [symmetric] this] Some p show ?thesis by (subst read_ips.simps) simp
  qed
qed

text \<open>Reading never faults and the list can be printed; after freeing it a non-empty list cannot,
  because its head still points to the first freed node.\<close>

lemma printList_ok: "ips_ok s xs \<Longrightarrow> printList s = Some (map snd xs)"
  by (cases s) (simp add: printList_def ips_ok_def sl_ok_def sl_items_spec)

lemma free_then_print:
  assumes "ips_ok s xs" and "xs \<noteq> []"
  shows "\<exists>s'. free_addr_list s = Some s' \<and> printList s' = None"
proof -
  obtain head h where s: "s = (head, h)" by (cases s)
  obtain a d ys where xs: "xs = (a, d) # ys" using assms(2) by (cases xs) auto
  have ok: "lseg h head xs None" "distinct (map fst xs)" "head = Some a"
    using assms(1) by (auto simp: ips_ok_def sl_ok_def s xs)
  obtain h' where f: "free_list h head = Some h'" "\<forall>b. cells h' b = (if b \<in> fst ` set xs then None else cells h b)"
    using free_list_spec [OF ok(1,2)] by blast
  have "cells h' a = None" using f(2) xs by simp
  then have "printList (head, h') = None"
    by (simp add: printList_def ok(3) sl_items.simps [of _ _ None] sorted_list_next_item_def hread_def)
  with f(1) ok(3) show ?thesis by (auto simp: free_addr_list_def s)
qed

end
