(* ===== verification/Vector.thy ===== *)
theory Vector
  imports CHeap
begin

text \<open>
  vector.c: growing arrays. The allocated array is a list of items; an item whose value is
  indeterminate (fresh from \<open>realloc\<close>) is \<open>None\<close>. An access outside the allocated array is a
  fault, \<open>None\<close> of the operation. An \<open>item *\<close> into the array is its index. An item is its
  \<open>long\<close>; sizes are unbounded.
\<close>

type_synonym item = "int option"

record vector =
  ary :: "item list"
  vn :: nat
  n_used :: nat

definition vector_new :: vector where
  "vector_new = \<lparr>ary = replicate 16 (Some 0), vn = 16, n_used = 0\<rparr>"

text \<open>\<open>memset(v->ary + from, 0, count * sizeof(item))\<close>\<close>

definition zero_items :: "nat \<Rightarrow> nat \<Rightarrow> item list \<Rightarrow> item list option" where
  "zero_items from count a =
     (if count = 0 then Some a
      else if from + count \<le> length a then Some (take from a @ replicate count (Some 0) @ drop (from + count) a)
      else None)"

text \<open>\<open>vector_reallocate\<close>: the \<open>memset\<close> after the \<open>realloc\<close> still uses the old size.\<close>

definition vector_reallocate :: "vector \<Rightarrow> nat \<Rightarrow> vector option" where
  "vector_reallocate v n =
     (if n < n_used v \<or> n = 0 then Some v
      else do {
        let a = xrealloc (ary v) n;
        a \<leftarrow> zero_items (n_used v) (vn v - n_used v) a;
        Some (v\<lparr>ary := a, vn := n\<rparr>) })"

definition vector_push_back :: "vector \<Rightarrow> int \<Rightarrow> vector option" where
  "vector_push_back v t = do {
     v \<leftarrow> (if n_used v = vn v then vector_reallocate v (vn v * 2) else Some v);
     (if n_used v < length (ary v)
      then Some (v\<lparr>ary := (ary v)[n_used v := Some t], n_used := n_used v + 1\<rparr>) else None) }"

definition vector_pop_back :: "vector \<Rightarrow> vector option" where
  "vector_pop_back v =
     (if n_used v > 0 then
        (let v = v\<lparr>n_used := n_used v - 1\<rparr>
         in if n_used v < vn v div 2 then vector_reallocate v (vn v div 2) else Some v)
      else Some v)"

definition vector_back :: "vector \<Rightarrow> item option" where
  "vector_back v = (if 0 < n_used v \<and> n_used v \<le> length (ary v) then Some (ary v ! (n_used v - 1)) else None)"

text \<open>\<open>vector_remove\<close> of the item at index \<open>i\<close>: the index of the next item, or NULL, and the
  vector. The \<open>memmove\<close> and the \<open>memset\<close> are off by one.\<close>

definition vector_remove :: "vector \<Rightarrow> nat \<Rightarrow> (nat option \<times> vector) option" where
  "vector_remove v i =
     (if n_used v \<le> i then Some (None, v)
      else do {
        a \<leftarrow> (if i < n_used v - 1 then
               (let c = n_used v - i
                in if i + 1 + c \<le> length (ary v)
                   then Some (take i (ary v) @ take c (drop (i + 1) (ary v)) @ drop (i + c) (ary v)) else None)
             else Some (ary v));
        a \<leftarrow> zero_items (n_used v) 1 a;
        let v = v\<lparr>ary := a, n_used := n_used v - 1\<rparr>;
        v \<leftarrow> (if n_used v < vn v div 2 \<and> vn v > 16 then vector_reallocate v (vn v div 2) else Some v);
        Some (Some i, v) })"

text \<open>The items a \<open>vector_iterate\<close> loop visits.\<close>

definition vector_items :: "vector \<Rightarrow> item list" where
  "vector_items v = take (n_used v) (ary v)"

text \<open>\<open>vector_delete_free\<close> with the store \<open>h\<close> of the objects the items point to: the pointer to
  address \<open>a\<close> is the item \<open>a + 1\<close>, and 0 is NULL.\<close>

fun free_items :: "item list \<Rightarrow> 'a heap \<Rightarrow> 'a heap option" where
  "free_items [] h = Some h"
| "free_items (i # is) h =
     (case i of None \<Rightarrow> None
      | Some p \<Rightarrow> Option.bind (xfree h (if p = 0 then None else Some (nat p - 1))) (free_items is))"

definition vector_delete_free :: "vector \<Rightarrow> 'a heap \<Rightarrow> 'a heap option" where
  "vector_delete_free v h =
     (if n_used v \<le> length (ary v) then free_items (vector_items v) h else None)"

definition vector_ok :: "vector \<Rightarrow> bool" where
  "vector_ok v \<longleftrightarrow> length (ary v) = vn v \<and> n_used v \<le> vn v \<and> 2 \<le> vn v"

subsection \<open>Growing\<close>

lemma vector_new_ok: "vector_ok vector_new" "vector_items vector_new = []"
  by (simp_all add: vector_ok_def vector_new_def vector_items_def)

lemma vector_push_spec:
  assumes "vector_ok v"
  shows "\<exists>v'. vector_push_back v t = Some v' \<and> vector_ok v' \<and> vector_items v' = vector_items v @ [Some t] \<and>
     vn v' = (if n_used v = vn v then 2 * vn v else vn v) \<and> n_used v' = Suc (n_used v)"
proof (cases "n_used v = vn v")
  case True
  let ?a = "ary v @ replicate (vn v) None"
  have "vector_reallocate v (vn v * 2) = Some (v\<lparr>ary := ?a, vn := vn v * 2\<rparr>)"
    using assms True by (simp add: vector_reallocate_def xrealloc_def vector_ok_def zero_items_def mult_2_right)
  then show ?thesis using assms True
    by (simp add: vector_push_back_def vector_ok_def vector_items_def list_update_append take_Suc_conv_app_nth nth_append)
next
  case False
  then show ?thesis using assms
    by (auto simp: vector_push_back_def vector_ok_def vector_items_def take_Suc_conv_app_nth)
qed

fun vector_push_all :: "int list \<Rightarrow> vector \<Rightarrow> vector option" where
  "vector_push_all [] v = Some v"
| "vector_push_all (t # ts) v = Option.bind (vector_push_back v t) (vector_push_all ts)"

lemma vector_push_all_spec:
  "vector_ok v \<Longrightarrow> \<exists>v'. vector_push_all ts v = Some v' \<and> vector_ok v' \<and>
     vector_items v' = vector_items v @ map Some ts \<and> n_used v' = n_used v + length ts"
proof (induction ts arbitrary: v)
  case Nil
  then show ?case by simp
next
  case (Cons t ts)
  obtain v1 where 1: "vector_push_back v t = Some v1" "vector_ok v1" "vector_items v1 = vector_items v @ [Some t]"
      "n_used v1 = Suc (n_used v)"
    using vector_push_spec [OF Cons.prems, of t] by blast
  from Cons.IH [OF 1(2)] 1 show ?case by auto
qed

subsection \<open>Shrinking\<close>

lemma reallocate_shrink:
  assumes "vector_ok v" and "n_used v < vn v div 2"
  shows "vector_reallocate v (vn v div 2) = None"
proof -
  have v: "length (ary v) = vn v" "2 \<le> vn v" "n_used v < vn v" using assms by (auto simp: vector_ok_def)
  have "zero_items (n_used v) (vn v - n_used v) (take (vn v div 2) (ary v)) = None"
    using v by (simp add: zero_items_def)
  then show ?thesis using assms(2) v by (simp add: vector_reallocate_def xrealloc_def)
qed

lemma vector_pop_spec:
  assumes "vector_ok v" and "0 < n_used v"
  shows "vector_pop_back v = (if n_used v - 1 < vn v div 2 then None else Some (v\<lparr>n_used := n_used v - 1\<rparr>))"
proof (cases "n_used v - 1 < vn v div 2")
  case True
  have "vector_ok (v\<lparr>n_used := n_used v - 1\<rparr>)" using assms unfolding vector_ok_def by simp linarith
  from reallocate_shrink [OF this] True assms show ?thesis by (simp add: vector_pop_back_def Let_def)
qed (use assms in \<open>simp add: vector_pop_back_def Let_def\<close>)

subsection \<open>Properties\<close>

text \<open>C40. Pushing items into a new vector never faults and keeps exactly the items pushed, in order,
  \<open>vector_back\<close> giving the last; but popping writes past the array whenever the vector is to
  shrink: the first pop after pushing up to eight items always does.\<close>

theorem vector_push_then_pop:
  "\<exists>v. vector_push_all ts vector_new = Some v \<and> vector_items v = map Some ts \<and>
     vector_back v = (if ts = [] then None else Some (Some (last ts))) \<and>
     (vector_pop_back v = None \<longleftrightarrow> ts \<noteq> [] \<and> length ts - 1 < vn v div 2)"
proof -
  obtain v where v: "vector_push_all ts vector_new = Some v" "vector_ok v" "vector_items v = map Some ts"
      "n_used v = length ts"
    using vector_push_all_spec [OF vector_new_ok(1), of ts] vector_new_ok(2) by (auto simp: vector_new_def)
  have b: "vector_back v = (if ts = [] then None else Some (Some (last ts)))"
  proof (cases "ts = []")
    case False
    have len: "length (ary v) = vn v" "length ts \<le> vn v" using v(2,4) by (simp_all add: vector_ok_def)
    have "ary v ! (length ts - 1) = vector_items v ! (length ts - 1)" using False v(4) by (simp add: vector_items_def)
    also have "\<dots> = Some (last ts)" unfolding v(3) using False by (simp add: last_conv_nth)
    finally have "ary v ! (length ts - 1) = Some (last ts)" .
    moreover have "0 < length ts" using False by simp
    ultimately show ?thesis using False len(2) unfolding vector_back_def v(4) len(1) by simp
  qed (use v(4) in \<open>simp add: vector_back_def\<close>)
  have "vector_pop_back v = None \<longleftrightarrow> ts \<noteq> [] \<and> length ts - 1 < vn v div 2"
  proof (cases "ts = []")
    case True
    with v(4) show ?thesis by (simp add: vector_pop_back_def)
  next
    case False
    with vector_pop_spec [OF v(2)] v(4) show ?thesis by simp
  qed
  with v(1,3) b show ?thesis by (intro exI [of _ v] conjI)
qed

text \<open>Deleting a vector of distinct live pointers frees each of them once; a pointer stored twice is
  freed twice.\<close>

lemma free_items_spec:
  "distinct as \<Longrightarrow> \<forall>a \<in> set as. cells h a \<noteq> None \<Longrightarrow>
   \<exists>h'. free_items (map (\<lambda>a. Some (int a + 1)) as) h = Some h' \<and>
     cells h' = (\<lambda>a. if a \<in> set as then None else cells h a)"
proof (induction as arbitrary: h)
  case Nil
  show ?case by simp
next
  case (Cons a as)
  let ?h = "h\<lparr>cells := (cells h)(a := None)\<rparr>"
  obtain h' where "free_items (map (\<lambda>a. Some (int a + 1)) as) ?h = Some h'"
      "cells h' = (\<lambda>b. if b \<in> set as then None else cells ?h b)"
    using Cons.IH [of ?h] Cons.prems by fastforce
  moreover have "nat (int a + 1) - 1 = a" by simp
  ultimately show ?case using Cons.prems by (auto simp: xfree_def hfree_def fun_eq_iff)
qed

lemma vector_delete_free_spec:
  assumes "vector_ok v" and "vector_items v = map (\<lambda>a. Some (int a + 1)) as" and "distinct as"
    and "\<forall>a \<in> set as. cells h a \<noteq> None"
  shows "\<exists>h'. vector_delete_free v h = Some h' \<and> cells h' = (\<lambda>a. if a \<in> set as then None else cells h a)"
  using free_items_spec [OF assms(3,4)] assms(1,2) by (simp add: vector_delete_free_def vector_ok_def)

lemma vector_delete_free_twice: "cells h a \<noteq> None \<Longrightarrow> free_items [Some (int a + 1), Some (int a + 1)] h = None"
  by (simp add: xfree_def hfree_def)

text \<open>Removing an item of a full vector reads and writes past the array.\<close>

lemma vector_remove_full:
  "vector_ok v \<Longrightarrow> n_used v = vn v \<Longrightarrow> i < n_used v \<Longrightarrow> vector_remove v i = None"
  by (auto simp: vector_remove_def vector_ok_def zero_items_def Let_def)

lemma vector_remove_spec:
  assumes "vector_ok v" and "n_used v < vn v" and "i < n_used v" and "vn v div 2 < n_used v"
  shows "\<exists>v'. vector_remove v i = Some (Some i, v') \<and> vector_ok v' \<and>
     vector_items v' = take i (vector_items v) @ drop (Suc i) (vector_items v)"
proof -
  have len: "length (ary v) = vn v" using assms(1) by (simp add: vector_ok_def)
  define a where "a = (if i < n_used v - 1 then take i (ary v) @ take (n_used v - i) (drop (i + 1) (ary v)) @
      drop (n_used v) (ary v) else ary v)"
  let ?a = "take (n_used v) a @ Some 0 # drop (Suc (n_used v)) a"
  have la: "length a = vn v" using assms(2,3) len by (simp add: a_def)
  have ta: "take (n_used v - 1) a = take i (vector_items v) @ drop (Suc i) (vector_items v)"
  proof (rule nth_equalityI)
    show "length (take (n_used v - 1) a) = length (take i (vector_items v) @ drop (Suc i) (vector_items v))"
      using assms(2,3) len la by (simp add: vector_items_def)
    fix j assume "j < length (take (n_used v - 1) a)"
    then have j: "j < n_used v - 1" by simp
    then have "a ! j = (if j < i then ary v ! j else ary v ! Suc j)"
      using assms(2,3) len by (auto simp: a_def nth_append)
    then show "take (n_used v - 1) a ! j = (take i (vector_items v) @ drop (Suc i) (vector_items v)) ! j"
      using j assms(2,3) len by (auto simp: vector_items_def nth_append)
  qed
  have m: "(if i < n_used v - 1 then (let c = n_used v - i in if i + 1 + c \<le> length (ary v)
      then Some (take i (ary v) @ take c (drop (i + 1) (ary v)) @ drop (i + c) (ary v)) else None) else Some (ary v))
      = Some a"
    using assms(2,3) len unfolding a_def Let_def by auto
  have z: "zero_items (n_used v) 1 a = Some ?a" using assms(2) la by (simp add: zero_items_def)
  have "\<not> n_used v - 1 < vn v div 2" using assms(4) by linarith
  then have r: "vector_remove v i = Some (Some i, v\<lparr>ary := ?a, n_used := n_used v - 1\<rparr>)"
    using assms(3) z unfolding vector_remove_def m by (simp add: Let_def)
  have "take (n_used v - 1) ?a = take (n_used v - 1) a" using la assms(2,3) by (simp add: min_def)
  with r ta la assms show ?thesis by (auto simp: vector_ok_def vector_items_def)
qed

end
