(* ===== verification/Edline.thy ===== *)
theory Edline
  imports CString
begin

text \<open>
  edline.c: the line editor. The buffer is the string it holds and its allocated size; \<open>pos\<close> is the
  cursor. A key is the integer \<open>getch\<close> returns. A write past the buffer, or a read past the string,
  is a fault, \<open>None\<close>. The screen is not modelled, but the reads of the string that display it are.
\<close>

text \<open>Key codes of curses.\<close>

definition KEY_LEFT :: int where "KEY_LEFT = 260"
definition KEY_RIGHT :: int where "KEY_RIGHT = 261"
definition KEY_HOME :: int where "KEY_HOME = 262"
definition KEY_BACKSPACE :: int where "KEY_BACKSPACE = 263"
definition KEY_DL :: int where "KEY_DL = 328"
definition KEY_DC :: int where "KEY_DC = 330"
definition KEY_ENTER :: int where "KEY_ENTER = 343"
definition KEY_END :: int where "KEY_END = 360"
definition ERR :: int where "ERR = -1"

record edit =
  str :: string
  slen :: nat
  pos :: nat

definition edline_start :: "string option \<Rightarrow> edit" where
  "edline_start initial =
     (case initial of
        Some s \<Rightarrow> \<lparr>str = s, slen = length s * 2 + 1, pos = length s\<rparr>
      | None \<Rightarrow> \<lparr>str = [], slen = 256, pos = 0\<rparr>)"

definition isprint :: "int \<Rightarrow> bool" where
  "isprint c \<longleftrightarrow> 32 \<le> c \<and> c \<le> 126"

text \<open>\<open>isspace(str[i])\<close>; \<open>str[i]\<close> may be the terminating NUL, which is no space.\<close>

definition space_at :: "string \<Rightarrow> nat \<Rightarrow> bool" where
  "space_at s i \<longleftrightarrow> i < length s \<and> is_space (s ! i)"

text \<open>The two loops of \<open>^W\<close>: back over spaces, then back to a space.\<close>

fun skip_spaces :: "string \<Rightarrow> nat \<Rightarrow> nat" where
  "skip_spaces s 0 = 0"
| "skip_spaces s (Suc i) = (if space_at s (Suc i) then skip_spaces s i else Suc i)"

fun skip_word :: "string \<Rightarrow> nat \<Rightarrow> nat" where
  "skip_word s 0 = 0"
| "skip_word s (Suc i) = (if space_at s (Suc i) then Suc i else skip_word s i)"

text \<open>One key.\<close>

definition edit_key :: "int \<Rightarrow> edit \<Rightarrow> edit option" where
  "edit_key c e =
     (if c = KEY_DL \<or> c = 21 then Some (e\<lparr>str := [], pos := 0\<rparr>)
      else if c = KEY_LEFT then Some (e\<lparr>pos := pos e - 1\<rparr>)
      else if c = KEY_RIGHT then Some (e\<lparr>pos := min (pos e + 1) (length (str e))\<rparr>)
      else if c = KEY_HOME \<or> c = 1 then Some (e\<lparr>pos := 0\<rparr>)
      else if c = KEY_END \<or> c = 5 then Some (e\<lparr>pos := length (str e)\<rparr>)
      else if c = KEY_DC then
        (if pos e = length (str e) then Some e
         else if pos e < length (str e) then Some (e\<lparr>str := take (pos e) (str e) @ drop (pos e + 1) (str e)\<rparr>)
         else None)
      else if c = KEY_BACKSPACE then
        (if pos e = 0 then Some e
         else if pos e \<le> length (str e)
         then Some (e\<lparr>str := take (pos e - 1) (str e) @ drop (pos e) (str e), pos := pos e - 1\<rparr>)
         else None)
      else if c = 23 then
        (if pos e \<le> length (str e) then
           (let i = skip_word (str e) (skip_spaces (str e) (pos e))
            in if i \<noteq> pos e then Some (e\<lparr>str := take i (str e) @ drop (pos e) (str e), pos := i\<rparr>) else Some e)
         else None)
      else if c = ERR then Some e
      else if isprint c \<and> c \<noteq> 9 then
        (let e = (if length (str e) = slen e - 1 then e\<lparr>slen := slen e * 2\<rparr> else e)
         in if pos e \<le> length (str e) \<and> length (str e) + 2 \<le> slen e
            then Some (e\<lparr>str := take (pos e) (str e) @ [char_of (nat c)] @ drop (pos e) (str e), pos := pos e + 1\<rparr>)
            else None)
      else Some e)"

text \<open>The display reads \<open>str + off\<close>.\<close>

definition display_off :: "int \<Rightarrow> string \<Rightarrow> edit \<Rightarrow> int" where
  "display_off cols prompt e =
     (let room = cols - (int (length prompt) + 2) - 1 in if int (pos e) > room then int (pos e) - room else 0)"

definition display :: "int \<Rightarrow> string \<Rightarrow> edit \<Rightarrow> edit option" where
  "display cols prompt e = (if display_off cols prompt e \<le> int (length (str e)) then Some e else None)"

definition final_key :: "int \<Rightarrow> bool" where
  "final_key c \<longleftrightarrow> c \<in> {KEY_ENTER, 13, 27, 7}"

text \<open>The loop over the keys typed: the line, or NULL if it was abandoned; the outer \<open>None\<close> is a
  fault. The keys end where the model's input ends.\<close>

fun edit_loop :: "int \<Rightarrow> string \<Rightarrow> int list \<Rightarrow> edit \<Rightarrow> string option option" where
  "edit_loop cols prompt [] e = Some None"
| "edit_loop cols prompt (c # cs) e = do {
     e \<leftarrow> edit_key c e;
     e \<leftarrow> display cols prompt e;
     (if final_key c then Some (if c = KEY_ENTER \<or> c = 13 then Some (str e) else None)
      else edit_loop cols prompt cs e) }"

definition edline :: "int \<Rightarrow> string \<Rightarrow> string option \<Rightarrow> int list \<Rightarrow> string option option" where
  "edline cols prompt initial keys = edit_loop cols prompt keys (edline_start initial)"

subsection \<open>The editor as text before and after the cursor\<close>

type_synonym zipper = "string \<times> string"

definition edit_ok :: "edit \<Rightarrow> bool" where
  "edit_ok e \<longleftrightarrow> pos e \<le> length (str e) \<and> length (str e) < slen e"

definition zip_of :: "edit \<Rightarrow> zipper" where
  "zip_of e = (take (pos e) (str e), drop (pos e) (str e))"

text \<open>The start of the word that \<open>^W\<close> deletes: where the second loop stops.\<close>

definition word_start :: "zipper \<Rightarrow> nat" where
  "word_start z = (case z of (b, a) \<Rightarrow> skip_word (b @ a) (skip_spaces (b @ a) (length b)))"

definition zip_key :: "int \<Rightarrow> zipper \<Rightarrow> zipper" where
  "zip_key c z = (case z of (b, a) \<Rightarrow>
     if c \<in> {KEY_DL, 21} then ([], [])
     else if c = KEY_LEFT then (butlast b, if b = [] then a else last b # a)
     else if c = KEY_RIGHT then (b @ take 1 a, drop 1 a)
     else if c \<in> {KEY_HOME, 1} then ([], b @ a)
     else if c \<in> {KEY_END, 5} then (b @ a, [])
     else if c = KEY_DC then (b, drop 1 a)
     else if c = KEY_BACKSPACE then (butlast b, a)
     else if c = 23 then (take (word_start z) b, a)
     else if c \<noteq> ERR \<and> isprint c then (b @ [char_of (nat c)], a)
     else z)"

fun zip_loop :: "int list \<Rightarrow> zipper \<Rightarrow> string option" where
  "zip_loop [] z = None"
| "zip_loop (c # cs) z =
     (let (b, a) = zip_key c z
      in if final_key c then (if c = KEY_ENTER \<or> c = 13 then Some (b @ a) else None) else zip_loop cs (b, a))"

lemmas key_codes = KEY_LEFT_def KEY_RIGHT_def KEY_HOME_def KEY_BACKSPACE_def KEY_DL_def KEY_DC_def KEY_ENTER_def
  KEY_END_def ERR_def

lemma skip_spaces_le: "skip_spaces s i \<le> i"
  by (induction s i rule: skip_spaces.induct) auto

lemma skip_word_le: "skip_word s i \<le> i"
  by (induction s i rule: skip_word.induct) auto

lemma word_start_le: "skip_word s (skip_spaces s i) \<le> i"
  using skip_word_le skip_spaces_le order_trans by blast

lemma edit_key_spec:
  assumes "edit_ok e"
  shows "\<exists>e'. edit_key c e = Some e' \<and> edit_ok e' \<and> zip_of e' = zip_key c (zip_of e)"
proof -
  have p: "pos e \<le> length (str e)" "length (str e) < slen e" using assms by (simp_all add: edit_ok_def)
  have j: "take (pos e) (str e) @ drop (pos e) (str e) = str e" by simp
  consider "c = KEY_DL \<or> c = 21" | "c = KEY_LEFT" | "c = KEY_RIGHT" | "c = KEY_HOME \<or> c = 1" | "c = KEY_END \<or> c = 5"
    | "c = KEY_DC" | "c = KEY_BACKSPACE" | "c = 23" | "c = ERR" | "isprint c"
    | "c \<notin> {KEY_DL, 21, KEY_LEFT, KEY_RIGHT, KEY_HOME, 1, KEY_END, 5, KEY_DC, KEY_BACKSPACE, 23, ERR}" "\<not> isprint c"
    by blast
  then show ?thesis
  proof cases
    case 1
    then show ?thesis using p by (auto simp: edit_key_def zip_key_def zip_of_def edit_ok_def key_codes)
  next
    case 2
    have "take (pos e - 1) (str e) = butlast (take (pos e) (str e))" using p by (simp add: butlast_take)
    moreover have "drop (pos e - 1) (str e) = last (take (pos e) (str e)) # drop (pos e) (str e)" if "0 < pos e"
    proof -
      have "pos e - 1 < length (str e)" "Suc (pos e - 1) = pos e" using that p by auto
      moreover from this have "last (take (pos e) (str e)) = str e ! (pos e - 1)"
        using that p by (subst last_conv_nth) auto
      ultimately show ?thesis using Cons_nth_drop_Suc [of "pos e - 1" "str e"] by simp
    qed
    ultimately show ?thesis using 2 p
      by (cases "pos e = 0") (auto simp: edit_key_def zip_key_def zip_of_def edit_ok_def key_codes)
  next
    case 3
    have "take (pos e + 1) (str e) = take (pos e) (str e) @ take 1 (drop (pos e) (str e))" by (rule take_add)
    then show ?thesis using 3 p
      by (cases "pos e = length (str e)") (auto simp: edit_key_def zip_key_def zip_of_def edit_ok_def key_codes min_def)
  next
    case 4
    then show ?thesis using p j by (auto simp: edit_key_def zip_key_def zip_of_def edit_ok_def key_codes)
  next
    case 5
    then show ?thesis using p j by (auto simp: edit_key_def zip_key_def zip_of_def edit_ok_def key_codes)
  next
    case 6
    then show ?thesis using p
      by (cases "pos e = length (str e)") (auto simp: edit_key_def zip_key_def zip_of_def edit_ok_def key_codes min_def)
  next
    case 7
    have "take (pos e - 1) (str e) = butlast (take (pos e) (str e))" using p by (simp add: butlast_take)
    then show ?thesis using 7 p
      by (cases "pos e = 0") (auto simp: edit_key_def zip_key_def zip_of_def edit_ok_def key_codes min_def)
  next
    case 8
    let ?i = "skip_word (str e) (skip_spaces (str e) (pos e))"
    have i: "?i \<le> pos e" by (rule word_start_le)
    have w: "word_start (zip_of e) = ?i" using p j by (simp add: word_start_def zip_of_def min_def)
    have z: "zip_key c (zip_of e) = (take ?i (take (pos e) (str e)), drop (pos e) (str e))"
      using 8 w unfolding zip_of_def by (simp add: zip_key_def key_codes)
    show ?thesis
    proof (cases "?i = pos e")
      case True
      then have "edit_key c e = Some e" using 8 p by (simp add: edit_key_def key_codes)
      then show ?thesis using assms z True by (simp add: zip_of_def)
    next
      case False
      then have "edit_key c e = Some (e\<lparr>str := take ?i (str e) @ drop (pos e) (str e), pos := ?i\<rparr>)"
        using 8 p by (simp add: edit_key_def key_codes Let_def)
      then show ?thesis using p i z by (auto simp: zip_of_def edit_ok_def min_def)
    qed
  next
    case 9
    then show ?thesis using assms by (simp add: edit_key_def zip_key_def zip_of_def key_codes)
  next
    case 10
    then have n: "c \<notin> {KEY_DL, 21, KEY_LEFT, KEY_RIGHT, KEY_HOME, 1, KEY_END, 5, KEY_DC, KEY_BACKSPACE, 23, ERR, 9}"
      by (auto simp: isprint_def key_codes)
    let ?s = "take (pos e) (str e) @ [char_of (nat c)] @ drop (pos e) (str e)"
    obtain sl where e: "edit_key c e = Some (e\<lparr>slen := sl, str := ?s, pos := pos e + 1\<rparr>)"
      and sl: "length (str e) + 2 \<le> sl"
    proof (cases "length (str e) = slen e - 1")
      case True
      then have "edit_key c e = Some (e\<lparr>slen := slen e * 2, str := ?s, pos := pos e + 1\<rparr>)"
        using 10 n p by (simp add: edit_key_def Let_def)
      with True p show ?thesis by (intro that [of "slen e * 2"]) auto
    next
      case False
      then have "edit_key c e = Some (e\<lparr>slen := slen e, str := ?s, pos := pos e + 1\<rparr>)"
        using 10 n p by (simp add: edit_key_def Let_def)
      with False p show ?thesis by (intro that [of "slen e"]) auto
    qed
    show ?thesis using 10 n e sl p by (simp add: edit_ok_def zip_of_def zip_key_def min_def)
  next
    case 11
    then have "edit_key c e = Some e" "zip_key c (zip_of e) = zip_of e"
      by (auto simp: edit_key_def zip_key_def split: prod.splits)
    with assms show ?thesis by simp
  qed
qed

lemma edit_loop_spec:
  "edit_ok e \<Longrightarrow> int (length prompt) + 3 \<le> cols \<Longrightarrow> edit_loop cols prompt cs e = Some (zip_loop cs (zip_of e))"
proof (induction cs arbitrary: e)
  case Nil
  then show ?case by simp
next
  case (Cons c cs)
  obtain e' where e: "edit_key c e = Some e'" "edit_ok e'" "zip_of e' = zip_key c (zip_of e)"
    using edit_key_spec [OF Cons.prems(1)] by blast
  have "display cols prompt e' = Some e'"
    using e(2) Cons.prems(2) by (auto simp: display_def display_off_def edit_ok_def Let_def)
  then show ?case using e(1) Cons.IH [OF e(2) Cons.prems(2)] e(3) [symmetric] by (simp add: zip_of_def)
qed

subsection \<open>Properties\<close>



text \<open>On a narrower screen the display reads behind the string.\<close>

lemma edline_narrow_screen: "edline 10 ''Screen filter'' None [97] = None"
  by code_simp

end
