(* ===== verification/AddrsIoctl.thy ===== *)
theory AddrsIoctl
  imports CString
begin

text \<open>
  addrs_ioctl.c: the hardware and IP addresses of an interface, on a system with \<open>SIOCGIFHWADDR\<close>. The
  results of \<open>socket\<close>, of the two ioctls and of \<open>getifaddrs\<close> are parameters; a socket address is
  the bytes that can be read at its pointer. Whether \<open>getifaddrs\<close> is used is decided at build time:
  the flag \<open>use_getifaddrs\<close>. A read past a socket address is a fault, \<open>None\<close>.
\<close>

record ifaddr =
  ifa_name :: string
  ifa_addr :: "byte list option"

record got_addrs =
  got_ip_addr :: int
  got_ip6_addr :: int
  ip_addr :: u32
  ip6_addr :: "byte list"

text \<open>\<open>IN6_IS_ADDR_LINKLOCAL\<close> or \<open>IN6_IS_ADDR_SITELOCAL\<close>\<close>

definition local_addr6 :: "byte list \<Rightarrow> bool" where
  "local_addr6 a \<longleftrightarrow> a ! 0 = 0xfe \<and> a ! 1 AND 0xc0 \<in> {0x80, 0xc0}"

fun ifa_loop :: "string \<Rightarrow> ifaddr list \<Rightarrow> got_addrs \<Rightarrow> got_addrs option" where
  "ifa_loop interface [] g = Some g"
| "ifa_loop interface (ifa # ifas) g =
     (if got_ip_addr g \<noteq> 0 \<and> got_ip6_addr g \<noteq> 0 then Some g
      else if strcmp (ifa_name ifa) interface \<noteq> 0 then ifa_loop interface ifas g
      else (case ifa_addr ifa of
          None \<Rightarrow> ifa_loop interface ifas g
        | Some sa \<Rightarrow> Option.bind (get16 sa 0) (\<lambda>family.
            if family \<noteq> 2 \<and> family \<noteq> 10 then ifa_loop interface ifas g
            else if family = 2 \<and> got_ip_addr g = 0 then
              Option.bind (get32 sa 4) (\<lambda>a. ifa_loop interface ifas (g\<lparr>got_ip_addr := 2, ip_addr := a\<rparr>))
            else Option.bind (get_bytes sa 8 16) (\<lambda>a6.
              if local_addr6 a6 then ifa_loop interface ifas g
              else ifa_loop interface ifas (g\<lparr>ip6_addr := a6, got_ip6_addr := 4\<rparr>)))))"

text \<open>The hardware address: \<open>None\<close> where the ioctl fails.\<close>

definition get_hwaddr :: "byte list option \<Rightarrow> int \<times> byte list" where
  "get_hwaddr ioctl = (case ioctl of None \<Rightarrow> (0, replicate 6 0) | Some sa_data \<Rightarrow> (1, take 6 sa_data))"

text \<open>\<open>get_addrs_ioctl\<close>: the result, the hardware address and the addresses found.\<close>

definition get_addrs_ioctl ::
  "bool \<Rightarrow> string \<Rightarrow> int \<Rightarrow> byte list option \<Rightarrow> ifaddr list option \<Rightarrow> u32 option \<Rightarrow> byte list \<Rightarrow> got_addrs
     \<Rightarrow> (int \<times> byte list \<times> got_addrs) option" where
  "get_addrs_ioctl use_getifaddrs interface sock hwaddr ifas siocgifaddr hw0 g0 =
     (if sock = -1 then Some (-1, hw0, g0)
      else
        (let g0 = g0\<lparr>got_ip_addr := 0, got_ip6_addr := 0\<rparr>;
             (got_hw, hw) = get_hwaddr hwaddr
         in Option.bind
           (if use_getifaddrs then (case ifas of None \<Rightarrow> Some g0 | Some l \<Rightarrow> ifa_loop interface l g0)
            else Some (case siocgifaddr of None \<Rightarrow> g0 | Some a \<Rightarrow> g0\<lparr>ip_addr := a, got_ip_addr := 2\<rparr>))
           (\<lambda>g. Some (got_hw + got_ip_addr g + got_ip6_addr g, hw, g))))"

subsection \<open>What the result says\<close>

lemma ifa_loop_got:
  "ifa_loop interface ifas g = Some g' \<Longrightarrow> got_ip_addr g \<in> {0, 2} \<Longrightarrow> got_ip6_addr g \<in> {0, 4} \<Longrightarrow>
   got_ip_addr g' \<in> {0, 2} \<and> got_ip6_addr g' \<in> {0, 4}"
proof (induction interface ifas g rule: ifa_loop.induct)
  case (1 interface g)
  then show ?case by simp
next
  case (2 interface ifa ifas g)
  show ?case
    using 2(7-9)
    by (simp split: if_splits option.splits add: bind_Some_eq; use 2(1-6) in \<open>fastforce simp: bind_Some_eq\<close>)
qed

text \<open>The result is -1, or the sum of 1, 2 and 4 for the addresses found; its bits are what
  \<open>packet_init\<close> tests.\<close>

lemma get_addrs_ioctl_bits:
  assumes "get_addrs_ioctl f interface sock hwaddr ifas sioc hw0 g0 = Some (r, hw, g)" and "sock \<noteq> -1"
  shows "(r AND 1 \<noteq> 0 \<longleftrightarrow> hwaddr \<noteq> None) \<and> (r AND 2 \<noteq> 0 \<longleftrightarrow> got_ip_addr g \<noteq> 0) \<and>
     (r AND 4 \<noteq> 0 \<longleftrightarrow> got_ip6_addr g \<noteq> 0)"
proof -
  let ?g0 = "g0\<lparr>got_ip_addr := 0, got_ip6_addr := 0\<rparr>"
  obtain gh hw' where h: "get_hwaddr hwaddr = (gh, hw')" by fastforce
  then have gh: "gh = (if hwaddr = None then 0 else 1)" by (auto simp: get_hwaddr_def split: option.splits)
  have B: "(if f then (case ifas of None \<Rightarrow> Some ?g0 | Some l \<Rightarrow> ifa_loop interface l ?g0)
      else Some (case sioc of None \<Rightarrow> ?g0 | Some a \<Rightarrow> ?g0\<lparr>ip_addr := a, got_ip_addr := 2\<rparr>)) = Some g"
    and r: "r = gh + got_ip_addr g + got_ip6_addr g"
    using assms h unfolding get_addrs_ioctl_def Let_def by (simp_all add: bind_Some_eq del: if_split)
  have g: "got_ip_addr g \<in> {0, 2} \<and> got_ip6_addr g \<in> {0, 4}"
  proof (cases "f \<and> ifas \<noteq> None")
    case True
    then obtain l where "ifa_loop interface l ?g0 = Some g" using B by auto
    from ifa_loop_got [OF this] show ?thesis by simp
  next
    case False
    then show ?thesis using B by (auto split: if_splits option.splits)
  qed
  then show ?thesis unfolding r gh by auto
qed

text \<open>A second IPv4 address of the interface is read as an IPv6 address: past the end of a
  16-byte \<open>sockaddr_in\<close>.\<close>

lemma second_ipv4_overread:
  assumes "length sa = 16" and "get16 sa 0 = Some 2" and "got_ip_addr g = 2" and "got_ip6_addr g = 0"
    and "ifa_name ifa = interface" and "ifa_addr ifa = Some sa"
  shows "ifa_loop interface (ifa # ifas) g = None"
  using assms by (simp add: strcmp_zero get_bytes_def)

end
