(* ===== verification/DlCommon.thy ===== *)
theory DlCommon
  imports CString IftopApi
begin

text \<open>
  dlcommon.c: requests to and acknowledgements from a STREAMS data link provider (DLPI), on a system
  with \<open>HAVE_DLPI\<close>. A request is the list of the structure members the code assigns and the bytes it
  appends; a received control message is the bytes in the caller's buffer. What \<open>sys/dlpi.h\<close>
  and \<open>sys/stropts.h\<close> define is a parameter: the values of the macros, the sizes of the structures and
  the places of their members. \<open>long\<close> has 4 bytes, as the code assumes of the members. \<open>err\<close> and
  \<open>syserr\<close> end the program with a message; undefined behaviour is \<open>Undef\<close>.
\<close>

record dlpi_h =
  macro :: "string \<Rightarrow> u32"
  sizeof_s :: "string \<Rightarrow> nat"
  member :: "string \<Rightarrow> string \<Rightarrow> nat \<times> nat"
  args_rtl :: bool

text \<open>\<open>member\<close> gives offset and size. \<open>args_rtl\<close>: the compiler evaluates arguments from right to
  left, which matters once below.\<close>

datatype 'a dl = Undef | Died string | Done 'a

fun dbind :: "'a dl \<Rightarrow> ('a \<Rightarrow> 'b dl) \<Rightarrow> 'b dl" where
  "dbind Undef f = Undef"
| "dbind (Died s) f = Died s"
| "dbind (Done x) f = f x"

lemma dbind_Done: "dbind m f = Done y \<longleftrightarrow> (\<exists>x. m = Done x \<and> f x = Done y)"
  by (cases m) auto

definition MAXDLBUF :: nat where "MAXDLBUF = 8192"

definition MAXDLADDR :: nat where "MAXDLADDR = 1024"

subsection \<open>Formats\<close>

definition hex_digit :: "nat \<Rightarrow> char" where
  "hex_digit n = ''0123456789abcdef'' ! n"

fun show_hex_acc :: "nat \<Rightarrow> string \<Rightarrow> string" where
  "show_hex_acc n acc = (let acc' = hex_digit (n mod 16) # acc
     in if n < 16 then acc' else show_hex_acc (n div 16) acc')"

declare show_hex_acc.simps [simp del]

text \<open>\<open>%x\<close> and \<open>%d\<close>.\<close>

definition show_hex :: "nat \<Rightarrow> string" where
  "show_hex n = show_hex_acc n []"

definition show_int :: "int \<Rightarrow> string" where
  "show_int i = (if i < 0 then ''-'' @ show_nat (nat (- i)) else show_nat (nat i))"

definition px :: "u32 \<Rightarrow> string" where "px v = show_hex (unat v)"

definition pd :: "u32 \<Rightarrow> string" where "pd v = show_int (sint v)"

subsection \<open>Names of constants\<close>

text \<open>A \<open>switch\<close> of \<open>CASERET\<close> lines: the first name whose value matches.\<close>

definition caseret :: "(string \<times> u32) list \<Rightarrow> string \<Rightarrow> u32 \<Rightarrow> string" where
  "caseret cs unknown v = (case List.find (\<lambda>(s, c). c = v) cs of Some (s, c) \<Rightarrow> s | None \<Rightarrow> unknown @ px v)"

definition macros :: "dlpi_h \<Rightarrow> string list \<Rightarrow> (string \<times> u32) list" where
  "macros H = map (\<lambda>s. (s, macro H s))"

definition dlprim_names :: "string list" where
  "dlprim_names = [''DL_INFO_REQ'', ''DL_INFO_ACK'', ''DL_ATTACH_REQ'', ''DL_DETACH_REQ'', ''DL_BIND_REQ'', ''DL_BIND_ACK'',
     ''DL_UNBIND_REQ'', ''DL_OK_ACK'', ''DL_ERROR_ACK'', ''DL_SUBS_BIND_REQ'', ''DL_SUBS_BIND_ACK'', ''DL_UNITDATA_REQ'',
     ''DL_UNITDATA_IND'', ''DL_UDERROR_IND'', ''DL_UDQOS_REQ'', ''DL_CONNECT_REQ'', ''DL_CONNECT_IND'',
     ''DL_CONNECT_RES'', ''DL_CONNECT_CON'', ''DL_TOKEN_REQ'', ''DL_TOKEN_ACK'', ''DL_DISCONNECT_REQ'',
     ''DL_DISCONNECT_IND'', ''DL_RESET_REQ'', ''DL_RESET_IND'', ''DL_RESET_RES'', ''DL_RESET_CON'']"

definition dlprim :: "dlpi_h \<Rightarrow> u32 \<Rightarrow> string" where
  "dlprim H = caseret (macros H dlprim_names) ''unknown primitive 0x''"

definition dlstate_names :: "string list" where
  "dlstate_names = [''DL_UNATTACHED'', ''DL_ATTACH_PENDING'', ''DL_DETACH_PENDING'', ''DL_UNBOUND'', ''DL_BIND_PENDING'',
     ''DL_UNBIND_PENDING'', ''DL_IDLE'', ''DL_UDQOS_PENDING'', ''DL_OUTCON_PENDING'', ''DL_INCON_PENDING'',
     ''DL_CONN_RES_PENDING'', ''DL_DATAXFER'', ''DL_USER_RESET_PENDING'', ''DL_PROV_RESET_PENDING'', ''DL_RESET_RES_PENDING'',
     ''DL_DISCON8_PENDING'', ''DL_DISCON9_PENDING'', ''DL_DISCON11_PENDING'', ''DL_DISCON12_PENDING'',
     ''DL_DISCON13_PENDING'', ''DL_SUBS_BIND_PND'']"

definition dlstate :: "dlpi_h \<Rightarrow> u32 \<Rightarrow> string" where
  "dlstate H = caseret (macros H dlstate_names) ''unknown state 0x''"

definition dlerrno_names :: "string list" where
  "dlerrno_names = [''DL_ACCESS'', ''DL_BADADDR'', ''DL_BADCORR'', ''DL_BADDATA'', ''DL_BADPPA'', ''DL_BADPRIM'', ''DL_BADQOSPARAM'',
     ''DL_BADQOSTYPE'', ''DL_BADSAP'', ''DL_BADTOKEN'', ''DL_BOUND'', ''DL_INITFAILED'', ''DL_NOADDR'',
     ''DL_NOTINIT'', ''DL_OUTSTATE'', ''DL_SYSERR'', ''DL_UNSUPPORTED'', ''DL_UNDELIVERABLE'', ''DL_NOTSUPPORTED'',
     ''DL_TOOMANY'', ''DL_NOTENAB'', ''DL_BUSY'', ''DL_NOAUTO'', ''DL_NOXIDAUTO'', ''DL_NOTESTAUTO'', ''DL_XIDAUTO'',
     ''DL_TESTAUTO'', ''DL_PENDING'']"

definition dlerrno :: "dlpi_h \<Rightarrow> u32 \<Rightarrow> string" where
  "dlerrno H = caseret (macros H dlerrno_names) ''unknown dlpi errno 0x''"

definition dlpromisclevel :: "dlpi_h \<Rightarrow> u32 \<Rightarrow> string" where
  "dlpromisclevel H = caseret (macros H [''DL_PROMISC_PHYS'', ''DL_PROMISC_SAP'', ''DL_PROMISC_MULTI''])
     ''unknown promisc level 0x''"

definition dlservicemode :: "dlpi_h \<Rightarrow> u32 \<Rightarrow> string" where
  "dlservicemode H = caseret (macros H [''DL_CODLS'', ''DL_CLDLS''] @
       [(''DL_CODLS|DL_CLDLS'', macro H ''DL_CODLS'' OR macro H ''DL_CLDLS'')])
     ''unknown provider service mode 0x''"

definition dlstyle :: "dlpi_h \<Rightarrow> u32 \<Rightarrow> string" where
  "dlstyle H = caseret (macros H [''DL_STYLE1'', ''DL_STYLE2'']) ''unknown provider style 0x''"

definition dlmactype :: "dlpi_h \<Rightarrow> u32 \<Rightarrow> string" where
  "dlmactype H = caseret (macros H [''DL_CSMACD'', ''DL_TPB'', ''DL_TPR'', ''DL_METRO'', ''DL_ETHER'',
     ''DL_HDLC'', ''DL_CHAR'', ''DL_CTCA'']) ''unknown media type 0x''"

subsection \<open>Addresses\<close>

text \<open>\<open>addrtostring\<close>: \<open>length\<close> bytes at the offset \<open>off\<close> (a signed conversion) of the message, written
  to a buffer of \<open>MAXDLADDR\<close>. With length 0 nothing is written: the buffer stays indeterminate, which
  is the result \<open>None\<close>.\<close>

fun addr_loop :: "byte list \<Rightarrow> int \<Rightarrow> nat \<Rightarrow> nat \<Rightarrow> string \<Rightarrow> string dl" where
  "addr_loop buf off i 0 s = Done s"
| "addr_loop buf off i (Suc n) s =
     (let j = off + int i
      in if j < 0 \<or> int (length buf) \<le> j then Undef
         else (let t = show_hex (unat (buf ! nat j)) @ '':''
               in if length s + length t + 1 \<le> MAXDLADDR then addr_loop buf off (i + 1) n (s @ t) else Undef))"

definition addrtostring :: "byte list \<Rightarrow> u32 \<Rightarrow> u32 \<Rightarrow> string option dl" where
  "addrtostring buf off len =
     dbind (addr_loop buf (sint off) 0 (unat len) []) (\<lambda>s. Done (if len = 0 then None else Some (butlast s)))"

text \<open>\<open>sscanf(p, "%x", &val)\<close> into an \<open>int\<close>: \<open>None\<close> where nothing is converted.\<close>

definition is_xdigit :: "char \<Rightarrow> bool" where
  "is_xdigit c \<longleftrightarrow> c \<in> set ''0123456789abcdefABCDEF''"

definition xdigit_val :: "char \<Rightarrow> int" where
  "xdigit_val c = (let n = int (of_char c) in if n < 58 then n - 48 else if n < 71 then n - 55 else n - 87)"

definition sscanf_x :: "string \<Rightarrow> int option" where
  "sscanf_x p =
     (let s1 = dropWhile is_space p;
          neg = (s1 \<noteq> [] \<and> hd s1 = CHR ''-'');
          s2 = (if s1 \<noteq> [] \<and> hd s1 \<in> {CHR ''-'', CHR ''+''} then tl s1 else s1);
          s3 = (if take 2 s2 \<in> {''0x'', ''0X''} \<and> drop 2 s2 \<noteq> [] \<and> is_xdigit (s2 ! 2) then drop 2 s2 else s2);
          ds = takeWhile is_xdigit s3;
          v = min (2 ^ 32 - 1) (foldl (\<lambda>n c. 16 * n + xdigit_val c) 0 ds)
      in if ds = [] then None else Some (to_int (if neg then - v else v)))"

text \<open>\<open>stringtoaddr\<close>: the number of bytes and the bytes stored. The message shows the string as
  \<open>strtok\<close> has left it, cut behind its first token.\<close>

fun stringtoaddr_loop :: "string \<Rightarrow> string list \<Rightarrow> byte list \<Rightarrow> byte list dl" where
  "stringtoaddr_loop sp [] addr = Done addr"
| "stringtoaddr_loop sp (p # ps) addr =
     (case sscanf_x p of
        None \<Rightarrow> Died (''stringtoaddr:  invalid input string:  '' @ sp)
      | Some val \<Rightarrow> if val > 0xff then Died (''stringtoaddr:  invalid input string:  '' @ sp)
          else stringtoaddr_loop sp ps (addr @ [word_of_int val]))"

definition stringtoaddr :: "string \<Rightarrow> (nat \<times> byte list) dl" where
  "stringtoaddr sp =
     (let n = length (takeWhile (\<lambda>c. c = CHR '':'') sp);
          cut = take n sp @ takeWhile (\<lambda>c. c \<noteq> CHR '':'') (drop n sp)
      in dbind (stringtoaddr_loop cut (tokens CHR '':'' sp) []) (\<lambda>addr. Done (length addr, addr)))"

definition hexnibble :: "byte \<Rightarrow> char" where
  "hexnibble c = hex_digit (unat (c AND 0x0f))"

subsection \<open>Printing messages\<close>

text \<open>The members of the structure \<open>s\<close> in the buffer, and an address argument of a \<open>printf\<close>.\<close>

definition fld :: "dlpi_h \<Rightarrow> string \<Rightarrow> byte list \<Rightarrow> string \<Rightarrow> u32" where
  "fld H s buf m = (let (off, size) = member H s m in word_of_int (le_value (take size (drop off buf))))"

definition view :: "dlpi_h \<Rightarrow> string \<Rightarrow> byte list \<Rightarrow> ((string \<Rightarrow> u32) \<Rightarrow> 'a dl) \<Rightarrow> 'a dl" where
  "view H s buf k = (if sizeof_s H s \<le> length buf then k (fld H s buf) else Undef)"

definition with_addr :: "byte list \<Rightarrow> u32 \<Rightarrow> u32 \<Rightarrow> (string \<Rightarrow> 'a dl) \<Rightarrow> 'a dl" where
  "with_addr buf off len k =
     dbind (addrtostring buf off len) (\<lambda>s. case s of None \<Rightarrow> Undef | Some t \<Rightarrow> k t)"

definition nl :: string where "nl = [newline]"

definition printdlinforeq :: "dlpi_h \<Rightarrow> byte list \<Rightarrow> string dl" where
  "printdlinforeq H buf = Done (''DL_INFO_REQ'' @ nl)"

definition printdlinfoack :: "dlpi_h \<Rightarrow> byte list \<Rightarrow> string dl" where
  "printdlinfoack H buf = view H ''dl_info_ack_t'' buf (\<lambda>f.
    with_addr buf (f ''dl_addr_offset'') (f ''dl_addr_length'') (\<lambda>addr.
    with_addr buf (f ''dl_brdcst_addr_offset'') (f ''dl_brdcst_addr_length'') (\<lambda>brdcst.
    Done (''DL_INFO_ACK:  max_sdu '' @ pd (f ''dl_max_sdu'') @ '' min_sdu '' @ pd (f ''dl_min_sdu'') @ nl @
      ''addr_length '' @ pd (f ''dl_addr_length'') @ '' mac_type '' @ dlmactype H (f ''dl_mac_type'') @
        '' current_state '' @ dlstate H (f ''dl_current_state'') @ nl @
      ''sap_length '' @ pd (f ''dl_sap_length'') @ '' service_mode '' @
        dlservicemode H (f ''dl_service_mode'') @ '' qos_length '' @ pd (f ''dl_qos_length'') @ nl @
      ''qos_offset '' @ pd (f ''dl_qos_offset'') @ '' qos_range_length '' @
        pd (f ''dl_qos_range_length'') @ '' qos_range_offset '' @ pd (f ''dl_qos_range_offset'') @ nl @
      ''provider_style '' @ dlstyle H (f ''dl_provider_style'') @ '' addr_offset '' @
        pd (f ''dl_addr_offset'') @ '' version '' @ pd (f ''dl_version'') @ nl @
      ''brdcst_addr_length '' @ pd (f ''dl_brdcst_addr_length'') @ '' brdcst_addr_offset '' @
        pd (f ''dl_brdcst_addr_offset'') @ nl @
      ''addr '' @ addr @ nl @
      ''brdcst_addr '' @ brdcst @ nl))))"

definition printdlattachreq :: "dlpi_h \<Rightarrow> byte list \<Rightarrow> string dl" where
  "printdlattachreq H buf = view H ''dl_attach_req_t'' buf (\<lambda>f.
    Done (''DL_ATTACH_REQ:  ppa '' @ pd (f ''dl_ppa'') @ nl))"

definition printdlokack :: "dlpi_h \<Rightarrow> byte list \<Rightarrow> string dl" where
  "printdlokack H buf = view H ''dl_ok_ack_t'' buf (\<lambda>f.
    Done (''DL_OK_ACK:  correct_primitive '' @ dlprim H (f ''dl_correct_primitive'') @ nl))"

definition printdlerrorack :: "dlpi_h \<Rightarrow> byte list \<Rightarrow> string dl" where
  "printdlerrorack H buf = view H ''dl_error_ack_t'' buf (\<lambda>f.
    Done (''DL_ERROR_ACK:  error_primitive '' @ dlprim H (f ''dl_error_primitive'') @ '' errno '' @
        dlerrno H (f ''dl_errno'') @ '' unix_errno '' @ pd (f ''dl_unix_errno'') @ nl))"

definition printdlenabmultireq :: "dlpi_h \<Rightarrow> byte list \<Rightarrow> string dl" where
  "printdlenabmultireq H buf = view H ''dl_enabmulti_req_t'' buf (\<lambda>f.
    with_addr buf (f ''dl_addr_offset'') (f ''dl_addr_length'') (\<lambda>addr.
    Done (''DL_ENABMULTI_REQ:  addr_length '' @ pd (f ''dl_addr_length'') @ '' addr_offset '' @
        pd (f ''dl_addr_offset'') @ nl @
      ''addr '' @ addr @ nl)))"

definition printdldisabmultireq :: "dlpi_h \<Rightarrow> byte list \<Rightarrow> string dl" where
  "printdldisabmultireq H buf = view H ''dl_disabmulti_req_t'' buf (\<lambda>f.
    with_addr buf (f ''dl_addr_offset'') (f ''dl_addr_length'') (\<lambda>addr.
    Done (''DL_DISABMULTI_REQ:  addr_length '' @ pd (f ''dl_addr_length'') @ '' addr_offset '' @
        pd (f ''dl_addr_offset'') @ nl @
      ''addr '' @ addr @ nl)))"

definition printdlpromisconreq :: "dlpi_h \<Rightarrow> byte list \<Rightarrow> string dl" where
  "printdlpromisconreq H buf = view H ''dl_promiscon_req_t'' buf (\<lambda>f.
    Done (''DL_PROMISCON_REQ:  level '' @ dlpromisclevel H (f ''dl_level'') @ nl))"

definition printdlpromiscoffreq :: "dlpi_h \<Rightarrow> byte list \<Rightarrow> string dl" where
  "printdlpromiscoffreq H buf = view H ''dl_promiscoff_req_t'' buf (\<lambda>f.
    Done (''DL_PROMISCOFF_REQ:  level '' @ dlpromisclevel H (f ''dl_level'') @ nl))"

definition printdlphysaddrreq :: "dlpi_h \<Rightarrow> byte list \<Rightarrow> string dl" where
  "printdlphysaddrreq H buf = view H ''dl_phys_addr_req_t'' buf (\<lambda>f.
    Done (''DL_PHYS_ADDR_REQ:  addr_type 0x'' @ px (f ''dl_addr_type'') @ nl))"

definition printdlphysaddrack :: "dlpi_h \<Rightarrow> byte list \<Rightarrow> string dl" where
  "printdlphysaddrack H buf = view H ''dl_phys_addr_ack_t'' buf (\<lambda>f.
    with_addr buf (f ''dl_addr_offset'') (f ''dl_addr_length'') (\<lambda>addr.
    Done (''DL_PHYS_ADDR_ACK:  addr_length '' @ pd (f ''dl_addr_length'') @ '' addr_offset '' @
        pd (f ''dl_addr_offset'') @ nl @
      ''addr '' @ addr @ nl)))"

definition printdlsetphysaddrreq :: "dlpi_h \<Rightarrow> byte list \<Rightarrow> string dl" where
  "printdlsetphysaddrreq H buf = view H ''dl_set_phys_addr_req_t'' buf (\<lambda>f.
    with_addr buf (f ''dl_addr_offset'') (f ''dl_addr_length'') (\<lambda>addr.
    Done (''DL_SET_PHYS_ADDR_REQ:  addr_length '' @ pd (f ''dl_addr_length'') @ '' addr_offset '' @
        pd (f ''dl_addr_offset'') @ nl @
      ''addr '' @ addr @ nl)))"

definition printdldetachreq :: "dlpi_h \<Rightarrow> byte list \<Rightarrow> string dl" where
  "printdldetachreq H buf = Done (''DL_DETACH_REQ'' @ nl)"

definition printdlbindreq :: "dlpi_h \<Rightarrow> byte list \<Rightarrow> string dl" where
  "printdlbindreq H buf = view H ''dl_bind_req_t'' buf (\<lambda>f.
    Done (''DL_BIND_REQ:  sap '' @ pd (f ''dl_sap'') @ '' max_conind '' @ pd (f ''dl_max_conind'') @ nl @
      ''service_mode '' @ dlservicemode H (f ''dl_service_mode'') @ '' conn_mgmt '' @
        pd (f ''dl_conn_mgmt'') @ '' xidtest_flg 0x'' @ px (f ''dl_xidtest_flg'') @ nl))"

definition printdlbindack :: "dlpi_h \<Rightarrow> byte list \<Rightarrow> string dl" where
  "printdlbindack H buf = view H ''dl_bind_ack_t'' buf (\<lambda>f.
    with_addr buf (f ''dl_addr_offset'') (f ''dl_addr_length'') (\<lambda>addr.
    Done (''DL_BIND_ACK:  sap '' @ pd (f ''dl_sap'') @ '' addr_length '' @ pd (f ''dl_addr_length'') @
        '' addr_offset '' @ pd (f ''dl_addr_offset'') @ nl @
      ''max_conind '' @ pd (f ''dl_max_conind'') @ '' xidtest_flg 0x'' @ px (f ''dl_xidtest_flg'') @ nl @
      ''addr '' @ addr @ nl)))"

definition printdlunbindreq :: "dlpi_h \<Rightarrow> byte list \<Rightarrow> string dl" where
  "printdlunbindreq H buf = Done (''DL_UNBIND_REQ'' @ nl)"

definition printdlsubsbindreq :: "dlpi_h \<Rightarrow> byte list \<Rightarrow> string dl" where
  "printdlsubsbindreq H buf = view H ''dl_subs_bind_req_t'' buf (\<lambda>f.
    with_addr buf (f ''dl_subs_sap_offset'') (f ''dl_subs_sap_length'') (\<lambda>sap.
    Done (''DL_SUBS_BIND_REQ:  subs_sap_offset '' @ pd (f ''dl_subs_sap_offset'') @ '' sub_sap_len '' @
        pd (f ''dl_subs_sap_length'') @ nl @
      ''sap '' @ sap @ nl)))"

definition printdlsubsbindack :: "dlpi_h \<Rightarrow> byte list \<Rightarrow> string dl" where
  "printdlsubsbindack H buf = view H ''dl_subs_bind_ack_t'' buf (\<lambda>f.
    with_addr buf (f ''dl_subs_sap_offset'') (f ''dl_subs_sap_length'') (\<lambda>sap.
    Done (''DL_SUBS_BIND_ACK:  subs_sap_offset '' @ pd (f ''dl_subs_sap_offset'') @ '' sub_sap_length '' @
        pd (f ''dl_subs_sap_length'') @ nl @
      ''sap '' @ sap @ nl)))"

definition printdlsubsunbindreq :: "dlpi_h \<Rightarrow> byte list \<Rightarrow> string dl" where
  "printdlsubsunbindreq H buf = view H ''dl_subs_unbind_req_t'' buf (\<lambda>f.
    with_addr buf (f ''dl_subs_sap_offset'') (f ''dl_subs_sap_length'') (\<lambda>sap.
    Done (''DL_SUBS_UNBIND_REQ:  subs_sap_offset '' @ pd (f ''dl_subs_sap_offset'') @ '' sub_sap_length '' @
        pd (f ''dl_subs_sap_length'') @ nl @
      ''sap '' @ sap @ nl)))"

definition printdlunitdatareq :: "dlpi_h \<Rightarrow> byte list \<Rightarrow> string dl" where
  "printdlunitdatareq H buf = view H ''dl_unitdata_req_t'' buf (\<lambda>f.
    with_addr buf (f ''dl_dest_addr_offset'') (f ''dl_dest_addr_length'') (\<lambda>addr.
    Done (''DL_UNITDATA_REQ:  dest_addr_length '' @ pd (f ''dl_dest_addr_length'') @ '' dest_addr_offset '' @
        pd (f ''dl_dest_addr_offset'') @ nl @
      ''dl_priority.min '' @ pd (f ''dl_priority.dl_min'') @ '' dl_priority.max '' @
        pd (f ''dl_priority.dl_max'') @ nl @
      ''addr '' @ addr @ nl)))"

definition printdlunitdataind :: "dlpi_h \<Rightarrow> byte list \<Rightarrow> string dl" where
  "printdlunitdataind H buf = view H ''dl_unitdata_ind_t'' buf (\<lambda>f.
    with_addr buf (f ''dl_dest_addr_offset'') (f ''dl_dest_addr_length'') (\<lambda>dest.
    with_addr buf (f ''dl_src_addr_offset'') (f ''dl_src_addr_length'') (\<lambda>src.
    Done (''DL_UNITDATA_IND:  dest_addr_length '' @ pd (f ''dl_dest_addr_length'') @ '' dest_addr_offset '' @
        pd (f ''dl_dest_addr_offset'') @ nl @
      ''src_addr_length '' @ pd (f ''dl_src_addr_length'') @ '' src_addr_offset '' @
        pd (f ''dl_src_addr_offset'') @ nl @
      ''group_address 0x'' @ px (f ''dl_group_address'') @ nl @
      ''dest '' @ dest @ nl @
      ''src '' @ src @ nl))))"

definition printdluderrorind :: "dlpi_h \<Rightarrow> byte list \<Rightarrow> string dl" where
  "printdluderrorind H buf = view H ''dl_uderror_ind_t'' buf (\<lambda>f.
    with_addr buf (f ''dl_dest_addr_offset'') (f ''dl_dest_addr_length'') (\<lambda>addr.
    Done (''DL_UDERROR_IND:  dest_addr_length '' @ pd (f ''dl_dest_addr_length'') @ '' dest_addr_offset '' @
        pd (f ''dl_dest_addr_offset'') @ nl @
      ''unix_errno '' @ pd (f ''dl_unix_errno'') @ '' errno '' @ dlerrno H (f ''dl_errno'') @ nl @
      ''addr '' @ addr @ nl)))"

definition printdltestreq :: "dlpi_h \<Rightarrow> byte list \<Rightarrow> string dl" where
  "printdltestreq H buf = view H ''dl_test_req_t'' buf (\<lambda>f.
    with_addr buf (f ''dl_dest_addr_offset'') (f ''dl_dest_addr_length'') (\<lambda>addr.
    Done (''DL_TEST_REQ:  flag 0x'' @ px (f ''dl_flag'') @ '' dest_addr_length '' @
        pd (f ''dl_dest_addr_length'') @ '' dest_addr_offset '' @ pd (f ''dl_dest_addr_offset'') @ nl @
      ''dest_addr '' @ addr @ nl)))"

definition printdltestind :: "dlpi_h \<Rightarrow> byte list \<Rightarrow> string dl" where
  "printdltestind H buf = view H ''dl_test_ind_t'' buf (\<lambda>f.
    with_addr buf (f ''dl_dest_addr_offset'') (f ''dl_dest_addr_length'') (\<lambda>dest.
    with_addr buf (f ''dl_src_addr_offset'') (f ''dl_src_addr_length'') (\<lambda>src.
    Done (''DL_TEST_IND:  flag 0x'' @ px (f ''dl_flag'') @ '' dest_addr_length '' @
        pd (f ''dl_dest_addr_length'') @ '' dest_addr_offset '' @ pd (f ''dl_dest_addr_offset'') @ nl @
      ''src_addr_length '' @ pd (f ''dl_src_addr_length'') @ '' src_addr_offset '' @
        pd (f ''dl_src_addr_offset'') @ nl @
      ''dest_addr '' @ dest @ nl @
      ''src_addr '' @ src @ nl))))"

definition printdltestres :: "dlpi_h \<Rightarrow> byte list \<Rightarrow> string dl" where
  "printdltestres H buf = view H ''dl_test_res_t'' buf (\<lambda>f.
    with_addr buf (f ''dl_dest_addr_offset'') (f ''dl_dest_addr_length'') (\<lambda>dest.
    Done (''DL_TEST_RES:  flag 0x'' @ px (f ''dl_flag'') @ '' dest_addr_length '' @
        pd (f ''dl_dest_addr_length'') @ '' dest_addr_offset '' @ pd (f ''dl_dest_addr_offset'') @ nl @
      ''dest_addr '' @ dest @ nl)))"

definition printdltestcon :: "dlpi_h \<Rightarrow> byte list \<Rightarrow> string dl" where
  "printdltestcon H buf = view H ''dl_test_con_t'' buf (\<lambda>f.
    with_addr buf (f ''dl_dest_addr_offset'') (f ''dl_dest_addr_length'') (\<lambda>dest.
    with_addr buf (f ''dl_src_addr_offset'') (f ''dl_src_addr_length'') (\<lambda>src.
    Done (''DL_TEST_CON:  flag 0x'' @ px (f ''dl_flag'') @ '' dest_addr_length '' @
        pd (f ''dl_dest_addr_length'') @ '' dest_addr_offset '' @ pd (f ''dl_dest_addr_offset'') @ nl @
      ''src_addr_length '' @ pd (f ''dl_src_addr_length'') @ '' src_addr_offset '' @
        pd (f ''dl_src_addr_offset'') @ nl @
      ''dest_addr '' @ dest @ nl @
      ''src_addr '' @ src @ nl))))"

definition printdlxidreq :: "dlpi_h \<Rightarrow> byte list \<Rightarrow> string dl" where
  "printdlxidreq H buf = view H ''dl_xid_req_t'' buf (\<lambda>f.
    with_addr buf (f ''dl_dest_addr_offset'') (f ''dl_dest_addr_length'') (\<lambda>dest.
    Done (''DL_XID_REQ:  flag 0x'' @ px (f ''dl_flag'') @ '' dest_addr_length '' @
        pd (f ''dl_dest_addr_length'') @ '' dest_addr_offset '' @ pd (f ''dl_dest_addr_offset'') @ nl @
      ''dest_addr '' @ dest @ nl)))"

definition printdlxidind :: "dlpi_h \<Rightarrow> byte list \<Rightarrow> string dl" where
  "printdlxidind H buf = view H ''dl_xid_ind_t'' buf (\<lambda>f.
    with_addr buf (f ''dl_dest_addr_offset'') (f ''dl_dest_addr_length'') (\<lambda>dest.
    with_addr buf (f ''dl_src_addr_offset'') (f ''dl_src_addr_length'') (\<lambda>src.
    Done (''DL_XID_IND:  flag 0x'' @ px (f ''dl_flag'') @ '' dest_addr_length '' @
        pd (f ''dl_dest_addr_length'') @ '' dest_addr_offset '' @ pd (f ''dl_dest_addr_offset'') @ nl @
      ''src_addr_length '' @ pd (f ''dl_src_addr_length'') @ '' src_addr_offset '' @
        pd (f ''dl_src_addr_offset'') @ nl @
      ''dest_addr '' @ dest @ nl @
      ''src_addr '' @ src @ nl))))"

definition printdlxidres :: "dlpi_h \<Rightarrow> byte list \<Rightarrow> string dl" where
  "printdlxidres H buf = view H ''dl_xid_res_t'' buf (\<lambda>f.
    with_addr buf (f ''dl_dest_addr_offset'') (f ''dl_dest_addr_length'') (\<lambda>dest.
    Done (''DL_XID_RES:  flag 0x'' @ px (f ''dl_flag'') @ '' dest_addr_length '' @
        pd (f ''dl_dest_addr_length'') @ '' dest_addr_offset '' @ pd (f ''dl_dest_addr_offset'') @ nl @
      ''dest_addr '' @ dest @ nl)))"

definition printdlxidcon :: "dlpi_h \<Rightarrow> byte list \<Rightarrow> string dl" where
  "printdlxidcon H buf = view H ''dl_xid_con_t'' buf (\<lambda>f.
    with_addr buf (f ''dl_dest_addr_offset'') (f ''dl_dest_addr_length'') (\<lambda>dest.
    with_addr buf (f ''dl_src_addr_offset'') (f ''dl_src_addr_length'') (\<lambda>src.
    Done (''DL_XID_CON:  flag 0x'' @ px (f ''dl_flag'') @ '' dest_addr_length '' @
        pd (f ''dl_dest_addr_length'') @ '' dest_addr_offset '' @ pd (f ''dl_dest_addr_offset'') @ nl @
      ''src_addr_length '' @ pd (f ''dl_src_addr_length'') @ '' src_addr_offset '' @
        pd (f ''dl_src_addr_offset'') @ nl @
      ''dest_addr '' @ dest @ nl @
      ''src_addr '' @ src @ nl))))"

definition printdludqosreq :: "dlpi_h \<Rightarrow> byte list \<Rightarrow> string dl" where
  "printdludqosreq H buf = view H ''dl_udqos_req_t'' buf (\<lambda>f.
    Done (''DL_UDQOS_REQ:  qos_length '' @ pd (f ''dl_qos_length'') @ '' qos_offset '' @
        pd (f ''dl_qos_offset'') @ nl))"

text \<open>The \<open>switch\<close> of \<open>printdlprim\<close>. The first member of the union is the primitive.\<close>

definition printers :: "(string \<times> (dlpi_h \<Rightarrow> byte list \<Rightarrow> string dl)) list" where
  "printers = [(''DL_INFO_REQ'', printdlinforeq),
     (''DL_INFO_ACK'', printdlinfoack),
     (''DL_ATTACH_REQ'', printdlattachreq),
     (''DL_OK_ACK'', printdlokack),
     (''DL_ERROR_ACK'', printdlerrorack),
     (''DL_DETACH_REQ'', printdldetachreq),
     (''DL_BIND_REQ'', printdlbindreq),
     (''DL_BIND_ACK'', printdlbindack),
     (''DL_UNBIND_REQ'', printdlunbindreq),
     (''DL_SUBS_BIND_REQ'', printdlsubsbindreq),
     (''DL_SUBS_BIND_ACK'', printdlsubsbindack),
     (''DL_SUBS_UNBIND_REQ'', printdlsubsunbindreq),
     (''DL_ENABMULTI_REQ'', printdlenabmultireq),
     (''DL_DISABMULTI_REQ'', printdldisabmultireq),
     (''DL_PROMISCON_REQ'', printdlpromisconreq),
     (''DL_PROMISCOFF_REQ'', printdlpromiscoffreq),
     (''DL_UNITDATA_REQ'', printdlunitdatareq),
     (''DL_UNITDATA_IND'', printdlunitdataind),
     (''DL_UDERROR_IND'', printdluderrorind),
     (''DL_UDQOS_REQ'', printdludqosreq),
     (''DL_PHYS_ADDR_REQ'', printdlphysaddrreq),
     (''DL_PHYS_ADDR_ACK'', printdlphysaddrack),
     (''DL_SET_PHYS_ADDR_REQ'', printdlsetphysaddrreq)]"

definition dl_primitive :: "byte list \<Rightarrow> u32 dl" where
  "dl_primitive buf = (case get32 buf 0 of None \<Rightarrow> Undef | Some p \<Rightarrow> Done p)"

definition printdlprim :: "dlpi_h \<Rightarrow> byte list \<Rightarrow> string dl" where
  "printdlprim H buf = dbind (dl_primitive buf) (\<lambda>p.
     case List.find (\<lambda>(s, f). macro H s = p) printers of
       Some (s, f) \<Rightarrow> f H buf
     | None \<Rightarrow> Died (''printdlprim:  unknown primitive type 0x'' @ px p))"

subsection \<open>Requests\<close>

record dl_req =
  req_fields :: "(string \<times> u32) list"
  req_tail :: "byte list"
  req_len :: nat
  req_data :: "byte list option"
  req_flags :: u32

text \<open>A call of \<open>getmsg\<close>: none before the alarm, a failure, or its result, the control part (\<open>None\<close>:
  the message has none, and \<open>ctl.len\<close> becomes -1) and the flags.\<close>

datatype dl_reply = Timeout | GetFails | Reply u32 "byte list option" u32

text \<open>The open device: the requests sent, the results of the next calls of \<open>putmsg\<close> (0 when the
  list is used up) and the replies waiting.\<close>

record dl_io =
  sent :: "dl_req list"
  put_results :: "int list"
  replies :: "dl_reply list"

definition putmsg :: "dl_io \<Rightarrow> dl_req \<Rightarrow> string \<Rightarrow> dl_io dl" where
  "putmsg io req what =
     (case put_results io of
        [] \<Rightarrow> Done (io\<lparr>sent := sent io @ [req]\<rparr>)
      | r # rs \<Rightarrow> if r < 0 then Died what else Done (io\<lparr>sent := sent io @ [req], put_results := rs\<rparr>))"

definition ctl_req :: "dlpi_h \<Rightarrow> string \<Rightarrow> (string \<times> u32) list \<Rightarrow> u32 \<Rightarrow> dl_req" where
  "ctl_req H s fs flags =
     \<lparr>req_fields = fs, req_tail = [], req_len = sizeof_s H s, req_data = None, req_flags = flags\<rparr>"

text \<open>A request in \<open>buf[MAXDLBUF]\<close> with \<open>length\<close> bytes of \<open>addr\<close> copied behind the structure.\<close>

definition tail_req ::
  "dlpi_h \<Rightarrow> string \<Rightarrow> (string \<times> u32) list \<Rightarrow> byte list \<Rightarrow> int \<Rightarrow> byte list option \<Rightarrow> dl_req dl" where
  "tail_req H s fs addr len data =
     (if len < 0 \<or> int (length addr) < len \<or> 4 * int MAXDLBUF < int (sizeof_s H s) + len then Undef
      else Done \<lparr>req_fields = fs, req_tail = take (nat len) addr, req_len = sizeof_s H s + nat len,
                 req_data = data, req_flags = 0\<rparr>)"

definition dlinforeq :: "dlpi_h \<Rightarrow> dl_io \<Rightarrow> dl_io dl" where
  "dlinforeq H io = putmsg io
     (ctl_req H ''dl_info_req_t'' [(''dl_primitive'', macro H ''DL_INFO_REQ'')] (macro H ''RS_HIPRI''))
     ''dlinforeq:  putmsg''"

definition dlattachreq :: "dlpi_h \<Rightarrow> u32 \<Rightarrow> dl_io \<Rightarrow> dl_io dl" where
  "dlattachreq H ppa io = putmsg io
     (ctl_req H ''dl_attach_req_t'' [(''dl_primitive'', macro H ''DL_ATTACH_REQ''), (''dl_ppa'', ppa)] 0)
     ''dlattachreq:  putmsg''"

definition dlenabmultireq :: "dlpi_h \<Rightarrow> byte list \<Rightarrow> int \<Rightarrow> dl_io \<Rightarrow> dl_io dl" where
  "dlenabmultireq H addr len io = dbind
     (tail_req H ''dl_enabmulti_req_t'' [(''dl_primitive'', macro H ''DL_ENABMULTI_REQ''),
        (''dl_addr_length'', word_of_int len), (''dl_addr_offset'', word_of_nat (sizeof_s H ''dl_enabmulti_req_t''))]
        addr len None)
     (\<lambda>req. putmsg io req ''dlenabmultireq:  putmsg'')"

definition dldisabmultireq :: "dlpi_h \<Rightarrow> byte list \<Rightarrow> int \<Rightarrow> dl_io \<Rightarrow> dl_io dl" where
  "dldisabmultireq H addr len io = dbind
     (tail_req H ''dl_disabmulti_req_t'' [(''dl_primitive'', macro H ''DL_ENABMULTI_REQ''),
        (''dl_addr_length'', word_of_int len), (''dl_addr_offset'', word_of_nat (sizeof_s H ''dl_disabmulti_req_t''))]
        addr len None)
     (\<lambda>req. putmsg io req ''dldisabmultireq:  putmsg'')"

definition dlpromisconreq :: "dlpi_h \<Rightarrow> u32 \<Rightarrow> dl_io \<Rightarrow> dl_io dl" where
  "dlpromisconreq H level io = putmsg io
     (ctl_req H ''dl_promiscon_req_t'' [(''dl_primitive'', macro H ''DL_PROMISCON_REQ''), (''dl_level'', level)] 0)
     ''dlpromiscon:  putmsg''"

definition dlpromiscoff :: "dlpi_h \<Rightarrow> u32 \<Rightarrow> dl_io \<Rightarrow> dl_io dl" where
  "dlpromiscoff H level io = putmsg io
     (ctl_req H ''dl_promiscoff_req_t'' [(''dl_primitive'', macro H ''DL_PROMISCOFF_REQ''), (''dl_level'', level)] 0)
     ''dlpromiscoff:  putmsg''"

definition dlphysaddrreq :: "dlpi_h \<Rightarrow> u32 \<Rightarrow> dl_io \<Rightarrow> dl_io dl" where
  "dlphysaddrreq H addrtype io = putmsg io
     (ctl_req H ''dl_phys_addr_req_t'' [(''dl_primitive'', macro H ''DL_PHYS_ADDR_REQ''), (''dl_addr_type'', addrtype)] 0)
     ''dlphysaddrreq:  putmsg''"

definition dlsetphysaddrreq :: "dlpi_h \<Rightarrow> byte list \<Rightarrow> int \<Rightarrow> dl_io \<Rightarrow> dl_io dl" where
  "dlsetphysaddrreq H addr len io = dbind
     (tail_req H ''dl_set_phys_addr_req_t'' [(''dl_primitive'', macro H ''DL_ENABMULTI_REQ''),
        (''dl_addr_length'', word_of_int len), (''dl_addr_offset'', word_of_nat (sizeof_s H ''dl_set_phys_addr_req_t''))]
        addr len None)
     (\<lambda>req. putmsg io req ''dlsetphysaddrreq:  putmsg'')"

definition dldetachreq :: "dlpi_h \<Rightarrow> dl_io \<Rightarrow> dl_io dl" where
  "dldetachreq H io = putmsg io
     (ctl_req H ''dl_detach_req_t'' [(''dl_primitive'', macro H ''DL_DETACH_REQ'')] 0) ''dldetachreq:  putmsg''"

definition dlbindreq :: "dlpi_h \<Rightarrow> u32 \<Rightarrow> u32 \<Rightarrow> u32 \<Rightarrow> u32 \<Rightarrow> u32 \<Rightarrow> dl_io \<Rightarrow> dl_io dl" where
  "dlbindreq H sap max_conind service_mode conn_mgmt xidtest io = putmsg io
     (ctl_req H ''dl_bind_req_t'' [(''dl_primitive'', macro H ''DL_BIND_REQ''), (''dl_sap'', sap),
        (''dl_max_conind'', max_conind), (''dl_service_mode'', service_mode), (''dl_conn_mgmt'', conn_mgmt),
        (''dl_xidtest_flg'', xidtest)] 0)
     ''dlbindreq:  putmsg''"

definition dlunitdatareq ::
  "dlpi_h \<Rightarrow> byte list \<Rightarrow> int \<Rightarrow> u32 \<Rightarrow> u32 \<Rightarrow> byte list \<Rightarrow> dl_io \<Rightarrow> dl_io dl" where
  "dlunitdatareq H addrp addrlen minpri maxpri data io = dbind
     (tail_req H ''dl_unitdata_req_t'' [(''dl_primitive'', macro H ''DL_UNITDATA_REQ''),
        (''dl_dest_addr_length'', word_of_int addrlen),
        (''dl_dest_addr_offset'', word_of_nat (sizeof_s H ''dl_unitdata_req_t'')),
        (''dl_priority.dl_min'', minpri), (''dl_priority.dl_max'', maxpri)] addrp addrlen (Some data))
     (\<lambda>req. putmsg io req ''dlunitdatareq:  putmsg'')"

definition dlunbindreq :: "dlpi_h \<Rightarrow> dl_io \<Rightarrow> dl_io dl" where
  "dlunbindreq H io = putmsg io
     (ctl_req H ''dl_unbind_req_t'' [(''dl_primitive'', macro H ''DL_UNBIND_REQ'')] 0) ''dlunbindreq:  putmsg''"

subsection \<open>Acknowledgements\<close>

text \<open>A test \<open>ctl.len < sizeof ...\<close> compares unsigned numbers.\<close>

definition len_less :: "int \<Rightarrow> nat \<Rightarrow> bool" where
  "len_less len n \<longleftrightarrow> (word_of_int len :: u32) < word_of_nat n"

text \<open>\<open>strgetmsg\<close> with a buffer of the caller and \<open>maxlen = MAXDLBUF\<close>: the buffer after it, \<open>ctl.len\<close>
  and the flags. \<open>alarm\<close> cannot fail; when it fires, \<open>sigalrm\<close> ends the program.\<close>

definition sigalrm :: "'a dl" where
  "sigalrm = Died ''sigalrm:  TIMEOUT''"

definition store_ctl :: "byte list option \<Rightarrow> byte list \<Rightarrow> (byte list \<times> int) dl" where
  "store_ctl ctl buf =
     (case ctl of
        None \<Rightarrow> Done (buf, -1)
      | Some bs \<Rightarrow> let bs = take MAXDLBUF bs
          in if length bs \<le> length buf then Done (bs @ drop (length bs) buf, int (length bs)) else Undef)"

definition strgetmsg ::
  "dlpi_h \<Rightarrow> string \<Rightarrow> dl_io \<Rightarrow> byte list \<Rightarrow> (dl_io \<times> byte list \<times> int \<times> u32) dl" where
  "strgetmsg H caller io buf =
     (case replies io of
        [] \<Rightarrow> sigalrm
      | Timeout # rs \<Rightarrow> sigalrm
      | GetFails # rs \<Rightarrow> Died (caller @ '':  getmsg'')
      | Reply rc ctl flags # rs \<Rightarrow> dbind (store_ctl ctl buf) (\<lambda>(buf, len).
          let both = macro H ''MORECTL'' OR macro H ''MOREDATA''
          in if rc AND both = both then Died (caller @ '':  MORECTL|MOREDATA'')
             else if rc AND macro H ''MORECTL'' \<noteq> 0 then Died (caller @ '':  MORECTL'')
             else if rc AND macro H ''MOREDATA'' \<noteq> 0 then Died (caller @ '':  MOREDATA'')
             else if len_less len 4
             then Died (''getmsg:  control portion length < sizeof (long):  '' @ show_int len)
             else Done (io\<lparr>replies := rs\<rparr>, buf, len, flags)))"

text \<open>\<open>dlprim\<close> returns its static buffer for an unknown primitive; called twice, the later call
  overwrites the text of the earlier.\<close>

definition dlprim_known :: "dlpi_h \<Rightarrow> u32 \<Rightarrow> bool" where
  "dlprim_known H v \<longleftrightarrow> v \<in> snd ` set (macros H dlprim_names)"

definition dlprim_twice :: "dlpi_h \<Rightarrow> u32 \<Rightarrow> u32 \<Rightarrow> string \<times> string" where
  "dlprim_twice H a b =
     (if \<not> dlprim_known H a \<and> \<not> dlprim_known H b
      then (let s = dlprim H (if args_rtl H then a else b) in (s, s))
      else (dlprim H a, dlprim H b))"

definition expecting :: "dlpi_h \<Rightarrow> string \<Rightarrow> byte list \<Rightarrow> unit dl" where
  "expecting H prim buf = dbind (dl_primitive buf) (\<lambda>p.
     if p \<noteq> macro H prim then dbind (printdlprim H buf) (\<lambda>_.
       let (a, b) = dlprim_twice H (macro H prim) p in Died (''expected '' @ a @ '' got '' @ b))
     else Done ())"

definition dlinfoack :: "dlpi_h \<Rightarrow> dl_io \<Rightarrow> byte list \<Rightarrow> (dl_io \<times> byte list) dl" where
  "dlinfoack H io buf = dbind (strgetmsg H ''dlinfoack'' io buf) (\<lambda>(io, buf, len, flags).
     dbind (expecting H ''DL_INFO_ACK'' buf) (\<lambda>_.
     if len_less len (sizeof_s H ''dl_info_ack_t'') then Died (''dlinfoack:  response ctl.len too short:  '' @ show_int len)
     else if flags \<noteq> macro H ''RS_HIPRI'' then Died ''dlinfoack:  DL_INFO_ACK was not M_PCPROTO''
     else if len_less len (sizeof_s H ''dl_info_ack_t'') then Died (''dlinfoack:  short response ctl.len:  '' @ show_int len)
     else Done (io, buf)))"

definition dlokack :: "dlpi_h \<Rightarrow> dl_io \<Rightarrow> byte list \<Rightarrow> (dl_io \<times> byte list) dl" where
  "dlokack H io buf = dbind (strgetmsg H ''dlokack'' io buf) (\<lambda>(io, buf, len, flags).
     dbind (expecting H ''DL_OK_ACK'' buf) (\<lambda>_.
     if len_less len (sizeof_s H ''dl_ok_ack_t'') then Died (''dlokack:  response ctl.len too short:  '' @ show_int len)
     else if flags \<noteq> macro H ''RS_HIPRI'' then Died ''dlokack:  DL_OK_ACK was not M_PCPROTO''
     else if len_less len (sizeof_s H ''dl_ok_ack_t'') then Died (''dlokack:  short response ctl.len:  '' @ show_int len)
     else Done (io, buf)))"

definition dlerrorack :: "dlpi_h \<Rightarrow> dl_io \<Rightarrow> byte list \<Rightarrow> (dl_io \<times> byte list) dl" where
  "dlerrorack H io buf = dbind (strgetmsg H ''dlerrorack'' io buf) (\<lambda>(io, buf, len, flags).
     dbind (expecting H ''DL_ERROR_ACK'' buf) (\<lambda>_.
     if len_less len (sizeof_s H ''dl_error_ack_t'') then Died (''dlerrorack:  response ctl.len too short:  '' @ show_int len)
     else if flags \<noteq> macro H ''RS_HIPRI'' then Died ''dlerrorack:  DL_OK_ACK was not M_PCPROTO''
     else if len_less len (sizeof_s H ''dl_error_ack_t'') then Died (''dlerrorack:  short response ctl.len:  '' @ show_int len)
     else Done (io, buf)))"

definition dlbindack :: "dlpi_h \<Rightarrow> dl_io \<Rightarrow> byte list \<Rightarrow> (dl_io \<times> byte list) dl" where
  "dlbindack H io buf = dbind (strgetmsg H ''dlbindack'' io buf) (\<lambda>(io, buf, len, flags).
     dbind (expecting H ''DL_BIND_ACK'' buf) (\<lambda>_.
     if flags \<noteq> macro H ''RS_HIPRI'' then Died ''dlbindack:  DL_OK_ACK was not M_PCPROTO''
     else if len_less len (sizeof_s H ''dl_bind_ack_t'') then Died (''dlbindack:  short response ctl.len:  '' @ show_int len)
     else Done (io, buf)))"

definition dlphysaddrack :: "dlpi_h \<Rightarrow> dl_io \<Rightarrow> byte list \<Rightarrow> (dl_io \<times> byte list) dl" where
  "dlphysaddrack H io buf = dbind (strgetmsg H ''dlphysaddrack'' io buf) (\<lambda>(io, buf, len, flags).
     dbind (expecting H ''DL_PHYS_ADDR_ACK'' buf) (\<lambda>_.
     if flags \<noteq> macro H ''RS_HIPRI'' then Died ''dlbindack:  DL_OK_ACK was not M_PCPROTO''
     else if len_less len (sizeof_s H ''dl_phys_addr_ack_t'') then Died (''dlphysaddrack:  short response ctl.len:  '' @ show_int len)
     else Done (io, buf)))"

text \<open>\<open>strioctl\<close>: the result of the ioctl and the length it leaves in the structure.\<close>

definition strioctl :: "(int \<Rightarrow> int \<Rightarrow> int \<Rightarrow> int \<times> int) \<Rightarrow> int \<Rightarrow> int \<Rightarrow> int \<Rightarrow> int" where
  "strioctl ioctl cmd timout len = (let (rc, ic_len) = ioctl cmd timout len in if rc < 0 then rc else ic_len)"

subsection \<open>Facts on the formats\<close>

lemma hex_digit_table:
  "list_all (\<lambda>d. let c = hex_digit d in is_xdigit c \<and> xdigit_val c = int d \<and> \<not> is_space c \<and>
     c \<notin> {CHR ''-'', CHR ''+'', CHR ''x'', CHR ''X'', CHR '':''}) [0..<16]"
  by code_simp

lemma hex_digit_facts:
  assumes "d < 16"
  shows "is_xdigit (hex_digit d)" "xdigit_val (hex_digit d) = int d" "\<not> is_space (hex_digit d)"
    "hex_digit d \<notin> {CHR ''-'', CHR ''+'', CHR ''x'', CHR ''X'', CHR '':''}"
  using hex_digit_table assms unfolding list_all_iff Let_def by auto

lemma show_hex_two:
  assumes "n < 256"
  shows "show_hex n = (if n < 16 then [hex_digit n] else [hex_digit (n div 16), hex_digit (n mod 16)])"
proof -
  have "n div 16 < 16" using assms by simp
  then show ?thesis by (simp add: show_hex_def show_hex_acc.simps [of n] show_hex_acc.simps [of "n div 16"] Let_def)
qed

lemma sscanf_hex:
  assumes "n < 256"
  shows "sscanf_x (show_hex n) = Some (int n)"
proof (cases "n < 16")
  case True
  with hex_digit_facts [OF True] show ?thesis
    by (simp add: show_hex_two sscanf_x_def Let_def to_int_small)
next
  case False
  have d: "n div 16 < 16" "n mod 16 < 16" using assms by simp_all
  have v: "16 * int (n div 16) + int (n mod 16) = int n" by presburger
  from False show ?thesis using hex_digit_facts [OF d(1)] hex_digit_facts [OF d(2)] assms
    by (simp add: show_hex_two sscanf_x_def Let_def to_int_small v)
qed

lemma show_hex_byte:
  "sscanf_x (show_hex (unat (b :: byte))) = Some (uint b)" "show_hex (unat b) \<noteq> []"
  "CHR '':'' \<notin> set (show_hex (unat b))" "length (show_hex (unat b)) \<le> 2"
proof -
  have n: "unat b < 256" using unsigned_less [of b, where ?'a = nat] by simp
  then have d: "unat b div 16 < 16" "unat b mod 16 < 16" by simp_all
  show "sscanf_x (show_hex (unat b)) = Some (uint b)" using sscanf_hex [OF n] by simp
  show "show_hex (unat b) \<noteq> []" "length (show_hex (unat b)) \<le> 2" using show_hex_two [OF n] by simp_all
  show "CHR '':'' \<notin> set (show_hex (unat b))"
    using show_hex_two [OF n] hex_digit_facts(4) [OF d(1)] hex_digit_facts(4) [OF d(2)] by (cases "unat b < 16") auto
qed

text \<open>The address text without its last colon.\<close>

definition addr_text :: "byte list \<Rightarrow> string" where
  "addr_text bs = join_with CHR '':'' (map (\<lambda>b. show_hex (unat b)) bs)"

lemma butlast_colons: "ts \<noteq> [] \<Longrightarrow> butlast (concat (map (\<lambda>t. t @ [c]) ts)) = join_with c ts"
  by (induction c ts rule: join_with.induct) (simp_all add: butlast_append)

lemma addr_loop_spec:
  "0 \<le> off \<Longrightarrow> nat off + i + n \<le> length buf \<Longrightarrow> length s + 3 * n < MAXDLADDR \<Longrightarrow>
   addr_loop buf off i n s = Done (s @ concat (map (\<lambda>b. show_hex (unat b) @ '':'') (take n (drop (nat off + i) buf))))"
proof (induction n arbitrary: i s)
  case 0
  show ?case by simp
next
  case (Suc n)
  let ?t = "show_hex (unat (buf ! (nat off + i))) @ '':''"
  have j: "nat (off + int i) = nat off + i" "nat off + i < length buf" using Suc.prems(1,2) by (auto simp: nat_add_distrib)
  have t: "length ?t \<le> 3" using show_hex_byte(4) [of "buf ! (nat off + i)"] by simp
  have d: "take (Suc n) (drop (nat off + i) buf) = buf ! (nat off + i) # take n (drop (nat off + (i + 1)) buf)"
    using j(2) by (simp add: Cons_nth_drop_Suc [symmetric])
  have room: "length s + length ?t + 1 \<le> MAXDLADDR" "length (s @ ?t) + 3 * n < MAXDLADDR" using t Suc.prems(3) by auto
  have in_buf: "\<not> (off + int i < 0 \<or> int (length buf) \<le> off + int i)" using j Suc.prems(1) by linarith
  have "addr_loop buf off i (Suc n) s = addr_loop buf off (i + 1) n (s @ ?t)"
    unfolding addr_loop.simps Let_def j(1) if_not_P [OF in_buf] if_P [OF room(1)] by (rule refl)
  also have "\<dots> = Done ((s @ ?t) @ concat (map (\<lambda>b. show_hex (unat b) @ '':'') (take n (drop (nat off + (i + 1)) buf))))"
    by (rule Suc.IH) (use Suc.prems(1,2) room(2) in simp_all)
  finally show ?case unfolding d by simp
qed

text \<open>Addresses of up to 341 bytes inside the buffer are printed.\<close>

lemma addrtostring_spec:
  assumes "0 \<le> sint off" and "nat (sint off) + unat len \<le> length buf" and "unat len \<le> 341" and "len \<noteq> 0"
  shows "addrtostring buf off len = Done (Some (addr_text (take (unat len) (drop (nat (sint off)) buf))))"
proof -
  let ?bs = "take (unat len) (drop (nat (sint off)) buf)"
  have L: "addr_loop buf (sint off) 0 (unat len) [] = Done (concat (map (\<lambda>b. show_hex (unat b) @ '':'') ?bs))"
    using addr_loop_spec [of "sint off" 0 "unat len" buf "[]"] assms(1-3) by (simp add: MAXDLADDR_def)
  have "0 < unat len" using assms(4) by (simp add: unat_gt_0)
  then have "map (\<lambda>b. show_hex (unat b)) ?bs \<noteq> []" using assms(2) by simp
  from butlast_colons [OF this, of "CHR '':''"]
  show ?thesis using L assms(4) by (simp add: addrtostring_def addr_text_def comp_def)
qed

lemma addrtostring_empty: "addrtostring buf off 0 = Done None"
  by (simp add: addrtostring_def)

lemma addr_text_tokens: "tokens CHR '':'' (addr_text bs) = map (\<lambda>b. show_hex (unat b)) bs"
  unfolding addr_text_def by (rule tokens_join) (use show_hex_byte(2,3) in auto)

lemma stringtoaddr_bytes:
  "stringtoaddr_loop sp (map (\<lambda>b. show_hex (unat b)) bs) acc = Done (acc @ bs)"
proof (induction bs arbitrary: acc)
  case Nil
  show ?case by simp
next
  case (Cons b bs)
  have "uint b \<le> 255" using unsigned_less [of b, where ?'a = int] by simp
  with Cons show ?case by (simp add: show_hex_byte(1))
qed

subsection \<open>Facts on constants and replies\<close>

lemma caseret_name:
  assumes "distinct (map snd cs)" and "(s, v) \<in> set cs"
  shows "caseret cs unknown v = s"
proof -
  have "List.find (\<lambda>(s, c). c = v) cs = Some (s, v)"
    using assms by (induction cs) (auto simp: image_iff split: if_splits)
  then show ?thesis by (simp add: caseret_def)
qed

lemma dlprim_name:
  assumes "distinct (map (macro H) dlprim_names)" and "s \<in> set dlprim_names"
  shows "dlprim H (macro H s) = s"
  unfolding dlprim_def
  by (rule caseret_name) (use assms in \<open>simp_all add: macros_def comp_def\<close>)

lemma len_less_missing: "n < 2 ^ 32 \<Longrightarrow> \<not> len_less (-1) n"
proof -
  assume "n < 2 ^ 32"
  have "\<not> (- 1 :: u32) < w" for w by (simp add: not_less word_n1_ge)
  then show ?thesis by (simp add: len_less_def)
qed

lemma len_less_small: "n < 2 ^ 32 \<Longrightarrow> m < 2 ^ 32 \<Longrightarrow> len_less (int m) n \<longleftrightarrow> m < n"
  by (simp add: len_less_def word_less_nat_alt unsigned_of_nat take_bit_nat_eq_self)

text \<open>An answer that arrives whole.\<close>

lemma strgetmsg_whole:
  assumes "replies io = Reply 0 (Some bs) flags # rs" and "4 \<le> length bs" and "length bs \<le> MAXDLBUF"
    and "length bs \<le> length buf" and "macro H ''MORECTL'' \<noteq> 0"
  shows "strgetmsg H caller io buf =
    Done (io\<lparr>replies := rs\<rparr>, bs @ drop (length bs) buf, int (length bs), flags)"
proof -
  have "macro H ''MORECTL'' OR macro H ''MOREDATA'' \<noteq> 0" using assms(5) by (simp add: or_eq_0_iff)
  moreover have "\<not> len_less (int (length bs)) 4"
    using assms(2,3) by (subst len_less_small) (simp_all add: MAXDLBUF_def)
  ultimately show ?thesis using assms(1,3,4) by (simp add: strgetmsg_def store_ctl_def Let_def)
qed

text \<open>A message without a control part passes the length check, because the length -1 is compared as an
  unsigned number: the buffer keeps what it held.\<close>

lemma no_control_part:
  assumes "replies io = Reply 0 None flags # rs" and "macro H ''MORECTL'' \<noteq> 0"
  shows "strgetmsg H caller io buf = Done (io\<lparr>replies := rs\<rparr>, buf, -1, flags)"
proof -
  have "macro H ''MORECTL'' OR macro H ''MOREDATA'' \<noteq> 0" using assms(2) by (simp add: or_eq_0_iff)
  then show ?thesis using assms(1) len_less_missing [of 4] by (simp add: strgetmsg_def store_ctl_def Let_def)
qed

text \<open>The acknowledgement that ends a request well: it arrived whole, it is of the type expected, and it was
  sent with high priority.\<close>

definition whole_reply :: "dlpi_h \<Rightarrow> string \<Rightarrow> string \<Rightarrow> byte list \<Rightarrow> bool" where
  "whole_reply H prim s bs \<longleftrightarrow> 4 \<le> length bs \<and> length bs \<le> MAXDLBUF \<and> sizeof_s H s \<le> length bs \<and>
     get32 bs 0 = Some (macro H prim)"

lemma whole_reply_got:
  assumes "whole_reply H prim s bs" and "replies io = Reply 0 (Some bs) flags # rs" and "macro H ''MORECTL'' \<noteq> 0"
    and "length buf = 4 * MAXDLBUF"
  shows "strgetmsg H caller io buf = Done (io\<lparr>replies := rs\<rparr>, bs @ drop (length bs) buf, int (length bs), flags)"
    and "expecting H prim (bs @ drop (length bs) buf) = Done ()"
    and "\<not> len_less (int (length bs)) (sizeof_s H s)"
proof -
  have w: "4 \<le> length bs" "length bs \<le> MAXDLBUF" "sizeof_s H s \<le> length bs" "get32 bs 0 = Some (macro H prim)"
    using assms(1) by (simp_all add: whole_reply_def)
  then show "strgetmsg H caller io buf = Done (io\<lparr>replies := rs\<rparr>, bs @ drop (length bs) buf, int (length bs), flags)"
    using strgetmsg_whole [OF assms(2)] assms(3,4) by simp
  have "get32 (bs @ drop (length bs) buf) 0 = get32 bs 0" using w(1) by (simp add: get32_def get_bytes_def)
  then show "expecting H prim (bs @ drop (length bs) buf) = Done ()"
    using w(4) by (simp add: expecting_def dl_primitive_def)
  show "\<not> len_less (int (length bs)) (sizeof_s H s)"
    using w(2,3) by (subst len_less_small) (simp_all add: MAXDLBUF_def)
qed

lemma acks_whole:
  assumes "replies io = Reply 0 (Some bs) (macro H ''RS_HIPRI'') # rs" and "macro H ''MORECTL'' \<noteq> 0"
    and "length buf = 4 * MAXDLBUF"
  shows "whole_reply H ''DL_OK_ACK'' ''dl_ok_ack_t'' bs \<Longrightarrow>
      dlokack H io buf = Done (io\<lparr>replies := rs\<rparr>, bs @ drop (length bs) buf)"
    and "whole_reply H ''DL_BIND_ACK'' ''dl_bind_ack_t'' bs \<Longrightarrow>
      dlbindack H io buf = Done (io\<lparr>replies := rs\<rparr>, bs @ drop (length bs) buf)"
    and "whole_reply H ''DL_INFO_ACK'' ''dl_info_ack_t'' bs \<Longrightarrow>
      dlinfoack H io buf = Done (io\<lparr>replies := rs\<rparr>, bs @ drop (length bs) buf)"
  using whole_reply_got [OF _ assms]
  by (simp_all add: dlokack_def dlbindack_def dlinfoack_def)

text \<open>A message without a control part that answers the first request of a stream is judged by the
  indeterminate bytes of the buffer.\<close>

lemma ok_ack_without_control:
  assumes "replies io = Reply 0 None (macro H ''RS_HIPRI'') # rs" and "macro H ''MORECTL'' \<noteq> 0"
    and "get32 buf 0 = Some (macro H ''DL_OK_ACK'')" and "sizeof_s H ''dl_ok_ack_t'' < 2 ^ 32"
  shows "dlokack H io buf = Done (io\<lparr>replies := rs\<rparr>, buf)"
  using no_control_part [OF assms(1,2)] assms(3,4) len_less_missing
  by (simp add: dlokack_def expecting_def dl_primitive_def)

text \<open>\<open>dldisabmultireq\<close> and \<open>dlsetphysaddrreq\<close> are copies of \<open>dlenabmultireq\<close>: what they send is a
  request to enable a multicast address.\<close>

lemma copied_requests:
  "dldisabmultireq H addr len io = Done io' \<or> dlsetphysaddrreq H addr len io = Done io' \<Longrightarrow>
   \<exists>req. sent io' = sent io @ [req] \<and> (''dl_primitive'', macro H ''DL_ENABMULTI_REQ'') \<in> set (req_fields req)"
  by (auto simp: dldisabmultireq_def dlsetphysaddrreq_def dbind_Done tail_req_def putmsg_def split: if_splits list.splits)

subsection \<open>Properties\<close>

text \<open>C26. Round trip of an address: what \<open>addrtostring\<close> prints for up to 341 bytes of a message is read
  back by \<open>stringtoaddr\<close> as the same bytes, without writing past the 1024 bytes of the text buffer.\<close>

theorem address_round_trip:
  assumes "0 \<le> sint off" and "nat (sint off) + unat len \<le> length buf" and "unat len \<le> 341" and "len \<noteq> 0"
  shows "\<exists>t. addrtostring buf off len = Done (Some t) \<and>
     stringtoaddr t = Done (unat len, take (unat len) (drop (nat (sint off)) buf))"
proof -
  let ?bs = "take (unat len) (drop (nat (sint off)) buf)"
  have "length ?bs = unat len" using assms(2) by simp
  then have "stringtoaddr (addr_text ?bs) = Done (unat len, ?bs)"
    by (simp add: stringtoaddr_def Let_def addr_text_tokens stringtoaddr_bytes)
  with addrtostring_spec [OF assms] show ?thesis by blast
qed

theorem address_round_trip_witness:
  "\<exists>t. addrtostring [0, 0, 0xAA, 0, 0x3E, 7] 2 4 = Done (Some t) \<and> stringtoaddr t = Done (4, [0xAA, 0, 0x3E, 7])"
  using address_round_trip [of 2 4 "[0, 0, 0xAA, 0, 0x3E, 7]"] by simp

end
