(* ===== verification/AddrsDlpi.thy ===== *)
theory AddrsDlpi
  imports DlCommon
begin

text \<open>
  addrs_dlpi.c: the hardware address of an interface through a data link provider, and its IP address
  through an ioctl. The device is the record of dlcommon.c's model; opening a path, the ioctl and the
  indeterminate contents of the two stack buffers are parameters. A character buffer is the list of
  its bytes; the string in it ends at the first NUL.
\<close>

subsection \<open>Bounded copies\<close>

definition NUL :: char where "NUL = CHR 0x00"

definition put_char :: "string \<Rightarrow> nat \<Rightarrow> char \<Rightarrow> string option" where
  "put_char dest i c = (if i < length dest then Some (dest[i := c]) else None)"

text \<open>The loop both functions end with: up to \<open>n\<close> characters and the NUL; the rest of the source is the
  result.\<close>

fun copy_loop :: "nat \<Rightarrow> string \<Rightarrow> nat \<Rightarrow> string \<Rightarrow> (string \<times> string) option" where
  "copy_loop 0 dest i src = map_option (\<lambda>d. (d, src)) (put_char dest i NUL)"
| "copy_loop (Suc n) dest i [] = map_option (\<lambda>d. (d, [])) (put_char dest i NUL)"
| "copy_loop (Suc n) dest i (c # src) = Option.bind (put_char dest i c) (\<lambda>d. copy_loop n d (i + 1) src)"

definition strncpy2 :: "string \<Rightarrow> string \<Rightarrow> int \<Rightarrow> (string \<times> string) option" where
  "strncpy2 dest src n = copy_loop (nat n) dest 0 src"

text \<open>The first loop of \<open>strncat2\<close>: the position of the NUL, or \<open>n\<close>.\<close>

function end_loop :: "string \<Rightarrow> nat \<Rightarrow> nat \<Rightarrow> nat option" where
  "end_loop dest i n =
     (if i < n then (if i < length dest then (if dest ! i \<noteq> NUL then end_loop dest (i + 1) n else Some i) else None)
      else Some i)"
  by pat_completeness auto
termination by (relation "measure (\<lambda>(dest, i, n). n - i)") auto

declare end_loop.simps [simp del]

definition strncat2 :: "string \<Rightarrow> string \<Rightarrow> int \<Rightarrow> (string \<times> string) option" where
  "strncat2 dest src n =
     (let m = nat (n - 1) in Option.bind (end_loop dest 0 m) (\<lambda>i. copy_loop (m - i) dest i src))"

subsection \<open>Device names\<close>

text \<open>\<open>split_dname\<close>: the position of the unit number and its value, \<open>None\<close> where there is none. An
  empty name reads the byte before it. \<open>lb\<close> is the width of \<open>long\<close>.\<close>

definition split_dname :: "nat \<Rightarrow> string \<Rightarrow> (nat \<times> int) option dl" where
  "split_dname lb device =
     (if device = [] then Undef
      else if \<not> is_digit (last device) then Done None
      else (let cp = length device - length (takeWhile is_digit (rev device));
                (l, eos, _) = strtol lb (drop cp device);
                unit = to_int l
            in if cp + eos \<noteq> length device then Done None else Done (Some (cp, unit))))"

datatype open_result = Opened | Enoent | OpenError

text \<open>The path of the device. \<open>None\<close>: the name is too long.\<close>

definition device_path :: "string \<Rightarrow> string \<Rightarrow> string option dl" where
  "device_path junk ifname =
     (case strncpy2 junk ''/dev/'' (int (length junk) - 1) of
        None \<Rightarrow> Undef
      | Some (full, _) \<Rightarrow>
          (case strncat2 full ifname (int (length junk)) of
             None \<Rightarrow> Undef
           | Some (full, cp) \<Rightarrow> Done (if cp \<noteq> [] then None else Some (cstr full))))"

text \<open>The conversation with the provider: the hardware address copied to \<open>if_hw_addr\<close>, if the lengths
  are as expected.\<close>

definition dlpi_hw_addr ::
  "dlpi_h \<Rightarrow> int \<Rightarrow> byte list \<Rightarrow> byte list \<Rightarrow> dl_io \<Rightarrow> (int \<times> byte list \<times> dl_io) dl" where
  "dlpi_hw_addr H unit_num buf hw io =
     dbind (dlattachreq H (word_of_int unit_num) io) (\<lambda>io.
     dbind (dlokack H io buf) (\<lambda>(io, buf).
     dbind (dlbindreq H 0 0 (macro H ''DL_CLDLS'') 0 0 io) (\<lambda>io.
     dbind (dlbindack H io buf) (\<lambda>(io, buf).
     dbind (dlinforeq H io) (\<lambda>io.
     dbind (dlinfoack H io buf) (\<lambda>(io, buf).
     let f = fld H ''dl_info_ack_t'' buf; len = f ''dl_addr_length''
     in if len + f ''dl_sap_length'' = 6 then
          (let off = sint (f ''dl_addr_offset'')
           in if off < 0 \<or> length hw < unat len then Undef
              else case get_bytes buf (nat off) (unat len) of
                     None \<Rightarrow> Undef
                   | Some bs \<Rightarrow> Done (1, bs @ drop (unat len) hw, io))
        else Done (0, hw, io)))))))"

text \<open>The part up to \<open>get_ip_address\<close>.\<close>

definition dlpi_open_and_ask ::
  "dlpi_h \<Rightarrow> nat \<Rightarrow> (string \<Rightarrow> open_result) \<Rightarrow> byte list \<Rightarrow> string \<Rightarrow> byte list \<Rightarrow> dl_io
     \<Rightarrow> (int \<times> byte list \<times> dl_io) dl" where
  "dlpi_open_and_ask H lb open_dev buf path hw io =
     dbind (split_dname lb path) (\<lambda>r.
     case r of
       None \<Rightarrow> Done (0, hw, io)
     | Some (cp, unit_num) \<Rightarrow>
         if open_dev (take cp path) = Opened \<or> open_dev (take cp path) = Enoent \<and> open_dev path = Opened
         then dlpi_hw_addr H unit_num buf hw io else Done (0, hw, io))"

text \<open>The part from the label \<open>get_ip_address\<close>, where \<open>SIOCGIFADDR\<close> is defined; \<open>None\<close> is a failed ioctl.\<close>

definition get_ip_address :: "u32 option \<Rightarrow> u32 \<Rightarrow> int \<times> u32" where
  "get_ip_address siocgifaddr ip = (case siocgifaddr of None \<Rightarrow> (0, ip) | Some a \<Rightarrow> (2, a))"

text \<open>\<open>get_addrs_dlpi\<close>: the result, the hardware address, the IP address
  and the device.\<close>

definition get_addrs_dlpi ::
  "dlpi_h \<Rightarrow> nat \<Rightarrow> (string \<Rightarrow> open_result) \<Rightarrow> string \<Rightarrow> byte list \<Rightarrow> u32 option \<Rightarrow> string \<Rightarrow> u32 \<Rightarrow> dl_io
     \<Rightarrow> (int \<times> byte list \<times> u32 \<times> dl_io) dl" where
  "get_addrs_dlpi H lb open_dev junk buf siocgifaddr ifname ip io =
     (let hw = replicate 6 0
      in dbind (device_path junk ifname) (\<lambda>p.
         case p of
           None \<Rightarrow> Done (-1, hw, ip, io)
         | Some path \<Rightarrow> dbind (dlpi_open_and_ask H lb open_dev buf path hw io) (\<lambda>(got_hw, hw, io).
             case get_ip_address siocgifaddr ip of (got_ip, ip) \<Rightarrow> Done (got_hw + got_ip, hw, ip, io))))"

subsection \<open>What the copies do\<close>

lemma copy_loop_spec:
  "i + min n (length src) < length dest \<Longrightarrow>
   copy_loop n dest i src =
     Some (take i dest @ take n src @ NUL # drop (Suc (i + min n (length src))) dest, drop n src)"
proof (induction n dest i src rule: copy_loop.induct)
  case (1 dest i src)
  then show ?case by (simp add: put_char_def upd_conv_take_nth_drop)
next
  case (2 n dest i)
  then show ?case by (simp add: put_char_def upd_conv_take_nth_drop)
next
  case (3 n dest i c src)
  then have i: "i < length dest" by simp
  from 3 have "copy_loop n (dest[i := c]) (i + 1) src = Some (take (i + 1) (dest[i := c]) @ take n src @
      NUL # drop (Suc (i + 1 + min n (length src))) (dest[i := c]), drop n src)"
    using i by (simp add: put_char_def)
  with i show ?case by (simp add: put_char_def take_Suc_conv_app_nth)
qed

lemma copy_loop_overrun: "length dest \<le> i + min n (length src) \<Longrightarrow> i \<le> length dest \<Longrightarrow> copy_loop n dest i src = None"
proof (induction n dest i src rule: copy_loop.induct)
  case (3 n dest i c src)
  then show ?case by (cases "i < length dest") (auto simp: put_char_def)
qed (simp_all add: put_char_def)

text \<open>\<open>strncpy2\<close> and \<open>strncat2\<close> never write past a buffer of the size they are told.\<close>

lemma strncpy2_string:
  assumes "n < length dest" and "NUL \<notin> set src"
  shows "\<exists>d. strncpy2 dest src (int n) = Some (d, drop n src) \<and> length d = length dest \<and> cstr d = take n src"
proof -
  have "strncpy2 dest src (int n) = Some (take n src @ NUL # drop (Suc (min n (length src))) dest, drop n src)"
    unfolding strncpy2_def using copy_loop_spec [of 0 n src dest] assms(1) by simp
  moreover have "cstr (take n src @ NUL # ds) = take n src" for ds
    unfolding cstr_def using assms(2) by (intro takeWhile_stop) (auto simp: NUL_def dest: in_set_takeD)
  ultimately show ?thesis using assms(1) by auto
qed

lemma end_loop_spec:
  "i \<le> min (length (cstr dest)) n \<Longrightarrow> length (cstr dest) < length dest \<Longrightarrow>
   end_loop dest i n = Some (min (length (cstr dest)) n)"
proof (induction dest i n rule: end_loop.induct)
  case (1 dest i n)
  consider (stop) "n \<le> i" | (nul) "i < n" "i = length (cstr dest)" | (more) "i < n" "i < length (cstr dest)"
    using 1(2) by linarith
  then show ?case
  proof cases
    case stop
    with 1(2) show ?thesis by (subst end_loop.simps) simp
  next
    case nul
    then have "dest ! i = NUL"
      using 1(3) nth_length_takeWhile [of "\<lambda>c. c \<noteq> NUL" dest] by (simp add: cstr_def NUL_def)
    with nul 1(3) show ?thesis by (subst end_loop.simps) simp
  next
    case more
    have "cstr dest ! i = dest ! i" using more(2) unfolding cstr_def by (rule takeWhile_nth)
    moreover have "cstr dest ! i \<noteq> NUL"
      using nth_mem [OF more(2)] unfolding cstr_def NUL_def by (auto dest: set_takeWhileD)
    ultimately have "dest ! i \<noteq> NUL" by simp
    with 1 more show ?thesis by (subst end_loop.simps) simp
  qed
qed

lemma strncat2_string:
  assumes "length (cstr dest) < length dest" and "NUL \<notin> set src"
  shows "\<exists>d. strncat2 dest src (int (length dest)) = Some (d, drop (length dest - 1 - length (cstr dest)) src) \<and>
    length d = length dest \<and> cstr d = take (length dest - 1) (cstr dest @ src)"
proof -
  let ?k = "length (cstr dest)" and ?m = "length dest - 1"
  let ?n = "?m - ?k"
  have e: "end_loop dest 0 ?m = Some ?k" using end_loop_spec [of 0 dest ?m] assms(1) by simp
  have t: "take ?k dest = cstr dest" by (simp add: cstr_def takeWhile_eq_take [symmetric])
  have "copy_loop ?n dest ?k src = Some (cstr dest @ take ?n src @ NUL # drop (Suc (?k + min ?n (length src))) dest, drop ?n src)"
    using copy_loop_spec [of ?k ?n src dest] assms(1) t by simp
  then have "strncat2 dest src (int (length dest)) =
      Some (cstr dest @ take ?n src @ NUL # drop (Suc (?k + min ?n (length src))) dest, drop ?n src)"
    using e assms(1) by (simp add: strncat2_def nat_diff_distrib)
  moreover have "cstr ((cstr dest @ take ?n src) @ NUL # ds) = cstr dest @ take ?n src" for ds
    unfolding cstr_def [of "_ @ _"] using assms(2)
    by (intro takeWhile_stop) (auto simp: NUL_def cstr_def dest: in_set_takeD set_takeWhileD)
  ultimately show ?thesis using assms(1) by auto
qed

lemma takeWhile_all: "\<forall>c \<in> set xs. P c \<Longrightarrow> takeWhile P xs = xs"
  by (simp add: takeWhile_eq_all_conv)

text \<open>A name and its unit number come apart at the digits.\<close>

lemma split_dname_spec:
  assumes "ds \<noteq> []" and "\<forall>c \<in> set ds. is_digit c" and "d = [] \<or> \<not> is_digit (last d)"
  shows "split_dname lb (d @ ds) = Done (Some (length d, to_int (clamp_long lb (digits_val ds))))"
proof -
  have l: "is_digit (last (d @ ds))" using assms(1,2) by simp
  have "rev d = [] \<or> \<not> is_digit (hd (rev d))" using assms(3) by (simp add: hd_rev)
  then have t: "takeWhile is_digit (rev (d @ ds)) = rev ds"
    using assms(2) by (simp only: rev_append) (rule takeWhile_stop, auto)
  have "is_digit (hd ds)" using assms(1,2) by simp
  then have h: "\<not> is_space (hd ds)" "hd ds \<noteq> CHR ''-''" "hd ds \<noteq> CHR ''+''" using digit_not_space by simp_all
  then have "takeWhile is_space ds = []" using assms(1) by (cases ds) auto
  then have "strtol lb ds = (clamp_long lb (digits_val ds), length ds, clamp_long lb (digits_val ds) \<noteq> digits_val ds)"
    using h assms(1) by (simp add: strtol_def Let_def takeWhile_all [OF assms(2)])
  then show ?thesis using assms(1) l t by (simp add: split_dname_def Let_def)
qed

lemma device_path_spec:
  assumes "length junk = 256" and "NUL \<notin> set ifname"
  shows "device_path junk ifname = Done (if length ifname \<le> 250 then Some (''/dev/'' @ ifname) else None)"
proof -
  have "NUL \<notin> set ''/dev/''" by (simp add: NUL_def)
  then obtain d where d: "strncpy2 junk ''/dev/'' 255 = Some (d, [])" "length d = 256" "cstr d = ''/dev/''"
    using strncpy2_string [of 255 junk "''/dev/''"] assms(1) by auto
  then obtain e where e: "strncat2 d ifname 256 = Some (e, drop 250 ifname)" "cstr e = take 255 (''/dev/'' @ ifname)"
    using strncat2_string [of d ifname] assms(2) by auto
  have "drop 250 ifname \<noteq> [] \<longleftrightarrow> \<not> length ifname \<le> 250" by auto
  moreover have "length ifname \<le> 250 \<Longrightarrow> take 255 (''/dev/'' @ ifname) = ''/dev/'' @ ifname" by simp
  ultimately show ?thesis using d e assms(1) by (simp add: device_path_def)
qed

subsection \<open>The conversation with a provider that answers\<close>

text \<open>The three members of the last answer that the code reads lie inside the structure.\<close>

definition members_inside :: "dlpi_h \<Rightarrow> bool" where
  "members_inside H \<longleftrightarrow> (\<forall>m \<in> {''dl_addr_length'', ''dl_sap_length'', ''dl_addr_offset''}.
     fst (member H ''dl_info_ack_t'' m) + snd (member H ''dl_info_ack_t'' m) \<le> sizeof_s H ''dl_info_ack_t'')"

lemma fld_append:
  "fst (member H s m) + snd (member H s m) \<le> length xs \<Longrightarrow> fld H s (xs @ ys) m = fld H s xs m"
  by (simp add: fld_def case_prod_unfold)

definition answering :: "dlpi_h \<Rightarrow> byte list \<Rightarrow> byte list \<Rightarrow> byte list \<Rightarrow> dl_io \<Rightarrow> bool" where
  "answering H ok bnd info io \<longleftrightarrow> put_results io = [] \<and>
     (\<exists>rs. replies io = map (\<lambda>bs. Reply 0 (Some bs) (macro H ''RS_HIPRI'')) [ok, bnd, info] @ rs) \<and>
     whole_reply H ''DL_OK_ACK'' ''dl_ok_ack_t'' ok \<and> whole_reply H ''DL_BIND_ACK'' ''dl_bind_ack_t'' bnd \<and>
     whole_reply H ''DL_INFO_ACK'' ''dl_info_ack_t'' info"

lemma putmsg_sent: "put_results io = [] \<Longrightarrow> putmsg io req what = Done (io\<lparr>sent := sent io @ [req]\<rparr>)"
  by (simp add: putmsg_def)

lemma dlpi_hw_addr_spec:
  assumes A: "answering H ok bnd info io" and more: "macro H ''MORECTL'' \<noteq> 0" and buf: "length buf = 4 * MAXDLBUF"
    and ins: "members_inside H" and len: "fld H ''dl_info_ack_t'' info ''dl_addr_length'' = len"
    and sap: "len + fld H ''dl_info_ack_t'' info ''dl_sap_length'' = 6"
    and off: "fld H ''dl_info_ack_t'' info ''dl_addr_offset'' = off" "0 \<le> sint off"
      "nat (sint off) + unat len \<le> length info"
  shows "\<exists>io'. dlpi_hw_addr H unit_num buf hw io =
    (if unat len \<le> length hw
     then Done (1, take (unat len) (drop (nat (sint off)) info) @ drop (unat len) hw, io') else Undef)"
proof -
  let ?hi = "macro H ''RS_HIPRI''"
  obtain rs where R: "put_results io = []" "replies io = Reply 0 (Some ok) ?hi # Reply 0 (Some bnd) ?hi # Reply 0 (Some info) ?hi # rs"
      "whole_reply H ''DL_OK_ACK'' ''dl_ok_ack_t'' ok" "whole_reply H ''DL_BIND_ACK'' ''dl_bind_ack_t'' bnd"
      "whole_reply H ''DL_INFO_ACK'' ''dl_info_ack_t'' info"
    using A by (auto simp: answering_def)
  have l: "length ok \<le> MAXDLBUF" "length bnd \<le> MAXDLBUF" "length info \<le> MAXDLBUF"
    using R(3-5) by (simp_all add: whole_reply_def)
  define b1 where "b1 = ok @ drop (length ok) buf"
  define b2 where "b2 = bnd @ drop (length bnd) b1"
  define b3 where "b3 = info @ drop (length info) b2"
  have b: "length b1 = 4 * MAXDLBUF" "length b2 = 4 * MAXDLBUF" using l buf by (simp_all add: b1_def b2_def)
  note a1 = acks_whole(1) [OF _ more buf R(3), folded b1_def]
    and a2 = acks_whole(2) [OF _ more b(1) R(4), folded b2_def]
    and a3 = acks_whole(3) [OF _ more b(2) R(5), folded b3_def]
  have s: "sizeof_s H ''dl_info_ack_t'' \<le> length info" using R(5) by (simp add: whole_reply_def)
  have f: "fld H ''dl_info_ack_t'' b3 m = fld H ''dl_info_ack_t'' info m"
    if "m \<in> {''dl_addr_length'', ''dl_sap_length'', ''dl_addr_offset''}" for m
  proof -
    have "fst (member H ''dl_info_ack_t'' m) + snd (member H ''dl_info_ack_t'' m) \<le> sizeof_s H ''dl_info_ack_t''"
      using ins that unfolding members_inside_def by blast
    with s have "fst (member H ''dl_info_ack_t'' m) + snd (member H ''dl_info_ack_t'' m) \<le> length info" by simp
    then show ?thesis unfolding b3_def by (rule fld_append)
  qed
  have g: "get_bytes b3 (nat (sint off)) (unat len) = Some (take (unat len) (drop (nat (sint off)) info))"
    using off(3) by (simp add: get_bytes_def b3_def)
  have f3: "fld H ''dl_info_ack_t'' b3 ''dl_addr_length'' = len" "fld H ''dl_info_ack_t'' b3 ''dl_addr_offset'' = off"
      "fld H ''dl_info_ack_t'' b3 ''dl_sap_length'' = fld H ''dl_info_ack_t'' info ''dl_sap_length''"
    using f len off(1) by simp_all
  show ?thesis
    unfolding dlpi_hw_addr_def dlattachreq_def dlbindreq_def dlinforeq_def
    using R(1,2) off(2) sap
    by (simp add: putmsg_sent a1 a2 a3 f3 g Let_def not_less del: split_paired_Ex)
qed

subsection \<open>Properties\<close>


text \<open>The provider of an Ethernet interface on Solaris, with the values and the layout of its headers.\<close>

definition sample_h :: dlpi_h where
  "sample_h = \<lparr>
     macro = (\<lambda>s. case map_of [(''DL_INFO_REQ'', 0), (''DL_BIND_REQ'', 1), (''DL_INFO_ACK'', 3), (''DL_BIND_ACK'', 4),
        (''DL_OK_ACK'', 6), (''DL_ATTACH_REQ'', 0x0b), (''DL_CLDLS'', 2), (''RS_HIPRI'', 1), (''MORECTL'', 1),
        (''MOREDATA'', 2)] s of Some v \<Rightarrow> v | None \<Rightarrow> 0xffff),
     sizeof_s = (\<lambda>s. case map_of [(''dl_info_ack_t'', 76), (''dl_ok_ack_t'', 8), (''dl_bind_ack_t'', 24)] s of
        Some n \<Rightarrow> n | None \<Rightarrow> 20),
     member = (\<lambda>s m. case map_of [(''dl_addr_length'', 12), (''dl_sap_length'', 28), (''dl_addr_offset'', 56)] m of
        Some n \<Rightarrow> (n, 4) | None \<Rightarrow> (0, 4)),
     args_rtl = True\<rparr>"

definition words_bytes :: "u32 list \<Rightarrow> byte list" where
  "words_bytes ws = concat (map (\<lambda>w. le_bytes 4 (uint w)) ws)"

definition sample_info :: "u32 \<Rightarrow> u32 \<Rightarrow> byte list" where
  "sample_info len sap = words_bytes [3, 1500, 0, len, 4, 0, 3, sap, 2, 0, 0, 0, 0, 0x100, 76, 2, 6, 84, 0] @
     [8, 0, 0x20, 1, 2, 3, 8, 0] @ replicate 6 0xff"

definition sample_io :: "u32 \<Rightarrow> u32 \<Rightarrow> dl_io" where
  "sample_io len sap = \<lparr>sent = [], put_results = [],
     replies = map (\<lambda>bs. Reply 0 (Some bs) 1) [words_bytes [6, 0x0b], words_bytes [4, 0, 8, 24, 0, 0] @ replicate 8 0,
       sample_info len sap]\<rparr>"


end
