(* ===== verification/InfoServer.thy ===== *)
theory InfoServer
  imports IftopApi
begin

text \<open>
  communication_info_server.c: the thread that serves connection information, started and stopped by
  two option flags. The results of the socket calls, of \<open>pthread_create\<close> and of \<open>send\<close> are
  parameters.
\<close>

definition COMMUNICATION_INFO_PORT :: nat where "COMMUNICATION_INFO_PORT = 22222"

text \<open>The server's result if one of its first calls fails; otherwise it accepts clients for ever
  (\<open>None\<close>), the last one accepted being \<open>cliefd\<close>.\<close>

definition create_communication_info_server :: "int \<Rightarrow> int \<Rightarrow> int \<Rightarrow> int option" where
  "create_communication_info_server sock bound listening =
     (if sock = -1 then Some (-1) else if bound = -1 then Some (-1) else if listening = -1 then Some (-1) else None)"

text \<open>The signals blocked in the calling thread, which a thread it creates inherits.\<close>

datatype signal = SIGPIPE | SIGINT | OTHER_SIGNAL nat

definition block_sigpipe :: "signal set \<Rightarrow> signal set" where
  "block_sigpipe blocked = blocked \<union> {SIGPIPE}"

text \<open>\<open>check_send\<close>: the result, the signal mask a thread created by the call starts with (\<open>None\<close> if
  \<open>pthread_create\<close> was not called), the caller's mask and the options.\<close>

definition check_send :: "int \<Rightarrow> signal set \<Rightarrow> options_t \<Rightarrow> int \<times> signal set option \<times> signal set \<times> options_t" where
  "check_send pthread_create blocked options =
     (if send_communication_info options \<noteq> 0 \<and> create_send_thread options = 0 then
        (let blocked' = block_sigpipe blocked
         in (pthread_create, Some blocked', blocked',
             if pthread_create = 0 then options\<lparr>create_send_thread := 1\<rparr> else options))
      else (0, None, blocked, options))"

text \<open>\<open>close_send\<close>: whether the socket was closed, and the options.\<close>

definition close_send :: "int \<Rightarrow> options_t \<Rightarrow> bool \<times> options_t" where
  "close_send sockfd options =
     (if send_communication_info options = 0 \<and> create_send_thread options \<noteq> 0
      then (sockfd > 0, options\<lparr>create_send_thread := 0\<rparr>) else (False, options))"

definition send_info :: "(communication_info_s \<Rightarrow> int) \<Rightarrow> communication_info_s \<Rightarrow> int" where
  "send_info send info = send info"

text \<open>Any number of checks with the flags unchanged starts at most one server thread, and every thread
  that is started has the signal of a closed connection blocked.\<close>

fun check_sends :: "int list \<Rightarrow> signal set \<Rightarrow> options_t \<Rightarrow> signal set list \<times> options_t" where
  "check_sends [] blocked options = ([], options)"
| "check_sends (r # rs) blocked options =
     (case check_send r blocked options of (ret, created, blocked', options') \<Rightarrow>
        (case check_sends rs blocked' options' of (ts, options'') \<Rightarrow>
           ((case created of Some m \<Rightarrow> if ret = 0 then m # ts else ts | None \<Rightarrow> ts), options'')))"

lemma check_sends_started: "create_send_thread options \<noteq> 0 \<Longrightarrow> check_sends rs blocked options = ([], options)"
  by (induction rs arbitrary: blocked) (auto simp: check_send_def)

lemma check_sends_once: "length (fst (check_sends rs blocked options)) \<le> 1 \<and>
   list_all ((\<in>) SIGPIPE) (fst (check_sends rs blocked options))"
proof (induction rs arbitrary: blocked options)
  case (Cons r rs)
  show ?case
    using Cons.IH [of blocked options] Cons.IH [of "block_sigpipe blocked" options]
      check_sends_started [of "options\<lparr>create_send_thread := 1\<rparr>" rs "block_sigpipe blocked"]
    by (auto simp: check_send_def block_sigpipe_def Let_def split: prod.splits)
qed simp

end
