(* ===== verification/ScreenFilter.thy ===== *)
theory ScreenFilter
  imports CHeap
begin

text \<open>
  screenfilter.c: the regular expression that selects screen lines. \<open>regcomp\<close> and \<open>regexec\<close> are
  parameters; the filter string is an object of a heap owned by \<open>options.screenfilter\<close>.
  \<open>preg\<close> is \<open>None\<close> until an expression has been compiled; matching it then is a fault.
\<close>

record 'r screen_filter =
  screenfilter_ptr :: "addr option"
  preg :: "'r option"
  strings :: "string heap"

definition screen_filter_set ::
  "(string \<Rightarrow> 'r option) \<Rightarrow> addr \<Rightarrow> 'r screen_filter \<Rightarrow> (int \<times> 'r screen_filter) option" where
  "screen_filter_set regcomp s f = do {
     f \<leftarrow> (case screenfilter_ptr f of
         Some p \<Rightarrow> do { h \<leftarrow> xfree (strings f) (Some p);
                        Some (f\<lparr>strings := h, screenfilter_ptr := None, preg := None\<rparr>) }
       | None \<Rightarrow> Some f);
     t \<leftarrow> hread (strings f) s;
     (case regcomp t of
        Some r \<Rightarrow> Some (1, f\<lparr>preg := Some r, screenfilter_ptr := Some s\<rparr>)
      | None \<Rightarrow> do { h \<leftarrow> xfree (strings f) (Some s); Some (0, f\<lparr>strings := h\<rparr>) })
   }"

definition screen_filter_match :: "('r \<Rightarrow> string \<Rightarrow> bool) \<Rightarrow> string \<Rightarrow> 'r screen_filter \<Rightarrow> int option" where
  "screen_filter_match regexec s f =
     (case screenfilter_ptr f of
        None \<Rightarrow> Some 1
      | Some _ \<Rightarrow> map_option (\<lambda>r. if regexec r s then 1 else 0) (preg f))"

definition filter_ok :: "'r screen_filter \<Rightarrow> bool" where
  "filter_ok f \<longleftrightarrow> (case screenfilter_ptr f of
     None \<Rightarrow> True | Some p \<Rightarrow> cells (strings f) p \<noteq> None \<and> preg f \<noteq> None)"

text \<open>Setting a new string keeps the filter well-formed: it is in force if it compiles, and
  otherwise every line matches.\<close>

lemma screen_filter_set_ok:
  assumes "filter_ok f" and "cells (strings f) s = Some t" and "screenfilter_ptr f \<noteq> Some s"
  shows "\<exists>f'. screen_filter_set regcomp s f = Some (if regcomp t = None then 0 else 1, f') \<and> filter_ok f' \<and>
     screen_filter_match regexec l f' =
       Some (case regcomp t of None \<Rightarrow> 1 | Some r \<Rightarrow> if regexec r l then 1 else 0)"
proof (cases "screenfilter_ptr f")
  case None
  with assms show ?thesis
    by (cases "regcomp t") (auto simp: screen_filter_set_def screen_filter_match_def filter_ok_def heap_simps xfree_def)
next
  case (Some p)
  with assms have "p \<noteq> s" "cells (strings f) p \<noteq> None" by (auto simp: filter_ok_def)
  with Some assms(2) show ?thesis
    by (cases "regcomp t") (auto simp: screen_filter_set_def screen_filter_match_def filter_ok_def heap_simps xfree_def)
qed

text \<open>Setting the string that is in force reads it after freeing it.\<close>

lemma screen_filter_set_again:
  "filter_ok f \<Longrightarrow> screenfilter_ptr f = Some s \<Longrightarrow> screen_filter_set regcomp s f = None"
  by (auto simp: screen_filter_set_def filter_ok_def heap_simps xfree_def)

end
