(* ===== verification/Spec2Isabelle.thy ===== *)
theory Spec2Isabelle
  imports EndToEnd IpLocator ThreadProf ResolverBackends UiCommon ReadTargetIp Vector Edline AddrsIoctl AddrsDlpi InfoServer ScreenFilter
begin

text \<open>
  A model of iftop-dotqoo: a traffic monitor derived from iftop that keeps a table of the
  connections it sees on an interface and publishes those above a threshold to an MQTT broker.

  \<^bold>\<open>The program and its theories.\<close> The capture loop reads packets with pcap and hands each to the
  handler of its link type; \<open>handle_ip_packet\<close> decides direction and key of the packet and
  adds its length to the record of the connection; \<open>tick\<close>, called from the loops, rotates the
  history, builds a message from the approved connections and drives the MQTT client.

  \<^item> \<^bold>\<open>Prelude\<close>: machine types, byte order, bounds-checked memory access, shared lemmas.
    \<^bold>\<open>CHeap\<close> (util.c): objects behind pointers, with allocation and freeing. \<^bold>\<open>CString\<close>: the
    functions of the C library on strings.
  \<^item> \<^bold>\<open>Hash\<close> (hash.c) with its key types \<^bold>\<open>AddrHash\<close> (addr\_hash.c), \<^bold>\<open>NsHash\<close> (ns\_hash.c) and
    \<^bold>\<open>ServHash\<close> (serv\_hash.c). The chains are pointer structures in a store; the abstraction is the
    map from keys to records.
  \<^item> \<^bold>\<open>IftopTypes\<close> (iftop.h, part of options.h), \<^bold>\<open>History\<close> (the connection history of iftop.c),
    \<^bold>\<open>IftopApi\<close> (iftop\_api.c), \<^bold>\<open>Packet\<close> (packet handlers of iftop.c and the header structures),
    \<^bold>\<open>Mqtt\<close> (mqtt.c, and \<open>unpack\<close>, the receiver's reading of a message), \<^bold>\<open>Iftop\<close> (the
    accounting of a packet, the ticks, the capture loop and the input loop of tui.c).
  \<^item> \<^bold>\<open>StringMap\<close> (stringmap.c), \<^bold>\<open>CfgFile\<close> (cfgfile.c), \<^bold>\<open>Getopt\<close> (the scanner of the C library on the
    option strings the program uses), \<^bold>\<open>Options\<close> (options.c), \<^bold>\<open>Startup\<close> (\<open>configure\<close>: the order in
    which \<open>main\<close> calls them; \<open>boot\<close>: \<open>main\<close> up to the creation of the capture thread, over a record
    \<open>outside\<close> of what it finds in the environment).
  \<^item> \<^bold>\<open>Program\<close>: the threads of the running program as interleaved steps over the globals of \<open>Iftop\<close>, the
    signal handler, the waiting and the end of \<open>main\<close>. \<^bold>\<open>Monitor\<close>: the specification of the whole, a
    finite map of connections with the time of the last rotation and the totals, and the refinement.
  \<^item> \<^bold>\<open>Receiver\<close> (Python\_Client/mqtt\_client.py): the table that the messages of the boxes fill, the
    totals, the listing and the commands; \<^bold>\<open>IpLocator\<close>: its class that looks up places in a file of
    address ranges. \<^bold>\<open>EndToEnd\<close>: program and receiver together.
  \<^item> \<^bold>\<open>ThreadProf\<close> (threadprof.c): the handshake of the profiling wrapper over a stack frame.
  \<^item> \<^bold>\<open>Resolver\<close> (resolver.c with the \<open>do_resolve\<close> config.h selects), \<^bold>\<open>ResolverBackends\<close> (the other
    variants of \<open>do_resolve\<close>), \<^bold>\<open>SortedList\<close> (sorted\_list.c), \<^bold>\<open>Vector\<close> (vector.c), \<^bold>\<open>Edline\<close>
    (edline.c), \<^bold>\<open>UiCommon\<close> (ui\_common.c), \<^bold>\<open>ReadTargetIp\<close> (read\_target\_ip.c), \<^bold>\<open>AddrsIoctl\<close>
    (addrs\_ioctl.c), \<^bold>\<open>DlCommon\<close> and \<^bold>\<open>AddrsDlpi\<close> (dlcommon.c and addrs\_dlpi.c, for systems with DLPI), \<^bold>\<open>InfoServer\<close> (communication\_info\_server.c), \<^bold>\<open>ScreenFilter\<close>
    (screenfilter.c).

  \<^bold>\<open>How code is represented.\<close> Structs are records and enumerations datatypes; fixed-width integers
  are words; the globals of a component are one record passed through its operations. Undefined
  behaviour (an access out of bounds, a freed or wild pointer, an uninitialised read) makes an
  operation return \<open>None\<close>, so a theorem with \<open>Some\<close> on the right includes the absence of
  such faults. Freed memory that the code still reads is an explicit argument. What the kernel, the
  clock, pcap, Paho, zlib, regex and the resolver library answer is an argument, with what the code
  relies on as a named hypothesis where a theorem needs one.

  \<^bold>\<open>Interfaces.\<close> \<open>hash_keys\<close> states what hash.c asks of a key type (the comparison decides
  equality, hashes agree and stay within the table, a copy equals its original); it is interpreted
  on the three key types of the program, and the theorem that the table implements a map is proved
  once. \<open>string_dict\<close> is the contract between the search tree and the configuration table, and
  \<open>bounded_fifo\<close> that between the ring buffer and the resolver; each is interpreted on the
  model of the code that provides it. \<^bold>\<open>Simulation\<close> states what it means that a machine driven by events is
  safe or refines a specification, and treats runs once; the history, the MQTT client, the resolver,
  the profiling wrapper and the whole program are its interpretations.

  \<^bold>\<open>What is shown.\<close>
  \<^item> Hash table and history: insertion, lookup and deletion at pointer level implement a map, for
    each key type; the history operations refine the map; a rotation deletes exactly the records
    its criteria name and counts the approved ones.
  \<^item> Packets: conservation of the accounted bytes, symmetry of the two directions of a connection,
    the net filter and the port rules, VLAN transparency, bounds of the reads.
  \<^item> MQTT: the buffer allocated from the rotation's count is filled exactly; the message unpacks to
    the approved records; the client frees no buffer twice while the connection stays up.
  \<^item> The whole program: from \<open>boot\<close>, every run of the threads refines the specification of \<open>Monitor\<close>
    and none faults, as long as no other thread ticks between the lookup of a record and its update;
    that the code does not exclude this is a theorem too. What a data request publishes decodes, on the
    receiver's side, to exactly the approved connections of the specification.
  \<^item> The receiver: its loops, which update entries in place, compute the rows grouped by box, host and
    outer address; the listing has the order and the sums it should; after a run of the program and a
    data request the table holds exactly the approved connections of the specification; the commands
    reach the box they name; with a net filter over the receiver's network every row is dropped. The binary search
    of \<open>IPLocator\<close> is a linear search.
  \<^item> Start-up: the files, the command line and the defaults together give well-formed options.
    Configuration files and the file of arguments round trip, and the first value of a directive counts.
  \<^item> Resolver: under any interleaving of client calls and worker steps every name waits exactly once
    and the queue stays a bounded queue; the loop of \<open>do_resolve\<close> returns.
  \<^item> DLPI: the bounded copies stay in their buffers, address texts round trip, the conversation with
    a provider that answers gives the hardware address, or overruns the array for a long one.
  \<^item> Line editor, sorted list, vector, listing: refinement of the abstract structure each implements.
  \<^item> The errors of the code are theorems too: their statements say on which input the model faults or
    gives a result other than the intended one.

  \<^bold>\<open>Recursion, bounds and fuel.\<close> Loops bounded by the data are structural recursions or functions
  with a measure. Loops over pointers and \<open>do_resolve\<close>'s growing buffer may run for ever and
  are partial functions into options; that they return is proved where a property needs it. No
  fuel is used: the loops driven from outside (capture, input, client calls) recurse over the list of
  events. Running out of memory aborts in the wrappers of util.c and is not a branch.

  \<^bold>\<open>Not modelled.\<close>
  \<^item> The calls that create and cancel threads, bind sockets and set the terminal's attributes: system
    calls with no state of the program's own; their results are parameters where the code looks at
    them. The contents of \<open>sys/dlpi.h\<close> are a parameter, and so are \<open>strtod\<close> and the floating-point
    operations of \<open>readable_size\<close>.
  \<^item> The texts of the error messages, and code that is commented out or excluded by the
    preprocessor on every system (the alternatives for terminals without termios among it).
  \<^item> Of the Python clients: the formats of numbers and times in the listing, the argument parser, the
    connection to the broker, and the queries of mqtt\_client\_mysql.py to its database (the rest of that
    file repeats mqtt\_client.py). Exceptions in a callback leave what it had changed, as in the model; that the main
    loop and the callbacks run in two threads without a lock is not modelled.
  \<^item> The build files: generated code, and the tests of configure.
\<close>

end
